(* ===== verification/Prelude.thy ===== *)
theory Prelude
  imports Main "HOL-Library.Word" "HOL-Library.Sublist"
begin

text \<open>
  What the components share: the faults a C++ run can end in and the result type that
  carries them, the character classes of the C locale, decimal printing and reading
  (\<open>std::to_string\<close>, \<open>atoi\<close>, \<open>strtol\<close>), \<open>std::string::find\<close>/\<open>substr\<close> and \<open>strtok\<close>,
  each with the lemmas the component proofs use, and the collections \<open>text_simps\<close>
  (evaluation of string code on concrete input) and \<open>res_simps\<close> (results).
\<close>

named_theorems text_simps \<open>unfolding the string routines on concrete text\<close>
named_theorems res_simps \<open>results of fallible code\<close>

section \<open>Faults and results\<close>

text \<open>
  The ways a run of the code can end other than by returning: a thrown
  \<open>std::out_of_range\<close>, \<open>std::invalid_argument\<close> or \<open>boost::system::system_error\<close>, or one of
  the undefined behaviours the sources can run into, kept apart by what was done wrong.
\<close>

datatype fault =
    Out_Of_Range
  | Invalid_Argument
  | Buffer_Overflow
  | Out_Of_Bounds
  | Uninitialised_Read
  | Null_Pointer
  | Unbounded_Loop
  | Signed_Overflow
  | Format_String
  | Dangling_Pointer
  | System_Error

type_synonym 'a res = "fault + 'a"

definition bind_res :: "'a res \<Rightarrow> ('a \<Rightarrow> 'b res) \<Rightarrow> 'b res" where
  "bind_res r f = (case r of Inl e \<Rightarrow> Inl e | Inr x \<Rightarrow> f x)"

lemma bind_res_simps [simp, res_simps]:
  "bind_res (Inl e) f = Inl e"
  "bind_res (Inr x) f = f x"
  by (simp_all add: bind_res_def)

lemma bind_res_Inr_iff [res_simps]:
  "bind_res r f = Inr y \<longleftrightarrow> (\<exists>x. r = Inr x \<and> f x = Inr y)"
  by (cases r) simp_all

lemma bind_res_cong [fundef_cong]:
  "r = r' \<Longrightarrow> (\<And>x. r' = Inr x \<Longrightarrow> f x = f' x) \<Longrightarrow> bind_res r f = bind_res r' f'"
  by (cases r') simp_all

section \<open>Characters\<close>

definition code_of :: "char \<Rightarrow> nat" where
  "code_of c = of_char c"

definition is_digit :: "char \<Rightarrow> bool" where
  "is_digit c \<longleftrightarrow> 48 \<le> code_of c \<and> code_of c \<le> 57"

definition is_alpha :: "char \<Rightarrow> bool" where
  "is_alpha c \<longleftrightarrow> (65 \<le> code_of c \<and> code_of c \<le> 90) \<or> (97 \<le> code_of c \<and> code_of c \<le> 122)"

definition is_alnum :: "char \<Rightarrow> bool" where
  "is_alnum c \<longleftrightarrow> is_alpha c \<or> is_digit c"

definition is_space :: "char \<Rightarrow> bool" where
  "is_space c \<longleftrightarrow> code_of c = 32 \<or> (9 \<le> code_of c \<and> code_of c \<le> 13)"

definition newline :: char where
  "newline = CHR 0x0A"

definition nul :: char where
  "nul = CHR 0x00"

lemmas char_class_defs [text_simps] =
  code_of_def is_digit_def is_alpha_def is_alnum_def is_space_def newline_def nul_def

lemma code_of_char_of [simp]: "n < 256 \<Longrightarrow> code_of (char_of n) = n"
  by (simp add: code_of_def)

lemma code_of_less [simp]: "code_of c < 256"
  by (simp add: code_of_def)

lemma code_of_inject [simp]: "code_of c = code_of d \<longleftrightarrow> c = d"
  by (simp add: code_of_def)

section \<open>Decimal numbers\<close>

text \<open>\<open>std::to_string\<close> on a non-negative value, most significant digit first.\<close>

definition digit_char :: "nat \<Rightarrow> char" where
  "digit_char d = char_of (48 + d)"

fun nat_str :: "nat \<Rightarrow> string" where
  "nat_str n = (if n < 10 then [digit_char n]
                else nat_str (n div 10) @ [digit_char (n mod 10)])"

declare nat_str.simps [simp del]

definition int_str :: "int \<Rightarrow> string" where
  "int_str z = (if z < 0 then CHR ''-'' # nat_str (nat (- z)) else nat_str (nat z))"

lemmas decimal_defs [text_simps] = nat_str.simps int_str_def

lemma digit_char_literals [text_simps]:
  "digit_char 0 = CHR ''0''" "digit_char (Suc 0) = CHR ''1''" "digit_char 1 = CHR ''1''"
  "digit_char 2 = CHR ''2''" "digit_char 3 = CHR ''3''" "digit_char 4 = CHR ''4''"
  "digit_char 5 = CHR ''5''" "digit_char 6 = CHR ''6''" "digit_char 7 = CHR ''7''"
  "digit_char 8 = CHR ''8''" "digit_char 9 = CHR ''9''"
  by code_simp+

text \<open>The value of the longest run of digits at the front, accumulated left to right.\<close>

fun dec_val :: "nat \<Rightarrow> string \<Rightarrow> nat" where
  "dec_val a [] = a"
| "dec_val a (c # cs) = (if is_digit c then dec_val (10 * a + (code_of c - 48)) cs else a)"

text \<open>
  \<open>strtol(s, NULL, 10)\<close>: white space, an optional sign, digits; 0 when there is no digit;
  clamped to a 64-bit \<open>long\<close>. \<open>atoi\<close> is the same value narrowed to a 32-bit \<open>int\<close>.
\<close>

definition strtol10 :: "string \<Rightarrow> int" where
  "strtol10 s =
     (let t = dropWhile is_space s;
          v = (case t of
                 [] \<Rightarrow> 0
               | c # cs \<Rightarrow> if c = CHR ''-'' then - int (dec_val 0 cs)
                          else if c = CHR ''+'' then int (dec_val 0 cs)
                          else int (dec_val 0 t))
      in max (- (2 ^ 63)) (min (2 ^ 63 - 1) v))"

definition to_int32 :: "int \<Rightarrow> int" where
  "to_int32 v = (v + 2 ^ 31) mod 2 ^ 32 - 2 ^ 31"

definition atoi :: "string \<Rightarrow> int" where
  "atoi s = to_int32 (strtol10 s)"

lemma to_int32_id: "- (2 ^ 31) \<le> v \<Longrightarrow> v < 2 ^ 31 \<Longrightarrow> to_int32 v = v"
  by (simp add: to_int32_def)

lemma digit_char_digit [simp]: "d < 10 \<Longrightarrow> is_digit (digit_char d)"
  by (simp add: digit_char_def is_digit_def)

lemma code_digit_char [simp]: "d < 10 \<Longrightarrow> code_of (digit_char d) = 48 + d"
  by (simp add: digit_char_def)

lemma nat_str_not_Nil [simp]: "nat_str n \<noteq> []"
  by (subst nat_str.simps) simp

lemma nat_str_digits: "c \<in> set (nat_str n) \<Longrightarrow> is_digit c"
proof (induction n rule: nat_str.induct)
  case (1 n)
  then show ?case
    by (cases "n < 10") (auto simp: nat_str.simps [of n])
qed

lemma dec_val_append:
  "(\<And>c. c \<in> set xs \<Longrightarrow> is_digit c) \<Longrightarrow> dec_val a (xs @ ys) = dec_val (dec_val a xs) ys"
  by (induction xs arbitrary: a) auto

lemma dec_val_nat_str_append:
  "dec_val 0 (nat_str n @ ys) = dec_val n ys"
proof (induction n arbitrary: ys rule: nat_str.induct)
  case (1 n)
  show ?case
  proof (cases "n < 10")
    case True
    then show ?thesis by (simp add: nat_str.simps [of n])
  next
    case False
    with 1 have "dec_val 0 (nat_str n @ ys) = dec_val (n div 10) (digit_char (n mod 10) # ys)"
      by (simp add: nat_str.simps [of n])
    then show ?thesis by simp
  qed
qed

lemma dec_val_nat_str [simp]: "dec_val 0 (nat_str n) = n"
  using dec_val_nat_str_append [of n "[]"] by simp

lemma nat_str_inject [simp]: "nat_str m = nat_str n \<longleftrightarrow> m = n"
  by (metis dec_val_nat_str)

lemma is_digit_not_space: "is_digit c \<Longrightarrow> \<not> is_space c"
  by (auto simp: is_digit_def is_space_def)

lemma is_digit_not_sign: "is_digit c \<Longrightarrow> c \<noteq> CHR ''-'' \<and> c \<noteq> CHR ''+''"
  by (auto simp: is_digit_def code_of_def)

lemma nat_str_Cons: "\<exists>c cs. nat_str n = c # cs \<and> is_digit c"
  using nat_str_digits [of _ n] by (cases "nat_str n") auto

lemma strtol10_nat_str: "n < 2 ^ 63 \<Longrightarrow> strtol10 (nat_str n) = int n"
proof -
  assume n: "n < 2 ^ 63"
  obtain c cs where *: "nat_str n = c # cs" "is_digit c"
    using nat_str_Cons by blast
  have "dropWhile is_space (nat_str n) = nat_str n"
    using * is_digit_not_space by simp
  moreover have "dec_val 0 (c # cs) = n"
    by (metis * dec_val_nat_str)
  ultimately show ?thesis
    using * n is_digit_not_sign [of c] by (simp add: strtol10_def)
qed

lemma atoi_nat_str: "n < 2 ^ 31 \<Longrightarrow> atoi (nat_str n) = int n"
  by (simp add: atoi_def strtol10_nat_str to_int32_id)

text \<open>
  \<open>std::stoi\<close>: as \<open>strtol\<close>, but no digit is \<open>invalid_argument\<close> and a value outside a
  32-bit \<open>int\<close> is \<open>out_of_range\<close>.
\<close>

definition stoi :: "string \<Rightarrow> int res" where
  "stoi s =
     (let t = dropWhile is_space s;
          neg = (t \<noteq> [] \<and> hd t = CHR ''-'');
          u = (if t \<noteq> [] \<and> (hd t = CHR ''-'' \<or> hd t = CHR ''+'') then tl t else t);
          v = (if neg then - int (dec_val 0 u) else int (dec_val 0 u))
      in if u = [] \<or> \<not> is_digit (hd u) then Inl Invalid_Argument
         else if v < - (2 ^ 31) \<or> 2 ^ 31 \<le> v then Inl Out_Of_Range
         else Inr v)"

lemma stoi_nat_str: "n < 2 ^ 31 \<Longrightarrow> stoi (nat_str n) = Inr (int n)"
proof -
  assume n: "n < 2 ^ 31"
  obtain c cs where *: "nat_str n = c # cs" "is_digit c"
    using nat_str_Cons by blast
  have "dropWhile is_space (nat_str n) = nat_str n"
    using * is_digit_not_space by simp
  moreover have "dec_val 0 (c # cs) = n"
    by (metis * dec_val_nat_str)
  ultimately show ?thesis
    using * n is_digit_not_sign [of c] by (simp add: stoi_def Let_def)
qed

section \<open>Bytes\<close>

type_synonym byte = "8 word"

definition char_of_byte :: "byte \<Rightarrow> char" where
  "char_of_byte b = char_of (unat b)"

definition byte_of_char :: "char \<Rightarrow> byte" where
  "byte_of_char c = of_nat (code_of c)"

lemma unat_byte_less [simp]: "unat (b :: byte) < 256"
  by (rule order_less_le_trans [OF unsigned_less]) simp

lemma byte_of_nat [simp]: "n < 256 \<Longrightarrow> unat (of_nat n :: byte) = n"
  by (simp add: unat_of_nat)

lemma unat_word16 [simp]: "n < 65536 \<Longrightarrow> unat (word_of_int (int n) :: 16 word) = n"
  by (simp add: unat_of_nat)

lemma char_byte_roundtrip [simp]:
  "byte_of_char (char_of_byte b) = b" "char_of_byte (byte_of_char c) = c"
  by (simp_all add: byte_of_char_def char_of_byte_def code_of_def unat_of_nat)

text \<open>
  \<open>async_read_some\<close> into an array: the received bytes land at the front, what was there
  beyond them stays.
\<close>

definition received_into :: "'a list \<Rightarrow> 'a list \<Rightarrow> 'a list" where
  "received_into old new = new @ drop (length new) old"

text \<open>
  The characters from a position up to the terminating NUL, and what follows the NUL;
  running off the end of the array is out of bounds.
\<close>

fun read_cstr :: "byte list \<Rightarrow> (string \<times> byte list) res" where
  "read_cstr [] = Inl Out_Of_Bounds"
| "read_cstr (b # bs) =
     (if b = 0 then Inr ([], bs)
      else bind_res (read_cstr bs) (\<lambda>(s, rest). Inr (char_of_byte b # s, rest)))"

lemma read_cstr_append:
  "0 \<notin> set bs \<Longrightarrow> read_cstr (bs @ 0 # rest) = Inr (map char_of_byte bs, rest)"
  by (induction bs) auto

section \<open>Searching and cutting strings\<close>

text \<open>\<open>s.find(p)\<close>: the first position of \<open>p\<close>; \<open>None\<close> is \<open>npos\<close>.\<close>

fun find_sub :: "string \<Rightarrow> string \<Rightarrow> nat option" where
  "find_sub p [] = (if p = [] then Some 0 else None)"
| "find_sub p (c # cs) =
     (if take (length p) (c # cs) = p then Some 0 else map_option Suc (find_sub p cs))"

text \<open>\<open>s.substr(pos)\<close> throws when \<open>pos\<close> is beyond the end.\<close>

definition substr_from :: "string \<Rightarrow> nat \<Rightarrow> string res" where
  "substr_from s pos = (if pos \<le> length s then Inr (drop pos s) else Inl Out_Of_Range)"

lemma find_sub_Some:
  "find_sub p s = Some i \<Longrightarrow> i + length p \<le> length s \<and> s = take i s @ p @ drop (i + length p) s"
proof (induction s arbitrary: i)
  case Nil
  then show ?case by (auto split: if_splits)
next
  case (Cons c cs)
  show ?case
  proof (cases "take (length p) (c # cs) = p")
    case True
    with Cons.prems have "i = 0" by simp
    moreover have "length p \<le> length (c # cs)"
      by (metis True length_take min.cobounded1)
    ultimately show ?thesis
      by (metis True add_0 append_take_drop_id append_Nil take0)
  next
    case False
    with Cons.prems obtain j where "find_sub p cs = Some j" "i = Suc j"
      by auto
    with Cons.IH [of j] show ?thesis by simp
  qed
qed

lemma find_sub_char_None: "find_sub [c] s = None \<longleftrightarrow> c \<notin> set s"
  by (induction s) auto

lemma find_sub_char_absent [simp]: "c \<notin> set s \<Longrightarrow> find_sub [c] s = None"
  by (simp add: find_sub_char_None)

lemma find_sub_char_append [simp]: "c \<notin> set a \<Longrightarrow> find_sub [c] (a @ c # b) = Some (length a)"
  by (induction a) auto

lemma find_sub_char_cases:
  obtains (found) a b where "s = a @ c # b" "c \<notin> set a" "find_sub [c] s = Some (length a)"
  | (absent) "c \<notin> set s" "find_sub [c] s = None"
  by (metis find_sub_char_None find_sub_char_append split_list_first)

section \<open>strtok\<close>

text \<open>
  The tokens that repeated calls of \<open>strtok(s, del)\<close> yield: maximal runs of characters
  outside \<open>del\<close>; \<open>p\<close> says which characters delimit.
\<close>

function tokens :: "(char \<Rightarrow> bool) \<Rightarrow> string \<Rightarrow> string list" where
  "tokens p s =
     (case dropWhile p s of
        [] \<Rightarrow> []
      | c # cs \<Rightarrow> (c # takeWhile (\<lambda>x. \<not> p x) cs) # tokens p (dropWhile (\<lambda>x. \<not> p x) cs))"
  by pat_completeness auto
termination
proof (relation "measure (length \<circ> snd)")
  show "wf (measure (length \<circ> snd))" by simp
  fix p :: "char \<Rightarrow> bool" and s c cs
  assume "dropWhile p s = c # cs"
  then have "Suc (length cs) \<le> length s"
    by (metis length_Cons length_dropWhile_le)
  then show "((p, dropWhile (\<lambda>x. \<not> p x) cs), (p, s)) \<in> measure (length \<circ> snd)"
    using length_dropWhile_le [of "\<lambda>x. \<not> p x" cs] by simp
qed

declare tokens.simps [simp del]

definition is_delim :: "char \<Rightarrow> char \<Rightarrow> bool" where
  "is_delim d x \<longleftrightarrow> x = d"

lemma tokens_none: "dropWhile p s = [] \<Longrightarrow> tokens p s = []"
  by (subst tokens.simps) (simp del: dropWhile_eq_Nil_conv)

lemma tokens_some:
  "dropWhile p s = c # cs \<Longrightarrow> tokens p s
     = (c # takeWhile (\<lambda>x. \<not> p x) cs) # tokens p (dropWhile (\<lambda>x. \<not> p x) cs)"
  by (subst tokens.simps) simp

lemma tokens_Nil [simp]: "tokens p [] = []"
  by (rule tokens_none) simp

lemma tokens_skip [simp]: "p c \<Longrightarrow> tokens p (c # cs) = tokens p cs"
  by (subst (1 2) tokens.simps) simp

lemma tokens_word:
  "\<not> p c \<Longrightarrow> tokens p (c # cs)
     = (c # takeWhile (\<lambda>x. \<not> p x) cs) # tokens p (dropWhile (\<lambda>x. \<not> p x) cs)"
  by (rule tokens_some) simp

lemmas tokens_eval [text_simps] = tokens_Nil tokens_skip tokens_word is_delim_def

lemma dropWhile_head: "dropWhile p s = c # cs \<Longrightarrow> \<not> p c"
  by (metis hd_dropWhile list.sel(1) list.simps(3))

lemma dropWhile_tail_length: "dropWhile p s = c # cs \<Longrightarrow> Suc (length cs) \<le> length s"
  by (metis length_Cons length_dropWhile_le)

lemma tokens_clean: "t \<in> set (tokens p s) \<Longrightarrow> t \<noteq> [] \<and> (\<forall>c \<in> set t. \<not> p c)"
proof (induction p s rule: tokens.induct)
  case (1 p s)
  show ?case
  proof (cases "dropWhile p s")
    case Nil
    with 1 show ?thesis by (simp add: tokens_none)
  next
    case (Cons c cs)
    with 1(2) consider "t = c # takeWhile (\<lambda>x. \<not> p x) cs"
      | "t \<in> set (tokens p (dropWhile (\<lambda>x. \<not> p x) cs))"
      by (auto simp: tokens_some)
    then show ?thesis
    proof cases
      case 1
      then show ?thesis using dropWhile_head [OF Cons] by (auto dest: set_takeWhileD)
    next
      case 2
      then show ?thesis by (rule "1.IH" [OF Cons])
    qed
  qed
qed

text \<open>A word that ends at a delimiter (or at the end of the text) is the first token.\<close>

lemma tokens_single:
  assumes "w \<noteq> []" "\<forall>c \<in> set w. \<not> p c"
  shows "tokens p w = [w]"
proof -
  obtain c cs where w: "w = c # cs" using assms(1) by (cases w) auto
  have "takeWhile (\<lambda>x. \<not> p x) cs = cs" "dropWhile (\<lambda>x. \<not> p x) cs = []"
    using assms(2) w by (simp_all add: takeWhile_eq_all_conv)
  with assms(2) show ?thesis by (simp add: w tokens_word del: dropWhile_eq_Nil_conv)
qed

lemma tokens_first:
  assumes "w \<noteq> []" "\<forall>c \<in> set w. \<not> p c" "p d"
  shows "tokens p (w @ d # r) = w # tokens p r"
proof -
  obtain c cs where w: "w = c # cs" using assms(1) by (cases w) auto
  have "takeWhile (\<lambda>x. \<not> p x) (cs @ d # r) = cs" "dropWhile (\<lambda>x. \<not> p x) (cs @ d # r) = d # r"
    using assms(2,3) w by (simp_all add: takeWhile_append dropWhile_append)
  with assms(2,3) show ?thesis by (simp add: w tokens_word)
qed

text \<open>At most every second character starts a token.\<close>

lemma tokens_length: "2 * length (tokens p s) \<le> Suc (length s)"
proof (induction s rule: length_induct)
  case (1 s)
  show ?case
  proof (cases "dropWhile p s")
    case Nil
    then show ?thesis by (simp add: tokens_none)
  next
    case (Cons c cs)
    let ?r = "dropWhile (\<lambda>x. \<not> p x) cs"
    note t = tokens_some [OF Cons] and s = dropWhile_tail_length [OF Cons]
    have "2 * length (tokens p ?r) \<le> length cs"
    proof (cases ?r)
      case Nil
      then show ?thesis by (simp del: dropWhile_eq_Nil_conv)
    next
      case r: (Cons d ds)
      have "tokens p ?r = tokens p ds"
        using dropWhile_head [OF r] by (simp add: r)
      moreover have "length ds < length s" "Suc (length ds) \<le> length cs"
        using dropWhile_tail_length [OF r] s by simp_all
      ultimately show ?thesis using 1 by fastforce
    qed
    with t s show ?thesis by simp
  qed
qed

section \<open>Lines\<close>

text \<open>
  The lines that \<open>while (getline(in, line))\<close> sees: the text up to each newline, and the rest
  after the last newline when it is not empty.
\<close>

definition is_nl :: "char \<Rightarrow> bool" where
  "is_nl c \<longleftrightarrow> c = newline"

function getlines :: "string \<Rightarrow> string list" where
  "getlines s =
     (if s = [] then []
      else takeWhile (\<lambda>c. \<not> is_nl c) s #
        (case dropWhile (\<lambda>c. \<not> is_nl c) s of [] \<Rightarrow> [] | _ # r \<Rightarrow> getlines r))"
  by pat_completeness auto
termination
  by (relation "measure length") (auto dest!: dropWhile_tail_length)

declare getlines.simps [simp del]
lemmas getlines_eval [text_simps] = getlines.simps is_nl_def

lemma getlines_Nil [simp]: "getlines [] = []"
  by (simp add: getlines.simps)

lemma getlines_line:
  "\<forall>c \<in> set l. \<not> is_nl c \<Longrightarrow> getlines (l @ newline # r) = l # getlines r"
  by (subst getlines.simps) (simp add: takeWhile_append dropWhile_append is_nl_def)

lemma getlines_last:
  "l \<noteq> [] \<Longrightarrow> \<forall>c \<in> set l. \<not> is_nl c \<Longrightarrow> getlines l = [l]"
  by (subst getlines.simps) (simp add: takeWhile_eq_all_conv del: dropWhile_eq_Nil_conv,
      simp add: dropWhile_eq_Nil_conv [THEN iffD2])

lemma getlines_clean: "l \<in> set (getlines s) \<Longrightarrow> \<forall>c \<in> set l. \<not> is_nl c"
proof (induction s rule: getlines.induct)
  case (1 s)
  show ?case
  proof (cases "s = []")
    case True
    with 1 show ?thesis by simp
  next
    case False
    with 1(2) consider "l = takeWhile (\<lambda>c. \<not> is_nl c) s"
      | x r where "dropWhile (\<lambda>c. \<not> is_nl c) s = x # r" "l \<in> set (getlines r)"
      by (auto simp: getlines.simps [of s] split: list.splits) metis
    then show ?thesis
    proof cases
      case 1
      then show ?thesis by (auto dest: set_takeWhileD)
    next
      case 2
      then show ?thesis using "1.IH" False by blast
    qed
  qed
qed

text \<open>Writing lines out, each with its newline, and reading them back.\<close>

definition unlines :: "string list \<Rightarrow> string" where
  "unlines ls = concat (map (\<lambda>l. l @ [newline]) ls)"

lemma unlines_simps [simp]:
  "unlines [] = []"
  "unlines (l # ls) = l @ newline # unlines ls"
  by (simp_all add: unlines_def)

lemma getlines_unlines: "\<forall>l \<in> set ls. \<forall>c \<in> set l. \<not> is_nl c \<Longrightarrow> getlines (unlines ls) = ls"
  by (induction ls) (simp_all add: getlines_line)

section \<open>Byte-at-a-time loops\<close>

text \<open>
  \<open>while (cin.get(c)) { ... }\<close>: a step on the loop's state for each character, with the
  characters it puts on \<open>cout\<close>.
\<close>

fun run_filter :: "('s \<Rightarrow> char \<Rightarrow> 's \<times> string) \<Rightarrow> 's \<Rightarrow> string \<Rightarrow> 's \<times> string" where
  "run_filter step s [] = (s, [])"
| "run_filter step s (c # cs) =
     (let (s', out) = step s c; (s'', out') = run_filter step s' cs in (s'', out @ out'))"

declare run_filter.simps(2) [simp del]

lemma run_filter_Cons [simp]:
  "run_filter step s (c # cs) =
     (fst (run_filter step (fst (step s c)) cs),
      snd (step s c) @ snd (run_filter step (fst (step s c)) cs))"
  by (simp add: run_filter.simps(2) Let_def split: prod.splits)

lemma run_filter_append_proj [simp]:
  "fst (run_filter step s (xs @ ys)) = fst (run_filter step (fst (run_filter step s xs)) ys)"
  "snd (run_filter step s (xs @ ys)) =
     snd (run_filter step s xs) @ snd (run_filter step (fst (run_filter step s xs)) ys)"
  by (induction xs arbitrary: s) simp_all

text \<open>
  The contract of a filter that only drops characters. Its client facts: the output is a
  subsequence of the input, so it is never longer and brings in no new character.
\<close>

locale char_filter =
  fixes step :: "'s \<Rightarrow> char \<Rightarrow> 's \<times> string"
  assumes emits: "snd (step s c) = [] \<or> snd (step s c) = [c]"
begin

lemma output_subseq: "subseq (snd (run_filter step s cs)) cs"
proof (induction cs arbitrary: s)
  case Nil
  then show ?case by simp
next
  case (Cons c cs)
  then show ?case
    using emits [of s c] by (auto intro: list_emb_Cons)
qed

lemma output_length: "length (snd (run_filter step s cs)) \<le> length cs"
  by (rule list_emb_length [OF output_subseq])

lemma output_chars: "set (snd (run_filter step s cs)) \<subseteq> set cs"
  by (auto elim: list_emb_set [OF output_subseq])

end

section \<open>Slicing fields off a line\<close>

text \<open>
  The \<open>slicer\<close> helpers of \<open>project3/http_server.cpp\<close>, \<open>project4/socks_server.cpp\<close> and
  \<open>project4/console.cpp\<close> cut a string at the first delimiter; they differ in what they leave
  behind when there is none. Their common contract, and what the callers get from it: fields
  that do not contain the delimiter come off one by one.
\<close>

locale field_slicer =
  fixes slicer :: "string \<Rightarrow> string \<Rightarrow> (string \<times> string) res"
  assumes slice_found:
    "find_sub d s = Some i \<Longrightarrow> slicer s d = Inr (take i s, drop (i + length d) s)"
begin

lemma slice_field: "c \<notin> set a \<Longrightarrow> slicer (a @ c # b) [c] = Inr (a, b)"
  using slice_found [of "[c]" "a @ c # b" "length a"] by simp

lemma slice_two_fields:
  "c \<notin> set a \<Longrightarrow> c \<notin> set b \<Longrightarrow>
   bind_res (slicer (a @ c # b @ c # r) [c]) (\<lambda>(x, s). bind_res (slicer s [c]) (\<lambda>(y, s). f x y s))
     = f a b r"
  by (simp add: slice_field)

end

section \<open>Schedules of pipes\<close>

text \<open>
  What a shell promises about numbered pipes: \<open>due s k\<close> is the pipe that the \<open>k\<close>-th next command
  will read, a \<open>turn\<close> brings every pipe one command closer, and a \<open>plan\<close> sets one place. A table of
  fixed size does this only while it is sound (\<open>ok\<close>) and has a place for the plan (\<open>free\<close>).
\<close>

locale counted_schedule =
  fixes due :: "'s \<Rightarrow> nat \<Rightarrow> 'p option"
    and turn :: "'s \<Rightarrow> 's"
    and plan :: "nat \<Rightarrow> 'p \<Rightarrow> 's \<Rightarrow> 's"
    and ok :: "'s \<Rightarrow> bool"
    and free :: "'s \<Rightarrow> nat \<Rightarrow> bool"
  assumes due_turn: "ok s \<Longrightarrow> due (turn s) k = due s (Suc k)"
    and ok_turn: "ok s \<Longrightarrow> ok (turn s)"
    and due_plan: "ok s \<Longrightarrow> free s k \<Longrightarrow> due (plan k p s) j = (if j = k then Some p else due s j)"
    and ok_plan: "ok s \<Longrightarrow> ok (plan k p s)"
begin

lemma ok_turns: "ok s \<Longrightarrow> ok ((turn ^^ n) s)"
  by (induction n) (simp_all add: ok_turn)

lemma due_turns: "ok s \<Longrightarrow> due ((turn ^^ n) s) k = due s (n + k)"
  by (induction n arbitrary: k) (simp_all add: due_turn ok_turns)

lemma delivered: "ok s \<Longrightarrow> free s n \<Longrightarrow> due ((turn ^^ n) (plan n p s)) 0 = Some p"
  by (simp add: due_turns due_plan ok_plan)

lemma not_earlier: "ok s \<Longrightarrow> free s n \<Longrightarrow> j < n \<Longrightarrow> due ((turn ^^ j) (plan n p s)) 0 = due s j"
  by (simp add: due_turns due_plan ok_plan)

lemma plan_keeps:
  "ok s \<Longrightarrow> free s n \<Longrightarrow> due s k = Some q \<Longrightarrow> k \<noteq> n \<Longrightarrow> due ((turn ^^ k) (plan n p s)) 0 = Some q"
  by (simp add: due_turns due_plan ok_plan)

end

text \<open>A schedule that grows as needed always has a place.\<close>

locale pipe_schedule =
  fixes due :: "'s \<Rightarrow> nat \<Rightarrow> 'p option"
    and turn :: "'s \<Rightarrow> 's"
    and plan :: "nat \<Rightarrow> 'p \<Rightarrow> 's \<Rightarrow> 's"
  assumes due_turn: "due (turn s) k = due s (Suc k)"
    and due_plan: "due (plan k p s) j = (if j = k then Some p else due s j)"

sublocale pipe_schedule \<subseteq> counted: counted_schedule due turn plan "\<lambda>s. True" "\<lambda>s k. True"
  by unfold_locales (simp_all add: due_turn due_plan)

context pipe_schedule
begin

lemmas due_turns = counted.due_turns [OF TrueI]
lemmas delivered = counted.delivered [OF TrueI TrueI]
lemmas not_earlier = counted.not_earlier [OF TrueI TrueI]
lemmas plan_keeps = counted.plan_keeps [OF TrueI TrueI]

end

section \<open>Tables of users\<close>

text \<open>
  What the chat servers promise about their tables: \<open>holder s i\<close> is the descriptor (or process) in
  place \<open>i\<close>, 0 when it is free; a newcomer gets the lowest free place; nobody else moves.
\<close>

definition one_each :: "(nat \<Rightarrow> nat) \<Rightarrow> bool" where
  "one_each h \<longleftrightarrow> inj_on h {i. h i \<noteq> 0}"

lemma one_eachD: "one_each h \<Longrightarrow> h i = h j \<Longrightarrow> h i \<noteq> 0 \<Longrightarrow> i = j"
  using inj_onD [of h "{i. h i \<noteq> 0}" i j] by (simp add: one_each_def)

lemma one_each_upd: "one_each h \<Longrightarrow> \<forall>j. h j \<noteq> x \<or> x = 0 \<Longrightarrow> one_each (h(i := x))"
  by (auto simp: one_each_def inj_on_def split: if_splits)

locale slot_table =
  fixes holder :: "'s \<Rightarrow> nat \<Rightarrow> nat"
    and enters :: "nat \<Rightarrow> 's \<Rightarrow> nat \<Rightarrow> 's \<Rightarrow> bool"
    and leave :: "nat \<Rightarrow> 's \<Rightarrow> 's"
  assumes enter_lowest: "enters x s i s' \<Longrightarrow> holder s i = 0 \<and> (\<forall>j < i. holder s j \<noteq> 0)"
    and enter_holder: "enters x s i s' \<Longrightarrow> holder s' = (holder s)(i := x)"
    and leave_holder: "holder (leave i s) = (holder s)(i := 0)"
begin

lemma one_each_enter:
  assumes "one_each (holder s)" "enters x s i s'" "\<forall>j. holder s j \<noteq> x"
  shows "one_each (holder s')"
  using assms(1,3) unfolding enter_holder [OF assms(2)] by (blast intro: one_each_upd)

lemma one_each_leave: "one_each (holder s) \<Longrightarrow> one_each (holder (leave i s))"
  unfolding leave_holder by (blast intro: one_each_upd)

text \<open>A place that was left is taken again before any higher one.\<close>

lemma left_place_first:
  assumes "enters x (leave i s) j s'"
  shows "j \<le> i"
proof (rule ccontr)
  assume "\<not> j \<le> i"
  then have "holder (leave i s) i \<noteq> 0" using enter_lowest [OF assms] by auto
  then show False by (simp add: leave_holder)
qed

lemma others_stay:
  assumes "enters x s i s'" "holder s j \<noteq> 0"
  shows "holder s' j = holder s j"
  using enter_lowest [OF assms(1)] enter_holder [OF assms(1)] assms(2) by auto

end

section \<open>Mailboxes\<close>

text \<open>
  A box of messages with room for some of them: a message is appended when the box accepts it and is
  dropped otherwise, and the reader takes all at once. \<open>got\<close> stands for what has been read so far.
\<close>

locale mailbox =
  fixes ok :: "'b \<Rightarrow> bool"
    and content :: "'b \<Rightarrow> 'm list"
    and accepts :: "'b \<Rightarrow> bool"
    and valid :: "'m \<Rightarrow> bool"
    and put :: "'m \<Rightarrow> 'b \<Rightarrow> 'b"
    and clear :: "'b \<Rightarrow> 'b"
  assumes put_content: "ok b \<Longrightarrow> valid m \<Longrightarrow> content (put m b) = content b @ (if accepts b then [m] else [])"
    and put_ok: "ok b \<Longrightarrow> valid m \<Longrightarrow> ok (put m b)"
    and clear_content: "ok b \<Longrightarrow> content (clear b) = []"
    and clear_ok: "ok b \<Longrightarrow> ok (clear b)"
begin

text \<open>Nothing is lost, doubled or swapped between a box and its reader.\<close>

lemma put_history:
  "ok b \<Longrightarrow> valid m \<Longrightarrow> acc = got @ content b \<Longrightarrow>
     acc @ (if accepts b then [m] else []) = got @ content (put m b)"
  by (simp add: put_content)

lemma fetch_history:
  "ok b \<Longrightarrow> acc = got @ content b \<Longrightarrow> acc = (got @ content b) @ content (clear b)"
  by (simp add: clear_content)

end

end
