(* ===== verification/Filters.thy ===== *)
theory Filters
  imports Prelude
begin

text \<open>
  The three text filters of \<open>project1/bin\<close>: \<open>removetag\<close> (drops everything between angle
  brackets), \<open>removetag0\<close> (the same, reporting tags with an illegal character on \<open>cerr\<close>) and
  \<open>number\<close> (numbers the lines). All three read \<open>cin\<close>, or the file named by their only
  argument.
\<close>

section \<open>Choosing the input\<close>

text \<open>
  \<open>if (argc == 2) { file.open(argv[1]); cin.rdbuf(file.rdbuf()); } else if (argc > 2) usage\<close>:
  the text the loop reads, and what goes to \<open>cerr\<close>. A file that cannot be opened reads as
  empty. \<open>files\<close> is the file system, \<open>stdin\<close> the standard input.
\<close>

definition choose_input ::
    "string list \<Rightarrow> (string \<Rightarrow> string option) \<Rightarrow> string \<Rightarrow> string \<times> string" where
  "choose_input argv files stdin =
     (if length argv = 2
      then (case files (argv ! 1) of None \<Rightarrow> [] | Some text \<Rightarrow> text, [])
      else if length argv > 2
      then (stdin, ''usage: '' @ argv ! 0 @ '' [filename]'' @ [newline])
      else (stdin, []))"

section \<open>removetag\<close>

text \<open>The \<open>switch\<close> on one character; the state is \<open>in_tag\<close>.\<close>

definition removetag_step :: "bool \<Rightarrow> char \<Rightarrow> bool \<times> string" where
  "removetag_step in_tag c =
     (if c = CHR ''<'' then (True, [])
      else if c = CHR ''>'' then (False, [])
      else (in_tag, if \<not> in_tag then [c] else []))"

definition removetag :: "string \<Rightarrow> string" where
  "removetag text = snd (run_filter removetag_step False text)"

definition removetag_main ::
    "string list \<Rightarrow> (string \<Rightarrow> string option) \<Rightarrow> string \<Rightarrow> string \<times> string" where
  "removetag_main argv files stdin =
     (let (text, err) = choose_input argv files stdin in (removetag text, err))"

interpretation removetag: char_filter removetag_step
  by unfold_locales (simp add: removetag_step_def)

section \<open>removetag0\<close>

record tag0 =
  in_tag :: bool
  is_illegal :: bool
  tag_name :: string
  cerr :: "string list"

definition tag0_init :: tag0 where
  "tag0_init = \<lparr>in_tag = False, is_illegal = False, tag_name = [], cerr = []\<rparr>"

definition illegal_message :: "string \<Rightarrow> string" where
  "illegal_message name = ''Error: illegal tag '' @ [CHR 0x22] @ name @ [CHR 0x22] @ [newline]"

definition removetag0_step :: "tag0 \<Rightarrow> char \<Rightarrow> tag0 \<times> string" where
  "removetag0_step s c =
     (if c = CHR ''<'' then (s\<lparr>in_tag := True\<rparr>, [])
      else if c = CHR ''>'' then (s\<lparr>in_tag := False\<rparr>, [])
      else if in_tag s
      then (let s' = s\<lparr>tag_name := tag_name s @ [c]\<rparr>
            in if \<not> is_alpha c \<and> c \<noteq> CHR ''/''
               then (s'\<lparr>is_illegal := True\<rparr>, []) else (s', []))
      else (if is_illegal s
            then s\<lparr>cerr := cerr s @ [illegal_message (tag_name s)], is_illegal := False\<rparr>
            else s, [c]))"

definition removetag0 :: "string \<Rightarrow> string \<times> string list" where
  "removetag0 text =
     (let (s, out) = run_filter removetag0_step tag0_init text in (out, cerr s))"

definition removetag0_main ::
    "string list \<Rightarrow> (string \<Rightarrow> string option) \<Rightarrow> string \<Rightarrow> string \<times> string" where
  "removetag0_main argv files stdin =
     (let (text, err) = choose_input argv files stdin; (out, errs) = removetag0 text
      in (out, err @ concat errs))"

interpretation removetag0: char_filter removetag0_step
  by unfold_locales (simp add: removetag0_step_def Let_def)

section \<open>number\<close>

text \<open>\<open>setw(4) << setfill(' ')\<close>: right-justified in four columns, longer text unchanged.\<close>

definition setw4 :: "string \<Rightarrow> string" where
  "setw4 s = replicate (4 - length s) (CHR '' '') @ s"

definition numbered :: "nat \<Rightarrow> string \<Rightarrow> string" where
  "numbered lineno line = setw4 (nat_str lineno) @ [CHR '' ''] @ line"

text \<open>The loop, with \<open>lineno\<close> as it stands before the line is read.\<close>

fun number_loop :: "nat \<Rightarrow> string list \<Rightarrow> string" where
  "number_loop lineno [] = []"
| "number_loop lineno (line # lines) =
     numbered (Suc lineno) line @ [newline] @ number_loop (Suc lineno) lines"

definition number :: "string \<Rightarrow> string" where
  "number text = number_loop 0 (getlines text)"

definition number_main ::
    "string list \<Rightarrow> (string \<Rightarrow> string option) \<Rightarrow> string \<Rightarrow> string \<times> string" where
  "number_main argv files stdin =
     (let (text, err) = choose_input argv files stdin in (number text, err))"

section \<open>Lemmas\<close>

definition bracket :: "char \<Rightarrow> bool" where
  "bracket c \<longleftrightarrow> c = CHR ''<'' \<or> c = CHR ''>''"

lemma run_removetag_text:
  "\<forall>c \<in> set a. \<not> bracket c \<Longrightarrow>
   run_filter removetag_step b a = (b, if b then [] else a)"
  by (induction a) (auto simp: removetag_step_def bracket_def)

lemma run_removetag_inside:
  "CHR ''>'' \<notin> set t \<Longrightarrow> run_filter removetag_step True t = (True, [])"
  by (induction t) (auto simp: removetag_step_def)

lemma run_removetag_clean: "c \<in> set (snd (run_filter removetag_step b s)) \<Longrightarrow> \<not> bracket c"
  by (induction s arbitrary: b)
     (auto simp: removetag_step_def bracket_def
           split: if_splits)

text \<open>The state of \<open>removetag0\<close> projects to that of \<open>removetag\<close>, step by step.\<close>

lemma removetag0_step_simulates:
  "in_tag (fst (removetag0_step s c)) = fst (removetag_step (in_tag s) c)"
  "snd (removetag0_step s c) = snd (removetag_step (in_tag s) c)"
  by (simp_all add: removetag0_step_def removetag_step_def Let_def)

lemma run_removetag0_simulates:
  "in_tag (fst (run_filter removetag0_step s cs)) = fst (run_filter removetag_step (in_tag s) cs)
   \<and> snd (run_filter removetag0_step s cs) = snd (run_filter removetag_step (in_tag s) cs)"
  by (induction cs arbitrary: s)
     (simp_all add: removetag0_step_simulates)

lemma run_removetag0_text:
  "\<forall>c \<in> set a. \<not> bracket c \<Longrightarrow> \<not> in_tag s \<Longrightarrow> \<not> is_illegal s \<Longrightarrow>
   run_filter removetag0_step s a = (s, a)"
  by (induction a) (auto simp: removetag0_step_def bracket_def)

lemma run_removetag0_tag:
  "\<forall>c \<in> set t. \<not> bracket c \<Longrightarrow> in_tag s \<Longrightarrow>
   run_filter removetag0_step s t =
     (s\<lparr>tag_name := tag_name s @ t,
        is_illegal := is_illegal s \<or> (\<exists>c \<in> set t. \<not> is_alpha c \<and> c \<noteq> CHR ''/'')\<rparr>, [])"
  by (induction t arbitrary: s) (auto simp: removetag0_step_def bracket_def Let_def)

lemma number_loop_eq:
  "number_loop k ls = unlines (map2 numbered [Suc k..<Suc k + length ls] ls)"
proof (induction ls arbitrary: k)
  case Nil
  then show ?case by simp
next
  case (Cons l ls)
  have "[Suc k..<Suc k + length (l # ls)] = Suc k # [Suc (Suc k)..<Suc (Suc k) + length ls]"
    by (subst upt_conv_Cons) simp_all
  with Cons show ?case by (simp del: upt_Suc)
qed

lemma newline_simps [simp]: "\<not> is_digit newline" "newline \<noteq> CHR '' ''"
  by (simp_all add: is_digit_def newline_def code_of_def)

lemma numbered_no_newline:
  "\<forall>c \<in> set l. \<not> is_nl c \<Longrightarrow> c \<in> set (numbered k l) \<Longrightarrow> \<not> is_nl c"
  using nat_str_digits [of newline k]
  by (auto simp: numbered_def setw4_def is_nl_def)

lemma nat_str_length_4: "n < 10000 \<Longrightarrow> length (nat_str n) \<le> 4"
proof -
  have 1: "n < 10 \<Longrightarrow> length (nat_str n) = 1" for n
    by (simp add: nat_str.simps)
  have step: "length (nat_str n) \<le> Suc (length (nat_str (n div 10)))" for n
    using 1 [of n] 1 [of "n div 10"] by (cases "n < 10") (simp_all add: nat_str.simps [of n])
  assume "n < 10000"
  then have "n div 10 div 10 div 10 < 10" by simp
  then show ?thesis
    using 1 [of "n div 10 div 10 div 10"] step [of n] step [of "n div 10"] step [of "n div 10 div 10"]
    by simp
qed

lemma drop_numbered: "k < 10000 \<Longrightarrow> drop 5 (numbered k l) = l"
  using nat_str_length_4 [of k] by (simp add: numbered_def setw4_def)

section \<open>Properties\<close>

text \<open>
  C40. \<open>removetag\<close> copies text, and drops a tag with everything in it: for text \<open>a\<close> without
  brackets and a tag body \<open>t\<close> that does not close it, \<open>a<t>b\<close> gives \<open>a\<close> followed by what \<open>b\<close>
  gives, and a tag that is never closed swallows the rest.
\<close>

theorem removetag_drops_tags:
  assumes "\<forall>c \<in> set a. \<not> bracket c" and "CHR ''>'' \<notin> set t"
  shows "removetag a = a
    \<and> removetag (a @ CHR ''<'' # t @ CHR ''>'' # b) = a @ removetag b
    \<and> removetag (a @ CHR ''<'' # t) = a"
  using assms run_removetag_text [of a False] run_removetag_inside [of t]
  by (simp add: removetag_def removetag_step_def)

theorem removetag_drops_tags_witness:
  "removetag ''This is <b>bold'' = ''This is bold''"
proof -
  have "removetag (''This is '' @ CHR ''<'' # ''b'' @ CHR ''>'' # ''bold'') =
          ''This is '' @ removetag ''bold''"
    using removetag_drops_tags [of "''This is ''" "''b''" "''bold''"] by (simp add: bracket_def)
  moreover have "removetag ''bold'' = ''bold''"
    using removetag_drops_tags [of "''bold''" "[]"] by (simp add: bracket_def)
  ultimately show ?thesis by simp
qed

text \<open>
  What \<open>removetag\<close> prints holds no angle bracket, is a subsequence of its input, and is
  left alone by a second pass.
\<close>

theorem removetag_idempotent:
  "CHR ''<'' \<notin> set (removetag s) \<and> CHR ''>'' \<notin> set (removetag s)
   \<and> subseq (removetag s) s \<and> removetag (removetag s) = removetag s"
proof -
  have clean: "\<forall>c \<in> set (removetag s). \<not> bracket c"
    using run_removetag_clean unfolding removetag_def by blast
  then have "removetag (removetag s) = removetag s"
    using run_removetag_text [of "removetag s" False] by (simp add: removetag_def)
  with clean removetag.output_subseq [of False s] show ?thesis
    by (auto simp: bracket_def removetag_def)
qed

text \<open>
  \<open>removetag0\<close> prints on \<open>cout\<close> exactly what \<open>removetag\<close> prints, whatever it reports on
  \<open>cerr\<close>.
\<close>

theorem removetag0_stdout: "fst (removetag0 s) = removetag s"
  using run_removetag0_simulates [of tag0_init s]
  by (auto simp: removetag0_def removetag_def tag0_init_def split: prod.splits)

text \<open>
  The name in the report is not that of the illegal tag: \<open>tag_name\<close> is never cleared, so
  the bodies of all the tags before it come first, legal or not. After a legal tag \<open>t1\<close> and an
  illegal tag \<open>t2\<close>, the first character outside triggers one report, which names \<open>t1 @ t2\<close>.
\<close>

theorem removetag0_reports_all_tags:
  assumes "\<forall>c \<in> set t1. is_alpha c \<or> c = CHR ''/''"
    and "\<forall>c \<in> set t2. \<not> bracket c" and "\<exists>c \<in> set t2. \<not> is_alpha c \<and> c \<noteq> CHR ''/''"
    and "\<forall>c \<in> set u. \<not> bracket c" and "\<forall>c \<in> set v. \<not> bracket c" and "v \<noteq> []"
  shows "removetag0 (CHR ''<'' # t1 @ CHR ''>'' # u @ CHR ''<'' # t2 @ CHR ''>'' # v) =
           (u @ v, [illegal_message (t1 @ t2)])"
proof -
  obtain x xs where v: "v = x # xs" using assms(6) by (cases v) auto
  have t1: "\<forall>c \<in> set t1. \<not> bracket c" "\<not> (\<exists>c \<in> set t1. \<not> is_alpha c \<and> c \<noteq> CHR ''/'')"
    using assms(1) by (auto simp: bracket_def is_alpha_def code_of_def)
  have open_tag: "removetag0_step s (CHR ''<'') = (s\<lparr>in_tag := True\<rparr>, [])" for s
    by (simp add: removetag0_step_def)
  have close_tag: "removetag0_step s (CHR ''>'') = (s\<lparr>in_tag := False\<rparr>, [])" for s
    by (simp add: removetag0_step_def)
  have report: "\<not> in_tag s \<Longrightarrow> is_illegal s \<Longrightarrow> removetag0_step s x =
      (s\<lparr>cerr := cerr s @ [illegal_message (tag_name s)], is_illegal := False\<rparr>, [x])" for s
    using assms(5) v by (simp add: removetag0_step_def bracket_def)
  show ?thesis
    using assms t1 v
    by (simp add: removetag0_def tag0_init_def open_tag close_tag report
          run_removetag0_tag run_removetag0_text)
qed

theorem removetag0_reports_all_tags_witness:
  "removetag0 ''<b>x<a1>y'' = (''xy'', [illegal_message ''ba1''])"
  using removetag0_reports_all_tags [of "''b''" "''a1''" "''x''" "''y''"]
  by (simp add: bracket_def is_alpha_def code_of_def)

text \<open>
  \<open>number\<close> prints, line by line, what it read, each line behind its number (counted from 1,
  right-justified in four columns) and one space; up to 9999 lines the text comes back by
  dropping the first five columns.
\<close>

theorem number_lines:
  "getlines (number s) = map2 numbered [1..<Suc (length (getlines s))] (getlines s)
   \<and> (length (getlines s) < 10000 \<longrightarrow> map (drop 5) (getlines (number s)) = getlines s)"
proof -
  let ?ls = "getlines s"
  let ?out = "map2 numbered [1..<Suc (length ?ls)] ?ls"
  have "l \<in> set ?out \<Longrightarrow> \<forall>c \<in> set l. \<not> is_nl c" for l
    using numbered_no_newline getlines_clean by (fastforce dest: set_zip_rightD)
  then have lines: "getlines (number s) = ?out"
    by (simp add: number_def number_loop_eq getlines_unlines del: upt_Suc)
  have "length ?ls < 10000 \<Longrightarrow> map (drop 5) ?out = ?ls"
    by (rule nth_equalityI) (simp_all add: drop_numbered del: upt_Suc)
  with lines show ?thesis by simp
qed

theorem number_lines_witness:
  "getlines ''a'' = [''a''] \<and> map (drop 5) (getlines (number ''a'')) = [''a'']"
proof -
  have "getlines ''a'' = [''a'']"
    by (rule getlines_last) (simp_all add: is_nl_def newline_def)
  then show ?thesis using number_lines [of "''a''"] by (simp add: drop_numbered)
qed

end
