(* ===== verification/Descriptors.thy ===== *)
theory Descriptors
  imports Prelude
begin

text \<open>
  The file descriptors of a process: what a descriptor refers to (a standard stream, an end of a
  numbered pipe, a file, a socket, an end of a FIFO), and \<open>pipe\<close>, \<open>dup2\<close> and \<open>close\<close> on the
  table. All four shells use it. A descriptor number is a \<open>nat\<close> in the table and an \<open>int\<close> in a
  variable of the programs, where a negative number is one that no call accepts.
\<close>

section \<open>The table\<close>

datatype desc =
    Std nat
  | Pipe_Read nat
  | Pipe_Write nat
  | File_Out string
  | Sock nat
  | Fifo_Read string
  | Fifo_Write string

type_synonym fd_table = "desc option list"

fun lowest_free :: "fd_table \<Rightarrow> nat" where
  "lowest_free [] = 0"
| "lowest_free (None # t) = 0"
| "lowest_free (Some d # t) = Suc (lowest_free t)"

definition fd_get :: "fd_table \<Rightarrow> nat \<Rightarrow> desc option" where
  "fd_get t k = (if k < length t then t ! k else None)"

definition fd_put :: "fd_table \<Rightarrow> nat \<Rightarrow> desc \<Rightarrow> fd_table" where
  "fd_put t k d = (t @ replicate (Suc k - length t) None)[k := Some d]"

definition close_fd :: "nat \<Rightarrow> fd_table \<Rightarrow> fd_table" where
  "close_fd k t = t[k := None]"

definition open_fd :: "desc \<Rightarrow> fd_table \<Rightarrow> nat \<times> fd_table" where
  "open_fd d t = (lowest_free t, fd_put t (lowest_free t) d)"

text \<open>\<open>dup2(a, b)\<close>; nothing happens when \<open>a\<close> is not open.\<close>

definition dup2 :: "nat \<Rightarrow> nat \<Rightarrow> fd_table \<Rightarrow> fd_table" where
  "dup2 a b t = (case fd_get t a of None \<Rightarrow> t | Some d \<Rightarrow> fd_put t b d)"

lemma fd_get_put [simp]: "fd_get (fd_put t k d) = (fd_get t)(k := Some d)"
  by (auto simp: fd_get_def fd_put_def nth_append nth_list_update fun_eq_iff)

lemma fd_get_close [simp]: "fd_get (close_fd k t) = (fd_get t)(k := None)"
  by (auto simp: fd_get_def close_fd_def nth_list_update fun_eq_iff)

lemma fd_get_lowest: "fd_get t (lowest_free t) = None"
  by (induction t rule: lowest_free.induct) (auto simp: fd_get_def)

lemma fd_get_dup2:
  "fd_get (dup2 a b t) = (case fd_get t a of None \<Rightarrow> fd_get t | Some d \<Rightarrow> (fd_get t)(b := Some d))"
  by (simp add: dup2_def split: option.splits)

lemma fd_get_table [simp]: "fd_get [] k = None"
  by (simp add: fd_get_def)

section \<open>Numbers from variables\<close>

definition close_int :: "int \<Rightarrow> fd_table \<Rightarrow> fd_table" where
  "close_int k t = (if k < 0 then t else close_fd (nat k) t)"

definition dup2_int :: "int \<Rightarrow> nat \<Rightarrow> fd_table \<Rightarrow> fd_table" where
  "dup2_int a b t = (if a < 0 then t else dup2 (nat a) b t)"

lemma close_int_nat [simp]: "close_int (int k) t = close_fd k t"
  by (simp add: close_int_def)

lemma dup2_int_nat [simp]: "dup2_int (int a) b t = dup2 a b t"
  by (simp add: dup2_int_def)

lemma close_int_numeral [simp]: "close_int 0 t = close_fd 0 t"
  by (simp add: close_int_def)

lemma lowest_free_le: "lowest_free t \<le> length t"
  by (induction t rule: lowest_free.induct) simp_all

text \<open>A call never touches the entry of another number.\<close>

lemma fd_get_dup2_other: "k \<noteq> b \<Longrightarrow> fd_get (dup2 a b t) k = fd_get t k"
  by (simp add: fd_get_dup2 split: option.splits)

lemma fd_get_dup2_int_other: "k \<noteq> b \<Longrightarrow> fd_get (dup2_int a b t) k = fd_get t k"
  by (simp add: dup2_int_def fd_get_dup2_other)

lemma fd_get_close_int_other: "int k \<noteq> c \<Longrightarrow> fd_get (close_int c t) k = fd_get t k"
  by (auto simp: close_int_def)

lemma fd_get_dup2_open: "fd_get t a = Some d \<Longrightarrow> fd_get (dup2 a b t) b = Some d"
  by (simp add: fd_get_dup2)

lemma fd_get_dup2_int_open: "fd_get t a = Some d \<Longrightarrow> fd_get (dup2_int (int a) b t) b = Some d"
  by (simp add: fd_get_dup2)

end
