(* ===== verification/Npshell.thy ===== *)
theory Npshell
  imports Descriptors
begin

text \<open>
  \<open>project1/npshell.cpp\<close>: the shell with ordinary and numbered pipes. The state is the globals of
  the program and its descriptor table; \<open>executeCMD\<close> runs the first command of a line, forks at
  most one child for it and leaves the rest of the line in \<open>_buf\<close> (here \<open>buf\<close>), which \<open>main\<close> feeds
  back until the line is used up. A child is the argument vector it calls \<open>execvp\<close> with and the
  descriptor table it has by then. What the kernel decides (whether \<open>fork\<close> fails, how many
  descriptors there are, whether a file can be created, whether a program exists) is a parameter.
\<close>

section \<open>State\<close>

type_synonym pipe_fds = "nat \<times> nat"

record shell =
  instruction :: string
  buf :: string
  pipeStack :: "pipe_fds option list"
  recycle :: "pipe_fds list"
  childCount :: "16 word"
  fds :: fd_table
  next_pipe :: nat
  env :: "string \<rightharpoonup> string"
  shell_out :: string
  live_children :: nat

text \<open>
  The choices of the kernel: the number of descriptors a process may have, the number of times
  \<open>fork\<close> fails before it works, and the file names that \<open>open\<close> accepts.
\<close>

record kernel =
  fd_limit :: nat
  fork_failures :: nat
  can_open :: "string \<Rightarrow> bool"

record proc =
  argv :: "string list"
  proc_fds :: fd_table

text \<open>
  The child of a command: it calls \<open>execvp\<close>, or exits, or returns from \<open>executeCMD\<close> and goes on
  as a second shell.
\<close>

datatype child =
    Exec_Child proc
  | Exit_Child nat
  | Forked_Shell shell

definition shell_init :: shell where
  "shell_init =
     \<lparr>instruction = [], buf = [], pipeStack = [], recycle = [], childCount = 0,
      fds = [Some (Std 0), Some (Std 1), Some (Std 2)], next_pipe = 0,
      env = [''PATH'' \<mapsto> ''bin:.''], shell_out = [], live_children = 0\<rparr>"

definition print :: "string \<Rightarrow> shell \<Rightarrow> shell" where
  "print msg s = s\<lparr>shell_out := shell_out s @ msg\<rparr>"

section \<open>Pipes\<close>

fun clean_loop :: "pipe_fds list \<Rightarrow> fd_table \<Rightarrow> pipe_fds list \<times> fd_table" where
  "clean_loop [] t = ([], t)"
| "clean_loop (p # ps) t =
     (if length (p # ps) > 10 then clean_loop ps (close_fd (snd p) (close_fd (fst p) t))
      else (p # ps, t))"

definition cleanPipes :: "shell \<Rightarrow> shell" where
  "cleanPipes s =
     (let (rest, t) = clean_loop (recycle s) (fds s) in s\<lparr>recycle := rest, fds := t\<rparr>)"

text \<open>\<open>pipe\<close> takes the two lowest free descriptors, or fails at the limit.\<close>

definition sys_pipe :: "kernel \<Rightarrow> shell \<Rightarrow> (pipe_fds \<times> shell) option" where
  "sys_pipe w s =
     (let (r, t1) = open_fd (Pipe_Read (next_pipe s)) (fds s);
          (wr, t2) = open_fd (Pipe_Write (next_pipe s)) t1
      in if wr < fd_limit w then Some ((r, wr), s\<lparr>fds := t2, next_pipe := Suc (next_pipe s)\<rparr>)
         else None)"

text \<open>
  The loop \<open>while (pipe(_pipe) < 0) cleanPipes()\<close>: a second \<open>cleanPipes\<close> finds nothing to do, so
  after two failures it never ends.
\<close>

definition makeNewPipe :: "kernel \<Rightarrow> shell \<Rightarrow> (pipe_fds \<times> shell) res" where
  "makeNewPipe w s =
     (case sys_pipe w s of
        Some r \<Rightarrow> Inr r
      | None \<Rightarrow> (case sys_pipe w (cleanPipes s) of
                   Some r \<Rightarrow> Inr r
                 | None \<Rightarrow> Inl Unbounded_Loop))"

definition getPipe :: "shell \<Rightarrow> pipe_fds option \<times> shell" where
  "getPipe s =
     (case pipeStack s of
        [] \<Rightarrow> (None, s)
      | None # ps \<Rightarrow> (None, s\<lparr>pipeStack := ps\<rparr>)
      | Some p # ps \<Rightarrow>
          (Some p, s\<lparr>fds := close_fd (snd p) (fds s), recycle := recycle s @ [p], pipeStack := ps\<rparr>))"

section \<open>Reading a command\<close>

text \<open>
  The scan set of the formats: letters, digits, minus, both quotes, dot, colon and blank. (The
  second minus of the format does not open a range: the character before it is greater than the
  one behind it.)
\<close>

definition ins_char :: "char \<Rightarrow> bool" where
  "ins_char c \<longleftrightarrow> is_alnum c \<or> c \<in> {CHR ''-'', CHR 0x22, CHR 0x27, CHR ''.'', CHR '':'', CHR '' ''}"

text \<open>\<open>%d\<close>: blanks, a sign, digits; the value is read as a \<open>long\<close> and stored in an \<open>int\<close>.\<close>

definition scan_int :: "string \<Rightarrow> int option" where
  "scan_int s =
     (let t = dropWhile is_space s;
          u = (if t \<noteq> [] \<and> (hd t = CHR ''-'' \<or> hd t = CHR ''+'') then tl t else t)
      in if u \<noteq> [] \<and> is_digit (hd u) then Some (atoi t) else None)"

text \<open>
  The two \<open>sscanf\<close> calls, with the symbols each accepts: the number of conversions, what was
  stored in \<open>instruction\<close> and the symbols, and the text behind them. \<open>symbolMeth\<close> has room for
  one symbol and the NUL.
\<close>

definition scan_head :: "string \<Rightarrow> string \<Rightarrow> (int \<times> string \<times> string \<times> string) res" where
  "scan_head syms cmd =
     (let ins = takeWhile ins_char cmd; r1 = dropWhile ins_char cmd;
          sym = takeWhile (\<lambda>c. c \<in> set syms) r1; r2 = dropWhile (\<lambda>c. c \<in> set syms) r1
      in if cmd = [] then Inr (-1, [], [], [])
         else if ins = [] then Inr (0, [], [], [])
         else if sym = [] then Inr (1, ins, [], [])
         else if length sym \<ge> 2 then Inl Buffer_Overflow
         else Inr (2, ins, sym, r2))"

record scanned =
  sc_n :: int
  sc_sym :: string
  sc_num :: int

text \<open>The numbered form first; the general form when that has not matched completely.\<close>

definition scan_numbered :: "string \<Rightarrow> shell \<Rightarrow> (scanned \<times> shell) res" where
  "scan_numbered cmd s =
     bind_res (scan_head ''|!'' cmd) (\<lambda>(n, ins, sym, rest).
       let s' = (if n > 0 then s\<lparr>instruction := ins\<rparr> else s)
       in if n = 2
          then (case scan_int rest of
                  Some v \<Rightarrow> Inr (\<lparr>sc_n = 3, sc_sym = sym, sc_num = v\<rparr>, s')
                | None \<Rightarrow> Inr (\<lparr>sc_n = 2, sc_sym = sym, sc_num = 0\<rparr>, s'))
          else Inr (\<lparr>sc_n = n, sc_sym = sym, sc_num = 0\<rparr>, s'))"

definition scan_general :: "string \<Rightarrow> string \<Rightarrow> shell \<Rightarrow> (scanned \<times> shell) res" where
  "scan_general sym0 cmd s =
     bind_res (scan_head ''|!>'' cmd) (\<lambda>(n, ins, sym, rest).
       let s' = (if n > 0 then s\<lparr>instruction := ins\<rparr> else s);
           text = takeWhile (\<lambda>c. c \<noteq> newline) (dropWhile is_space rest)
       in if n = 2
          then (if text \<noteq> [] then Inr (\<lparr>sc_n = 3, sc_sym = sym, sc_num = 0\<rparr>, s'\<lparr>buf := text\<rparr>)
                else Inr (\<lparr>sc_n = 2, sc_sym = sym, sc_num = 0\<rparr>, s'))
          else Inr (\<lparr>sc_n = n, sc_sym = sym0, sc_num = 0\<rparr>, s'))"

definition scan_cmd :: "string \<Rightarrow> shell \<Rightarrow> (scanned \<times> shell) res" where
  "scan_cmd cmd s =
     bind_res (scan_numbered cmd s) (\<lambda>(sc, s').
       if sc_n sc \<noteq> 3 then scan_general (sc_sym sc) cmd s' else Inr (sc, s'))"

text \<open>The program and its arguments, in arrays of 100 bytes.\<close>

definition scan_args :: "string \<Rightarrow> (int \<times> string \<times> string) res" where
  "scan_args ins =
     (let t = dropWhile is_space ins;
          oper = takeWhile (\<lambda>c. \<not> is_space c) t;
          r = dropWhile is_space (dropWhile (\<lambda>c. \<not> is_space c) t);
          arg = takeWhile ins_char r
      in if t = [] then Inr (-1, [], [])
         else if length oper \<ge> 100 \<or> length arg \<ge> 100 then Inl Buffer_Overflow
         else if arg = [] then Inr (1, oper, [])
         else Inr (2, oper, arg))"

section \<open>Children\<close>

text \<open>
  \<open>callExecs\<close>: \<open>argv\<close> has 100 places for the program, the tokens of the argument text and the
  closing null pointer.
\<close>

definition callExecs :: "string \<Rightarrow> string \<Rightarrow> fd_table \<Rightarrow> child res" where
  "callExecs oper arg t =
     (let words = (if arg \<noteq> [] then tokens (is_delim CHR '' '') arg else [])
      in if length words + 2 > 100 then Inl Buffer_Overflow
         else Inr (Exec_Child \<lparr>argv = oper # words, proc_fds = t\<rparr>))"

text \<open>What becomes of such a child: the program runs, or a message goes to its standard output.\<close>

datatype exec_result =
    Runs "string list"
  | Exec_Failed "desc option" string nat

definition exec_result :: "(string \<Rightarrow> bool) \<Rightarrow> proc \<Rightarrow> exec_result" where
  "exec_result found p =
     (if found (hd (argv p)) then Runs (argv p)
      else Exec_Failed (fd_get (proc_fds p) 1) (''Unknown command: ['' @ hd (argv p) @ ''].'' @ [newline]) 9)"

definition child_stdin :: "pipe_fds option \<Rightarrow> fd_table \<Rightarrow> fd_table" where
  "child_stdin prevPipe t = (case prevPipe of None \<Rightarrow> t | Some p \<Rightarrow> dup2 (fst p) 0 t)"

definition exec_or_exit :: "int \<Rightarrow> string \<Rightarrow> string \<Rightarrow> fd_table \<Rightarrow> child res" where
  "exec_or_exit ins_cnt oper arg t =
     (if ins_cnt \<le> 2 then callExecs oper arg t else Inr (Exit_Child 8))"

text \<open>The parent after a fork, and after waiting for every child.\<close>

definition forked :: "shell \<Rightarrow> shell" where
  "forked s = s\<lparr>childCount := childCount s + 1, live_children := Suc (live_children s)\<rparr>"

definition wait_all :: "shell \<Rightarrow> shell" where
  "wait_all s = s\<lparr>live_children := 0\<rparr>"

definition SIGCHLD_handler :: "shell \<Rightarrow> shell" where
  "SIGCHLD_handler s = s\<lparr>childCount := childCount s - 1, live_children := live_children s - 1\<rparr>"

section \<open>executeCMD\<close>

text \<open>\<open>sscanf(arg, "%s %s")\<close>: the first two words, missing ones stay empty.\<close>

definition two_words :: "string \<Rightarrow> string \<times> string" where
  "two_words arg =
     (let t = dropWhile is_space arg;
          u = dropWhile is_space (dropWhile (\<lambda>c. \<not> is_space c) t)
      in (takeWhile (\<lambda>c. \<not> is_space c) t, takeWhile (\<lambda>c. \<not> is_space c) u))"

text \<open>\<open>setenv\<close> refuses an empty name; a name with \<open>=\<close> cannot be scanned.\<close>

definition builtin_setenv :: "string \<Rightarrow> shell \<Rightarrow> shell" where
  "builtin_setenv arg s =
     (let (var, val) = two_words arg in if var = [] then s else s\<lparr>env := (env s)(var \<mapsto> val)\<rparr>)"

definition builtin_printenv :: "string \<Rightarrow> shell \<Rightarrow> shell" where
  "builtin_printenv arg s =
     (case env s arg of None \<Rightarrow> s | Some val \<Rightarrow> print (val @ [newline]) s)"

text \<open>An external command: its child, and the parent that waits for all children.\<close>

definition run_single :: "int \<Rightarrow> string \<Rightarrow> string \<Rightarrow> shell \<Rightarrow> (shell \<times> child option) res" where
  "run_single ins_cnt oper arg s =
     (let (prevPipe, s1) = getPipe s
      in bind_res (exec_or_exit ins_cnt oper arg (child_stdin prevPipe (fds s1))) (\<lambda>ch.
           Inr (wait_all (forked s1), Some ch)))"

definition grow :: "nat \<Rightarrow> pipe_fds option list \<Rightarrow> pipe_fds option list" where
  "grow n ps = ps @ replicate (n - length ps) None"

text \<open>The choice of \<open>currentPipe\<close> at place \<open>k\<close> of the stack: the pipe planned there, or a new one.\<close>

definition numbered_target :: "kernel \<Rightarrow> nat \<Rightarrow> shell \<Rightarrow> (pipe_fds \<times> shell) res" where
  "numbered_target w k s =
     (case pipeStack s ! k of
        Some p \<Rightarrow> Inr (p, s)
      | None \<Rightarrow> bind_res (makeNewPipe w s) (\<lambda>(p, s').
                  Inr (p, s'\<lparr>pipeStack := (pipeStack s')[k := Some p]\<rparr>)))"

text \<open>For an ordinary pipe a new pipe goes in front of the stack, unless one is due next already.\<close>

definition ordinary_target :: "kernel \<Rightarrow> shell \<Rightarrow> (pipe_fds \<times> shell) res" where
  "ordinary_target w s =
     (case pipeStack s of
        Some p # _ \<Rightarrow> Inr (p, s)
      | _ \<Rightarrow> bind_res (makeNewPipe w s) (\<lambda>(p, s'). Inr (p, s'\<lparr>pipeStack := Some p # pipeStack s'\<rparr>)))"

text \<open>
  A numbered pipe. A negative number is converted to a huge \<open>size_t\<close>, and the loop that lengthens
  \<open>pipeStack\<close> does not end. A failed \<open>fork\<close> is taken for the parent.
\<close>

definition run_numbered ::
    "kernel \<Rightarrow> int \<Rightarrow> string \<Rightarrow> string \<Rightarrow> string \<Rightarrow> int \<Rightarrow> shell \<Rightarrow> (shell \<times> child option) res" where
  "run_numbered w ins_cnt oper arg symb num s =
     (let (prevPipe, s1) = getPipe s in
      if num < 0 then Inl Unbounded_Loop
      else
        (let k = nat num - 1;
             s2 = s1\<lparr>pipeStack := grow (nat num) (pipeStack s1)\<rparr>
         in bind_res (numbered_target w k s2)
              (\<lambda>(currentPipe, s4).
                 let t1 = dup2 (snd currentPipe) 1 (child_stdin prevPipe (fds s4));
                     t2 = (if hd symb = CHR ''!'' then dup2 (snd currentPipe) 2 t1 else t1)
                 in if fork_failures w > 0 then Inr (s4\<lparr>childCount := childCount s4 + 1\<rparr>, None)
                    else bind_res (exec_or_exit ins_cnt oper arg t2) (\<lambda>ch. Inr (forked s4, Some ch)))))"

text \<open>An ordinary pipe.\<close>

definition run_pipe :: "kernel \<Rightarrow> int \<Rightarrow> string \<Rightarrow> string \<Rightarrow> shell \<Rightarrow> (shell \<times> child option) res" where
  "run_pipe w ins_cnt oper arg s =
     (let (prevPipe, s1) = getPipe s in
      bind_res (ordinary_target w s1)
        (\<lambda>(currentPipe, s3).
           let t1 = dup2 (snd currentPipe) 1 (child_stdin prevPipe (fds s3))
           in bind_res (exec_or_exit ins_cnt oper arg t1) (\<lambda>ch. Inr (forked s3, Some ch))))"

text \<open>
  A redirection. When the file cannot be opened the child prints a message and returns, with the
  file name still in \<open>_buf\<close>, to the loop of \<open>main\<close>.
\<close>

definition run_redirect :: "kernel \<Rightarrow> int \<Rightarrow> string \<Rightarrow> string \<Rightarrow> shell \<Rightarrow> (shell \<times> child option) res" where
  "run_redirect w ins_cnt oper arg s =
     (let (prevPipe, s1) = getPipe s;
          parent = wait_all (forked s1)\<lparr>buf := []\<rparr>
      in if can_open w (buf s1)
         then
           (let (file_fd, t1) = open_fd (File_Out (buf s1)) (fds s1);
                t2 = dup2 file_fd 1 (child_stdin prevPipe t1)
            in bind_res (exec_or_exit ins_cnt oper arg t2) (\<lambda>ch. Inr (parent, Some ch)))
         else Inr (parent, Some (Forked_Shell (print (''File can'' @ [CHR 0x27] @ ''t open~'') s1))))"

definition input_error :: "shell \<Rightarrow> shell" where
  "input_error s = print (''input Error~'' @ [newline]) s"

text \<open>The result says whether the shell exits.\<close>

definition executeCMD :: "kernel \<Rightarrow> string \<Rightarrow> shell \<Rightarrow> (shell \<times> child option \<times> bool) res" where
  "executeCMD w cmd s =
     bind_res (scan_cmd cmd s) (\<lambda>(sc, s1).
     bind_res (scan_args (instruction s1)) (\<lambda>(ins_cnt, oper, arg).
       let go = (\<lambda>r. bind_res r (\<lambda>(s', ch). Inr (s', ch, False)))
       in if sc_n sc = -1 then Inr (s1, None, False)
          else if sc_n sc = 1 then
            (if oper = ''setenv'' then Inr (builtin_setenv arg s1, None, False)
             else if oper = ''printenv'' then Inr (builtin_printenv arg s1, None, False)
             else if oper = ''exit'' then Inr (s1, None, True)
             else go (run_single ins_cnt oper arg s1))
          else if sc_n sc = 3 then
            (if sc_num sc \<noteq> 0 then go (run_numbered w ins_cnt oper arg (sc_sym sc) (sc_num sc) s1)
             else if hd (sc_sym sc) = CHR ''|'' then go (run_pipe w ins_cnt oper arg s1)
             else if hd (sc_sym sc) = CHR ''>'' then go (run_redirect w ins_cnt oper arg s1)
             else (let (_, s2) = getPipe s1 in Inr (input_error s2, None, False)))
          else Inr (input_error s1, None, False)))"

section \<open>main\<close>

text \<open>
  The loop over one input line, with the children it has forked so far: not returning would be
  \<open>None\<close>.
\<close>

partial_function (option) line_loop ::
    "kernel \<Rightarrow> string \<Rightarrow> shell \<Rightarrow> child list \<Rightarrow> (shell \<times> child list \<times> bool) res option" where
  "line_loop w inputBuffer s cs =
     (if inputBuffer = [] then Some (Inr (s, cs, False))
      else case executeCMD w inputBuffer s of
             Inl e \<Rightarrow> Some (Inl e)
           | Inr (s', ch, ex) \<Rightarrow>
               (let cs' = cs @ (case ch of None \<Rightarrow> [] | Some c \<Rightarrow> [c])
                in if ex then Some (Inr (s', cs', True))
                   else line_loop w (buf s') (cleanPipes (s'\<lparr>buf := []\<rparr>)) cs'))"

declare line_loop.simps [code]

text \<open>
  The outer loop over the lines that \<open>getline\<close> delivers; a line that does not fit the buffer sets
  the fail bit, and from then on the loop only prints prompts.
\<close>

fun run_lines ::
    "kernel \<Rightarrow> string list \<Rightarrow> shell \<Rightarrow> child list \<Rightarrow> (shell \<times> child list \<times> bool) res option" where
  "run_lines w [] s cs = Some (Inr (s, cs, False))"
| "run_lines w (line # lines) s cs =
     (if length line \<ge> 10000 then Some (Inl Unbounded_Loop)
      else case line_loop w (takeWhile (\<lambda>c. c \<noteq> nul) line) (print ''% '' s) cs of
             Some (Inr (s', cs', False)) \<Rightarrow> run_lines w lines (cleanPipes s') cs'
           | r \<Rightarrow> r)"

section \<open>Descriptor tables and the schedule\<close>

definition slot :: "pipe_fds option list \<Rightarrow> nat \<Rightarrow> pipe_fds option" where
  "slot ps k = (if k < length ps then ps ! k else None)"

definition plan_slot :: "nat \<Rightarrow> pipe_fds \<Rightarrow> pipe_fds option list \<Rightarrow> pipe_fds option list" where
  "plan_slot k p ps = (grow (Suc k) ps)[k := Some p]"

lemma slot_grow [simp]: "slot (grow n ps) = slot ps"
  by (auto simp: slot_def grow_def nth_append fun_eq_iff)

lemma slot_Cons [simp]: "slot (x # ps) = case_nat x (slot ps)"
  by (auto simp: slot_def fun_eq_iff split: nat.splits)

lemma slot_Nil [simp]: "slot [] k = None"
  by (simp add: slot_def)

lemma slot_tl: "slot (tl ps) k = slot ps (Suc k)"
  by (cases ps) simp_all

lemma slot_update [simp]: "k < length ps \<Longrightarrow> slot (ps[k := x]) = (slot ps)(k := x)"
  by (auto simp: slot_def nth_list_update fun_eq_iff)

lemma length_grow [simp]: "length (grow n ps) = max n (length ps)"
  by (simp add: grow_def)

interpretation stack: pipe_schedule slot tl plan_slot
  by unfold_locales (simp_all add: slot_tl plan_slot_def)

text \<open>
  The invariant between the places of the stack and the descriptors: the standard descriptors
  are open, a planned pipe has both ends open, the write end of a pipe is open once and only
  while the pipe is planned, and identifiers are below the next one.
\<close>

definition std_open :: "(nat \<Rightarrow> desc option) \<Rightarrow> bool" where
  "std_open G \<longleftrightarrow> G 0 = Some (Std 0) \<and> G 1 = Some (Std 1) \<and> G 2 = Some (Std 2)"

definition ends_open :: "nat \<Rightarrow> (nat \<Rightarrow> pipe_fds option) \<Rightarrow> (nat \<Rightarrow> desc option) \<Rightarrow> bool" where
  "ends_open nxt sl G \<longleftrightarrow> (\<forall>a r wr. sl a = Some (r, wr) \<longrightarrow>
     (\<exists>i < nxt. G r = Some (Pipe_Read i) \<and> G wr = Some (Pipe_Write i)))"

definition one_place :: "(nat \<Rightarrow> pipe_fds option) \<Rightarrow> bool" where
  "one_place sl \<longleftrightarrow> (\<forall>a b r q wr. sl a = Some (r, wr) \<longrightarrow> sl b = Some (q, wr) \<longrightarrow> a = b)"

definition writers_planned :: "(nat \<Rightarrow> pipe_fds option) \<Rightarrow> (nat \<Rightarrow> desc option) \<Rightarrow> bool" where
  "writers_planned sl G \<longleftrightarrow> (\<forall>k i. G k = Some (Pipe_Write i) \<longrightarrow> (\<exists>a r. sl a = Some (r, k)))"

definition writers_unique :: "(nat \<Rightarrow> desc option) \<Rightarrow> bool" where
  "writers_unique G \<longleftrightarrow> (\<forall>k k' i. G k = Some (Pipe_Write i) \<longrightarrow> G k' = Some (Pipe_Write i) \<longrightarrow> k = k')"

definition ids_old :: "nat \<Rightarrow> (nat \<Rightarrow> desc option) \<Rightarrow> bool" where
  "ids_old nxt G \<longleftrightarrow> (\<forall>k i. G k = Some (Pipe_Write i) \<or> G k = Some (Pipe_Read i) \<longrightarrow> i < nxt)"

definition sched_ok :: "nat \<Rightarrow> (nat \<Rightarrow> pipe_fds option) \<Rightarrow> (nat \<Rightarrow> desc option) \<Rightarrow> bool" where
  "sched_ok nxt sl G \<longleftrightarrow> std_open G \<and> ends_open nxt sl G \<and> one_place sl \<and> writers_planned sl G
     \<and> writers_unique G \<and> ids_old nxt G"

definition wf :: "shell \<Rightarrow> bool" where
  "wf s \<longleftrightarrow> sched_ok (next_pipe s) (slot (pipeStack s)) (fd_get (fds s))"

text \<open>The abstract schedule: the identifier of the pipe due at each turn.\<close>

definition due_of :: "(nat \<Rightarrow> pipe_fds option) \<Rightarrow> (nat \<Rightarrow> desc option) \<Rightarrow> nat \<Rightarrow> nat option" where
  "due_of sl G k = (case sl k of None \<Rightarrow> None
     | Some p \<Rightarrow> (case G (fst p) of Some (Pipe_Read i) \<Rightarrow> Some i | _ \<Rightarrow> None))"

definition due :: "shell \<Rightarrow> nat \<Rightarrow> nat option" where
  "due s = due_of (slot (pipeStack s)) (fd_get (fds s))"

lemma sched_slot:
  assumes "sched_ok nxt sl G" "sl a = Some (r, wr)"
  obtains i where "i < nxt" "G r = Some (Pipe_Read i)" "G wr = Some (Pipe_Write i)" "due_of sl G a = Some i"
  using assms by (fastforce simp: sched_ok_def ends_open_def due_of_def)

lemma due_of_cong:
  "sl a = sl' b \<Longrightarrow> (\<And>p. sl a = Some p \<Longrightarrow> G (fst p) = G' (fst p)) \<Longrightarrow> due_of sl G a = due_of sl' G' b"
  by (cases "sl' b") (simp_all add: due_of_def)

lemma sched_turn:
  assumes ok: "sched_ok nxt sl G" and front: "sl 0 = Some (r, wr)"
  shows "sched_ok nxt (\<lambda>k. sl (Suc k)) (G(wr := None))"
    and "due_of (\<lambda>k. sl (Suc k)) (G(wr := None)) = (\<lambda>k. due_of sl G (Suc k))"
proof -
  obtain i where i: "G r = Some (Pipe_Read i)" "G wr = Some (Pipe_Write i)"
    using assms by (rule sched_slot)
  have pending: "r' \<noteq> wr \<and> wr' \<noteq> wr" if "sl (Suc a) = Some (r', wr')" for a r' wr'
  proof -
    have "G r' \<noteq> G wr" by (rule sched_slot [OF ok that]) (use i in simp)
    moreover have "wr' \<noteq> wr"
      using ok that front unfolding sched_ok_def one_place_def by (metis nat.distinct(1))
    ultimately show ?thesis by auto
  qed
  have parts: "std_open G" "ends_open nxt sl G" "one_place sl" "writers_planned sl G"
    "writers_unique G" "ids_old nxt G"
    using ok by (simp_all add: sched_ok_def)
  have "ends_open nxt (\<lambda>k. sl (Suc k)) (G(wr := None))"
    using parts(2) pending by (fastforce simp: ends_open_def)
  moreover have "writers_planned (\<lambda>k. sl (Suc k)) (G(wr := None))"
    unfolding writers_planned_def
  proof (intro allI impI)
    fix k j assume "(G(wr := None)) k = Some (Pipe_Write j)"
    then have k: "k \<noteq> wr" "G k = Some (Pipe_Write j)" by (auto split: if_splits)
    then obtain a q where "sl a = Some (q, k)" using parts(4) by (auto simp: writers_planned_def)
    then show "\<exists>a q. sl (Suc a) = Some (q, k)" using k front by (cases a) auto
  qed
  moreover have "std_open (G(wr := None))" using parts(1) i by (cases "wr = 0") (auto simp: std_open_def)
  moreover have "one_place (\<lambda>k. sl (Suc k))" using parts(3) by (fastforce simp: one_place_def)
  moreover have "writers_unique (G(wr := None))" "ids_old nxt (G(wr := None))"
    using parts(5,6) by (auto simp: writers_unique_def ids_old_def)
  ultimately show "sched_ok nxt (\<lambda>k. sl (Suc k)) (G(wr := None))" by (simp add: sched_ok_def)
  show "due_of (\<lambda>k. sl (Suc k)) (G(wr := None)) = (\<lambda>k. due_of sl G (Suc k))"
    by (intro ext due_of_cong) (auto dest: pending)
qed

lemma sched_skip:
  assumes "sched_ok nxt sl G" "sl 0 = None"
  shows "sched_ok nxt (\<lambda>k. sl (Suc k)) G"
proof -
  have "writers_planned (\<lambda>k. sl (Suc k)) G"
    unfolding writers_planned_def
  proof (intro allI impI)
    fix k j assume "G k = Some (Pipe_Write j)"
    then obtain a q where "sl a = Some (q, k)" using assms(1) by (auto simp: sched_ok_def writers_planned_def)
    then show "\<exists>a q. sl (Suc a) = Some (q, k)" using assms(2) by (cases a) auto
  qed
  moreover have "one_place (\<lambda>k. sl (Suc k))"
    using assms(1) by (fastforce simp: sched_ok_def one_place_def)
  ultimately show ?thesis using assms(1) by (simp add: sched_ok_def ends_open_def)
qed

text \<open>A new pipe, planned at place \<open>k\<close> of a schedule \<open>sl'\<close> that keeps what \<open>sl\<close> had.\<close>

lemma sched_new:
  assumes ok: "sched_ok nxt sl G" and free: "G r = None" "G wr = None" "r \<noteq> wr"
    and place: "sl' k = Some (r, wr)" "\<And>a. a \<noteq> k \<Longrightarrow> sl' a = sl (f a)"
    and inj: "\<And>a b. a \<noteq> k \<Longrightarrow> b \<noteq> k \<Longrightarrow> f a = f b \<Longrightarrow> a = b"
    and onto: "\<And>a p. sl a = Some p \<Longrightarrow> \<exists>b. b \<noteq> k \<and> f b = a"
    and G': "G' = G(r := Some (Pipe_Read nxt), wr := Some (Pipe_Write nxt))"
  shows "sched_ok (Suc nxt) sl' G'"
    and "due_of sl' G' a = (if a = k then Some nxt else due_of sl G (f a))"
proof -
  have parts: "std_open G" "ends_open nxt sl G" "one_place sl" "writers_planned sl G"
    "writers_unique G" "ids_old nxt G"
    using ok by (simp_all add: sched_ok_def)
  have old: "q \<noteq> r \<and> q \<noteq> wr \<and> wq \<noteq> r \<and> wq \<noteq> wr" if "sl b = Some (q, wq)" for b q wq
    using sched_slot [OF ok that] free by (metis option.distinct(1))
  have "ends_open (Suc nxt) sl' G'"
    unfolding ends_open_def
  proof (intro allI impI)
    fix a q wq assume a: "sl' a = Some (q, wq)"
    show "\<exists>i<Suc nxt. G' q = Some (Pipe_Read i) \<and> G' wq = Some (Pipe_Write i)"
    proof (cases "a = k")
      case True
      with a place(1) free(3) show ?thesis by (simp add: G')
    next
      case False
      with a place(2) have "sl (f a) = Some (q, wq)" by simp
      with old show ?thesis using sched_slot [OF ok \<open>sl (f a) = Some (q, wq)\<close>] by (fastforce simp: G')
    qed
  qed
  moreover have "one_place sl'"
    unfolding one_place_def
  proof (intro allI impI)
    fix a b q q' wq assume ab: "sl' a = Some (q, wq)" "sl' b = Some (q', wq)"
    show "a = b"
    proof (cases "a = k \<or> b = k")
      case True
      with ab place old show ?thesis by (metis option.inject prod.inject)
    next
      case False
      with ab place(2) have "f a = f b" using parts(3) by (metis one_place_def)
      with inj False show ?thesis by blast
    qed
  qed
  moreover have "writers_planned sl' G'"
    unfolding writers_planned_def
  proof (intro allI impI)
    fix q i assume q: "G' q = Some (Pipe_Write i)"
    show "\<exists>a p. sl' a = Some (p, q)"
    proof (cases "q = wr")
      case True
      with place(1) show ?thesis by blast
    next
      case False
      with q have "G q = Some (Pipe_Write i)" by (auto simp: G' split: if_splits)
      then obtain a p where "sl a = Some (p, q)" using parts(4) by (auto simp: writers_planned_def)
      with onto place(2) show ?thesis by metis
    qed
  qed
  moreover have "std_open G'"
    using parts(1) free by (cases "r = 0"; cases "wr = 0") (auto simp: std_open_def G')
  moreover have "writers_unique G'"
    using parts(5,6) by (fastforce simp: writers_unique_def ids_old_def G' split: if_splits)
  moreover have "ids_old (Suc nxt) G'"
    using parts(6) by (fastforce simp: ids_old_def G' split: if_splits)
  ultimately show "sched_ok (Suc nxt) sl' G'" by (simp add: sched_ok_def)
  show "due_of sl' G' a = (if a = k then Some nxt else due_of sl G (f a))"
  proof (cases "a = k")
    case True
    with place(1) free(3) show ?thesis by (simp add: due_of_def G')
  next
    case False
    with place(2) old show ?thesis by (auto simp: G' intro!: due_of_cong)
  qed
qed

section \<open>Steps of the schedule\<close>

lemma length_fd_put [simp]: "length (fd_put t k d) = max (length t) (Suc k)"
  by (simp add: fd_put_def)

lemma clean_few [simp]: "length (recycle s) \<le> 10 \<Longrightarrow> cleanPipes s = s"
  by (cases "recycle s") (simp_all add: cleanPipes_def)

text \<open>What the pipe routines leave alone.\<close>

definition same_rest :: "shell \<Rightarrow> shell \<Rightarrow> bool" where
  "same_rest s s' \<longleftrightarrow> instruction s' = instruction s \<and> buf s' = buf s \<and> env s' = env s
     \<and> shell_out s' = shell_out s"

text \<open>The standard input a turn gives to a child.\<close>

definition stdin_of :: "nat option \<Rightarrow> desc" where
  "stdin_of d = (case d of None \<Rightarrow> Std 0 | Some i \<Rightarrow> Pipe_Read i)"

definition no_writer :: "nat option \<Rightarrow> fd_table \<Rightarrow> bool" where
  "no_writer d t \<longleftrightarrow> (\<forall>i k. d = Some i \<longrightarrow> fd_get t k \<noteq> Some (Pipe_Write i))"

lemma wf_std: "wf s \<Longrightarrow> fd_get (fds s) 0 = Some (Std 0) \<and> fd_get (fds s) 1 = Some (Std 1) \<and> fd_get (fds s) 2 = Some (Std 2)"
  by (simp add: wf_def sched_ok_def std_open_def)

lemma due_old: "wf s \<Longrightarrow> due s k = Some i \<Longrightarrow> i < next_pipe s"
  by (auto simp: wf_def due_def due_of_def sched_ok_def ids_old_def split: option.splits desc.splits)

text \<open>The pipe that \<open>getPipe\<close> returned is the due one, and its read end is open.\<close>

definition holds_input :: "pipe_fds option \<Rightarrow> nat option \<Rightarrow> fd_table \<Rightarrow> bool" where
  "holds_input prev d t \<longleftrightarrow> fd_get t 0 = Some (Std 0) \<and>
     (case prev of None \<Rightarrow> d = None | Some p \<Rightarrow> fd_get t (fst p) = Some (stdin_of d))"

lemma child_stdin_get:
  "holds_input prev d t \<Longrightarrow> fd_get (child_stdin prev t) = (fd_get t)(0 := Some (stdin_of d))"
  by (auto simp: holds_input_def child_stdin_def stdin_of_def fd_get_dup2 split: option.splits)

lemma holds_input_more:
  "holds_input prev d t \<Longrightarrow> fd_get t r = None \<Longrightarrow> fd_get t wr = None \<Longrightarrow>
     fd_get t' = (fd_get t)(r := x, wr := y) \<Longrightarrow> holds_input prev d t'"
  by (auto simp: holds_input_def split: option.splits)

lemma getPipe_turn:
  assumes "wf s" "getPipe s = (prev, s1)"
  shows "wf s1 \<and> due s1 = (\<lambda>k. due s (Suc k)) \<and> same_rest s s1 \<and> next_pipe s1 = next_pipe s
    \<and> length (fds s1) = length (fds s) \<and> length (recycle s1) \<le> Suc (length (recycle s))
    \<and> live_children s1 = live_children s
    \<and> holds_input prev (due s 0) (fds s1)
    \<and> no_writer (due s 0) (fds s1)"
proof -
  have std: "fd_get (fds s) 0 = Some (Std 0)" using wf_std [OF assms(1)] by simp
  show ?thesis
  proof (cases "pipeStack s")
    case Nil
    then have "due s = (\<lambda>k. None)" by (simp add: due_def due_of_def fun_eq_iff)
    with Nil assms std show ?thesis
      by (auto simp: getPipe_def same_rest_def holds_input_def no_writer_def)
  next
    case (Cons x ps)
    show ?thesis
    proof (cases x)
      case None
      then have "due s 0 = None" by (simp add: due_def due_of_def Cons)
      moreover have "wf (s\<lparr>pipeStack := ps\<rparr>)"
        using sched_skip [of "next_pipe s" "slot (pipeStack s)"] assms(1) by (simp add: wf_def Cons None)
      moreover have "due (s\<lparr>pipeStack := ps\<rparr>) = (\<lambda>k. due s (Suc k))"
        by (simp add: due_def due_of_def Cons fun_eq_iff)
      ultimately show ?thesis using assms std Cons None
        by (auto simp: getPipe_def same_rest_def holds_input_def no_writer_def)
    next
      case (Some p)
      let ?s = "s\<lparr>fds := close_fd (snd p) (fds s), recycle := recycle s @ [p], pipeStack := ps\<rparr>"
      have s1: "prev = Some p" "s1 = ?s" using assms(2) Cons Some by (simp_all add: getPipe_def)
      have ok: "sched_ok (next_pipe s) (slot (pipeStack s)) (fd_get (fds s))"
        using assms(1) by (simp add: wf_def)
      have front: "slot (pipeStack s) 0 = Some (fst p, snd p)" by (simp add: Cons Some)
      obtain i where i: "fd_get (fds s) (fst p) = Some (Pipe_Read i)"
        "fd_get (fds s) (snd p) = Some (Pipe_Write i)" "due s 0 = Some i"
        by (rule sched_slot [OF ok front]) (simp add: due_def)
      then have ne: "fst p \<noteq> snd p" by auto
      have "wf ?s" "due ?s = (\<lambda>k. due s (Suc k))"
        using sched_turn [OF ok front] by (simp_all add: wf_def due_def Cons)
      moreover have "no_writer (Some i) (fds ?s)"
        using ok i(2) by (auto simp: no_writer_def sched_ok_def writers_unique_def split: if_splits)
      moreover have "holds_input (Some p) (Some i) (fds ?s)"
        using i(1,2) ne std by (cases "snd p = 0") (auto simp: holds_input_def stdin_of_def)
      ultimately show ?thesis
        using i(3) by (simp add: s1 same_rest_def stdin_of_def close_fd_def)
    qed
  qed
qed

text \<open>A new pipe gets the next identifier and two free descriptors.\<close>

lemma makeNewPipe_ok:
  assumes "length (fds s) + 2 \<le> fd_limit w"
  shows "\<exists>r wr t. makeNewPipe w s = Inr ((r, wr), s\<lparr>fds := t, next_pipe := Suc (next_pipe s)\<rparr>)
    \<and> r \<noteq> wr \<and> fd_get (fds s) r = None \<and> fd_get (fds s) wr = None
    \<and> fd_get t = (fd_get (fds s))(r := Some (Pipe_Read (next_pipe s)), wr := Some (Pipe_Write (next_pipe s)))
    \<and> length t \<le> length (fds s) + 2"
proof -
  let ?r = "lowest_free (fds s)"
  let ?t1 = "fd_put (fds s) ?r (Pipe_Read (next_pipe s))"
  let ?wr = "lowest_free ?t1"
  have free: "fd_get (fds s) ?r = None" "fd_get ?t1 ?wr = None" by (simp_all only: fd_get_lowest)
  then have ne: "?r \<noteq> ?wr" by auto
  have le: "?r \<le> length (fds s)" "?wr \<le> length ?t1" by (simp_all only: lowest_free_le)
  then have "?wr \<le> Suc (length (fds s))" by simp
  with assms have "makeNewPipe w s = Inr ((?r, ?wr),
      s\<lparr>fds := fd_put ?t1 ?wr (Pipe_Write (next_pipe s)), next_pipe := Suc (next_pipe s)\<rparr>)"
    by (simp add: makeNewPipe_def sys_pipe_def open_fd_def Let_def)
  moreover have "fd_get (fds s) ?wr = None" using free(2) ne by auto
  ultimately show ?thesis
    using free ne le
    by (intro exI [of _ ?r] exI [of _ ?wr] exI [of _ "fd_put ?t1 ?wr (Pipe_Write (next_pipe s))"] conjI) simp_all
qed

section \<open>Specification\<close>

text \<open>
  The commands of a line, by what they do with pipes, and what each promises in terms of the
  schedule \<open>d\<close> of pipe identifiers and the next identifier.
\<close>

datatype shape =
    Single
  | Numbered bool nat
  | Ordinary string
  | Redirect string

fun spec_due :: "shape \<Rightarrow> nat \<Rightarrow> (nat \<Rightarrow> nat option) \<Rightarrow> (nat \<Rightarrow> nat option)" where
  "spec_due Single nxt d = (\<lambda>k. d (Suc k))"
| "spec_due (Numbered err n) nxt d =
     (if d n = None then (\<lambda>k. d (Suc k))(n - 1 := Some nxt) else (\<lambda>k. d (Suc k)))"
| "spec_due (Ordinary rest) nxt d =
     (if d 1 = None then case_nat (Some nxt) (\<lambda>k. d (Suc k)) else (\<lambda>k. d (Suc k)))"
| "spec_due (Redirect name) nxt d = (\<lambda>k. d (Suc k))"

fun spec_out :: "shape \<Rightarrow> nat \<Rightarrow> (nat \<Rightarrow> nat option) \<Rightarrow> desc" where
  "spec_out Single nxt d = Std 1"
| "spec_out (Numbered err n) nxt d = Pipe_Write (case d n of None \<Rightarrow> nxt | Some i \<Rightarrow> i)"
| "spec_out (Ordinary rest) nxt d = Pipe_Write (case d 1 of None \<Rightarrow> nxt | Some i \<Rightarrow> i)"
| "spec_out (Redirect name) nxt d = File_Out name"

fun spec_err :: "shape \<Rightarrow> nat \<Rightarrow> (nat \<Rightarrow> nat option) \<Rightarrow> desc" where
  "spec_err (Numbered True n) nxt d = spec_out (Numbered True n) nxt d"
| "spec_err c nxt d = Std 2"

fun spec_next :: "shape \<Rightarrow> nat \<Rightarrow> (nat \<Rightarrow> nat option) \<Rightarrow> nat" where
  "spec_next (Numbered err n) nxt d = (if d n = None then Suc nxt else nxt)"
| "spec_next (Ordinary rest) nxt d = (if d 1 = None then Suc nxt else nxt)"
| "spec_next c nxt d = nxt"

text \<open>A step meets its specification; the last clause is that its reader sees the end of its input.\<close>

definition step_ok :: "shape \<Rightarrow> shell \<Rightarrow> shell \<Rightarrow> proc \<Rightarrow> bool" where
  "step_ok c s s' p \<longleftrightarrow> wf s' \<and> due s' = spec_due c (next_pipe s) (due s)
     \<and> next_pipe s' = spec_next c (next_pipe s) (due s)
     \<and> fd_get (proc_fds p) 0 = Some (stdin_of (due s 0))
     \<and> fd_get (proc_fds p) 1 = Some (spec_out c (next_pipe s) (due s))
     \<and> fd_get (proc_fds p) 2 = Some (spec_err c (next_pipe s) (due s))
     \<and> no_writer (due s 0) (proc_fds p) \<and> no_writer (due s 0) (fds s')"

text \<open>The bookkeeping of a step.\<close>

definition grows_little :: "shell \<Rightarrow> shell \<Rightarrow> bool" where
  "grows_little s s' \<longleftrightarrow> length (fds s') \<le> length (fds s) + 2
     \<and> length (recycle s') \<le> Suc (length (recycle s)) \<and> env s' = env s \<and> shell_out s' = shell_out s"

definition room :: "kernel \<Rightarrow> shell \<Rightarrow> bool" where
  "room w s \<longleftrightarrow> length (fds s) + 2 \<le> fd_limit w"

definition arg_words :: "string \<Rightarrow> string list" where
  "arg_words arg = tokens (is_delim CHR '' '') arg"

lemma callExecs_ok:
  "length arg < 100 \<Longrightarrow> callExecs oper arg t = Inr (Exec_Child \<lparr>argv = oper # arg_words arg, proc_fds = t\<rparr>)"
  using tokens_length [of "is_delim CHR '' ''" arg]
  by (auto simp: callExecs_def arg_words_def Let_def)

lemma forked_simps [simp]:
  "wf (forked s) = wf s" "due (forked s) = due s" "fds (forked s) = fds s" "buf (forked s) = buf s"
  "recycle (forked s) = recycle s" "env (forked s) = env s" "shell_out (forked s) = shell_out s"
  "next_pipe (forked s) = next_pipe s"
  by (simp_all add: forked_def wf_def due_def)

lemma wait_all_simps [simp]:
  "wf (wait_all s) = wf s" "due (wait_all s) = due s" "fds (wait_all s) = fds s" "buf (wait_all s) = buf s"
  "recycle (wait_all s) = recycle s" "env (wait_all s) = env s" "shell_out (wait_all s) = shell_out s"
  "next_pipe (wait_all s) = next_pipe s" "live_children (wait_all s) = 0"
  by (simp_all add: wait_all_def wf_def due_def)

lemma buf_simps [simp]: "wf (s\<lparr>buf := b\<rparr>) = wf s" "due (s\<lparr>buf := b\<rparr>) = due s"
  "wf (s\<lparr>instruction := b\<rparr>) = wf s" "due (s\<lparr>instruction := b\<rparr>) = due s"
  "wf (s\<lparr>shell_out := b\<rparr>) = wf s" "due (s\<lparr>shell_out := b\<rparr>) = due s"
  by (simp_all add: wf_def due_def)

lemma grown_simps [simp]:
  "wf (s\<lparr>pipeStack := grow n (pipeStack s)\<rparr>) = wf s" "due (s\<lparr>pipeStack := grow n (pipeStack s)\<rparr>) = due s"
  by (simp_all add: wf_def due_def)

lemma run_single_ok:
  assumes "wf s" "length arg < 100" "ins_cnt \<le> 2"
  shows "\<exists>s' p. run_single ins_cnt oper arg s = Inr (s', Some (Exec_Child p)) \<and> step_ok Single s s' p
    \<and> argv p = oper # arg_words arg \<and> buf s' = buf s \<and> grows_little s s' \<and> next_pipe s' = next_pipe s
    \<and> live_children s' = 0"
proof -
  obtain prev s1 where g: "getPipe s = (prev, s1)" by force
  note turn = getPipe_turn [OF assms(1) g]
  have child: "fd_get (child_stdin prev (fds s1)) = (fd_get (fds s1))(0 := Some (stdin_of (due s 0)))"
    using turn by (intro child_stdin_get) simp
  then have "no_writer (due s 0) (child_stdin prev (fds s1))"
    using turn by (cases "due s 0") (auto simp: no_writer_def stdin_of_def)
  with child show ?thesis
    using turn assms(2,3) wf_std [of s1]
    by (simp add: run_single_def g exec_or_exit_def callExecs_ok step_ok_def grows_little_def same_rest_def)
qed

text \<open>Planning a pipe in the stack of a well-formed shell, as \<open>run_numbered\<close> and \<open>run_pipe\<close> do.\<close>

lemma new_pipe_planned:
  assumes "wf s" "makeNewPipe w s = Inr ((r, wr), s\<lparr>fds := t, next_pipe := Suc (next_pipe s)\<rparr>)"
    and "r \<noteq> wr" "fd_get (fds s) r = None" "fd_get (fds s) wr = None"
    and t: "fd_get t = (fd_get (fds s))(r := Some (Pipe_Read (next_pipe s)), wr := Some (Pipe_Write (next_pipe s)))"
    and s': "s' = s\<lparr>fds := t, next_pipe := Suc (next_pipe s), pipeStack := ps\<rparr>"
  shows "slot ps = (slot (pipeStack s))(k := Some (r, wr)) \<Longrightarrow> slot (pipeStack s) k = None \<Longrightarrow>
      wf s' \<and> due s' = (due s)(k := Some (next_pipe s))"
    and "ps = Some (r, wr) # pipeStack s \<Longrightarrow> wf s' \<and> due s' = case_nat (Some (next_pipe s)) (due s)"
proof -
  have ok: "sched_ok (next_pipe s) (slot (pipeStack s)) (fd_get (fds s))"
    using assms(1) by (simp add: wf_def)
  note new = sched_new [OF ok assms(4,5,3)]
  {
    assume ps: "slot ps = (slot (pipeStack s))(k := Some (r, wr))" "slot (pipeStack s) k = None"
    have "\<exists>b. b \<noteq> k \<and> b = a" if "slot (pipeStack s) a = Some p" for a p using that ps(2) by auto
    with ps(1) show "wf s' \<and> due s' = (due s)(k := Some (next_pipe s))"
      using new [of "slot ps" k "\<lambda>a. a", OF _ _ _ _ t] by (simp add: s' wf_def due_def fun_eq_iff)
  next
    assume ps: "ps = Some (r, wr) # pipeStack s"
    have "slot ps a = slot (pipeStack s) (a - 1)" if "a \<noteq> 0" for a using ps that by (cases a) simp_all
    moreover have "\<exists>b. b \<noteq> 0 \<and> b - 1 = a" for a :: nat by (rule exI [of _ "Suc a"]) simp
    ultimately show "wf s' \<and> due s' = case_nat (Some (next_pipe s)) (due s)"
      using new [of "slot ps" 0 "\<lambda>a. a - 1", OF _ _ _ _ t] ps
      by (auto simp: s' wf_def due_def fun_eq_iff split: nat.split)
  }
qed

text \<open>Both piping commands, once the current pipe is known.\<close>

lemma planned_end:
  assumes "wf s" "slot (pipeStack s) k = Some p"
  obtains j where "due s k = Some j" "fd_get (fds s) (snd p) = Some (Pipe_Write j)"
  using assms sched_slot [of "next_pipe s" "slot (pipeStack s)" "fd_get (fds s)" k "fst p" "snd p"]
  by (auto simp: wf_def due_def)

lemma unplanned: "slot (pipeStack s) k = None \<Longrightarrow> due s k = None"
  by (simp add: due_def due_of_def)

text \<open>
  The child's table: standard input from \<open>prev\<close>, standard output (and standard error with \<open>!\<close>)
  into the current pipe.
\<close>

lemma piped_child:
  assumes "holds_input prev d (fds s)" "wf s" "fd_get (fds s) wr = Some (Pipe_Write j)" "no_writer d (fds s)"
    and "t1 = dup2 wr 1 (child_stdin prev (fds s))"
  shows "fd_get t1 0 = Some (stdin_of d) \<and> fd_get t1 1 = Some (Pipe_Write j) \<and> fd_get t1 2 = Some (Std 2)
    \<and> no_writer d t1 \<and> fd_get (dup2 wr 2 t1) 0 = Some (stdin_of d)
    \<and> fd_get (dup2 wr 2 t1) 1 = Some (Pipe_Write j) \<and> fd_get (dup2 wr 2 t1) 2 = Some (Pipe_Write j)
    \<and> no_writer d (dup2 wr 2 t1)"
proof -
  note std = wf_std [OF assms(2)]
  then have wr: "wr \<noteq> 0" "wr \<noteq> 1" "wr \<noteq> 2" using assms(3) by (metis desc.distinct(3) option.inject)+
  have t1: "fd_get t1 = (fd_get (fds s))(0 := Some (stdin_of d), 1 := Some (Pipe_Write j))"
    using child_stdin_get [OF assms(1)] assms(3,5) wr by (simp add: fd_get_dup2)
  moreover have "fd_get (dup2 wr 2 t1) = (fd_get t1)(2 := Some (Pipe_Write j))"
    using t1 assms(3) wr by (simp add: fd_get_dup2)
  ultimately show ?thesis
    using assms(3,4) std by (cases d) (auto simp: no_writer_def stdin_of_def)
qed

text \<open>What choosing a current pipe (write end \<open>wr\<close>, identifier \<open>j\<close>) guarantees.\<close>

definition targets :: "shell \<Rightarrow> shell \<Rightarrow> nat \<Rightarrow> nat \<Rightarrow> bool" where
  "targets s s' wr j \<longleftrightarrow> wf s' \<and> fd_get (fds s') wr = Some (Pipe_Write j) \<and> same_rest s s'
     \<and> recycle s' = recycle s \<and> length (fds s') \<le> length (fds s) + 2
     \<and> (\<forall>prev d. holds_input prev d (fds s) \<longrightarrow> holds_input prev d (fds s'))
     \<and> (\<forall>d. (\<forall>i. d = Some i \<longrightarrow> i < next_pipe s) \<longrightarrow> no_writer d (fds s) \<longrightarrow> no_writer d (fds s'))"

lemma targets_new:
  assumes "wf s'" "fd_get (fds s) r = None" "fd_get (fds s) wr = None"
    and "fd_get t = (fd_get (fds s))(r := Some (Pipe_Read (next_pipe s)), wr := Some (Pipe_Write (next_pipe s)))"
    and "length t \<le> length (fds s) + 2"
    and "s' = s\<lparr>fds := t, next_pipe := Suc (next_pipe s), pipeStack := ps\<rparr>"
  shows "targets s s' wr (next_pipe s)"
proof -
  have "holds_input prev d t" if "holds_input prev d (fds s)" for prev d
    using that assms(2-4) by (rule holds_input_more)
  moreover have "no_writer d t" if "\<forall>i. d = Some i \<longrightarrow> i < next_pipe s" "no_writer d (fds s)" for d
    using that assms(4) by (auto simp: no_writer_def)
  ultimately show ?thesis using assms(1,4-6) by (simp add: targets_def same_rest_def)
qed

lemma numbered_target_ok:
  assumes wf: "wf s" and room: "room w s" and k: "k < length (pipeStack s)"
  shows "\<exists>q wr s'. numbered_target w k s = Inr ((q, wr), s')
    \<and> targets s s' wr (case due s k of None \<Rightarrow> next_pipe s | Some i \<Rightarrow> i)
    \<and> due s' = (if due s k = None then (due s)(k := Some (next_pipe s)) else due s)
    \<and> next_pipe s' = (if due s k = None then Suc (next_pipe s) else next_pipe s)"
proof (cases "pipeStack s ! k")
  case (Some p)
  with k have "slot (pipeStack s) k = Some p" by (simp add: slot_def)
  then obtain j where "due s k = Some j" "fd_get (fds s) (snd p) = Some (Pipe_Write j)"
    using wf planned_end by blast
  with Some wf show ?thesis
    by (intro exI [of _ "fst p"] exI [of _ "snd p"] exI [of _ s])
       (simp add: numbered_target_def targets_def same_rest_def)
next
  case None
  with k have slot: "slot (pipeStack s) k = None" by (simp add: slot_def)
  from room have "length (fds s) + 2 \<le> fd_limit w" by (simp add: room_def)
  from makeNewPipe_ok [OF this] obtain r wr t where
    new: "makeNewPipe w s = Inr ((r, wr), s\<lparr>fds := t, next_pipe := Suc (next_pipe s)\<rparr>)"
    "r \<noteq> wr" "fd_get (fds s) r = None" "fd_get (fds s) wr = None"
    "fd_get t = (fd_get (fds s))(r := Some (Pipe_Read (next_pipe s)), wr := Some (Pipe_Write (next_pipe s)))"
    and len: "length t \<le> length (fds s) + 2" by blast
  let ?ps = "(pipeStack s)[k := Some (r, wr)]"
  let ?s' = "s\<lparr>fds := t, next_pipe := Suc (next_pipe s), pipeStack := ?ps\<rparr>"
  have "wf ?s' \<and> due ?s' = (due s)(k := Some (next_pipe s))"
    by (rule new_pipe_planned(1) [OF wf new refl]) (simp_all add: k slot)
  moreover from this have "targets s ?s' wr (next_pipe s)"
    by (intro targets_new [OF _ new(3,4,5) len refl]) simp
  ultimately show ?thesis using None new(1) unplanned [OF slot]
    by (intro exI [of _ r] exI [of _ wr] exI [of _ ?s']) (simp add: numbered_target_def)
qed

lemma ordinary_target_ok:
  assumes wf: "wf s" and room: "room w s"
  shows "\<exists>q wr s'. ordinary_target w s = Inr ((q, wr), s')
    \<and> targets s s' wr (case due s 0 of None \<Rightarrow> next_pipe s | Some i \<Rightarrow> i)
    \<and> due s' = (if due s 0 = None then case_nat (Some (next_pipe s)) (due s) else due s)
    \<and> next_pipe s' = (if due s 0 = None then Suc (next_pipe s) else next_pipe s)"
proof (cases "slot (pipeStack s) 0")
  case (Some p)
  then obtain ps where "pipeStack s = Some p # ps" by (cases "pipeStack s") auto
  moreover obtain j where "due s 0 = Some j" "fd_get (fds s) (snd p) = Some (Pipe_Write j)"
    using wf Some planned_end by blast
  ultimately show ?thesis using wf
    by (intro exI [of _ "fst p"] exI [of _ "snd p"] exI [of _ s])
       (simp add: ordinary_target_def targets_def same_rest_def)
next
  case None
  from room have "length (fds s) + 2 \<le> fd_limit w" by (simp add: room_def)
  from makeNewPipe_ok [OF this] obtain r wr t where
    new: "makeNewPipe w s = Inr ((r, wr), s\<lparr>fds := t, next_pipe := Suc (next_pipe s)\<rparr>)"
    "r \<noteq> wr" "fd_get (fds s) r = None" "fd_get (fds s) wr = None"
    "fd_get t = (fd_get (fds s))(r := Some (Pipe_Read (next_pipe s)), wr := Some (Pipe_Write (next_pipe s)))"
    and len: "length t \<le> length (fds s) + 2" by blast
  let ?s' = "s\<lparr>fds := t, next_pipe := Suc (next_pipe s), pipeStack := Some (r, wr) # pipeStack s\<rparr>"
  have "wf ?s' \<and> due ?s' = case_nat (Some (next_pipe s)) (due s)"
    by (rule new_pipe_planned(2) [OF wf new refl refl])
  moreover from this have "targets s ?s' wr (next_pipe s)"
    by (intro targets_new [OF _ new(3,4,5) len refl]) simp
  moreover have "ordinary_target w s = Inr ((r, wr), ?s')"
    using None new(1) by (auto simp: ordinary_target_def split: list.splits option.splits)
  ultimately show ?thesis using unplanned [OF None] by auto
qed

lemma piped_step:
  assumes "wf s" "getPipe s = (prev, s1)" "targets s1' s4 wr j" "fds s1' = fds s1"
    "next_pipe s1' = next_pipe s1" "recycle s1' = recycle s1" "same_rest s1 s1'"
    and t1: "t1 = dup2 wr 1 (child_stdin prev (fds s4))"
  shows "wf s4 \<and> fd_get t1 0 = Some (stdin_of (due s 0)) \<and> fd_get t1 1 = Some (Pipe_Write j)
    \<and> fd_get t1 2 = Some (Std 2) \<and> no_writer (due s 0) t1
    \<and> fd_get (dup2 wr 2 t1) 0 = Some (stdin_of (due s 0))
    \<and> fd_get (dup2 wr 2 t1) 1 = Some (Pipe_Write j) \<and> fd_get (dup2 wr 2 t1) 2 = Some (Pipe_Write j)
    \<and> no_writer (due s 0) (dup2 wr 2 t1) \<and> no_writer (due s 0) (fds s4)
    \<and> buf s4 = buf s \<and> grows_little s s4"
proof -
  note turn = getPipe_turn [OF assms(1,2)] and target = assms(3) [unfolded targets_def]
  have "i < next_pipe s1'" if "due s 0 = Some i" for i
    using due_old [OF assms(1) that] turn assms(5) by simp
  with target turn assms(4) have nw: "no_writer (due s 0) (fds s4)" "holds_input prev (due s 0) (fds s4)"
    by auto
  from target have "wf s4" "fd_get (fds s4) wr = Some (Pipe_Write j)" by simp_all
  from piped_child [OF nw(2) this nw(1) t1] this nw target turn assms(4,6,7) show ?thesis
    by (auto simp: grows_little_def same_rest_def)
qed

lemma run_numbered_ok:
  assumes wf: "wf s" and args: "length arg < 100" "ins_cnt \<le> 2" and n: "0 < n" and room: "room w s"
    and fork: "fork_failures w = 0" and symb: "hd symb = (if err then CHR ''!'' else CHR ''|'')"
  shows "\<exists>s' p. run_numbered w ins_cnt oper arg symb (int n) s = Inr (s', Some (Exec_Child p))
    \<and> step_ok (Numbered err n) s s' p \<and> argv p = oper # arg_words arg \<and> buf s' = buf s \<and> grows_little s s'"
proof -
  obtain prev s1 where g: "getPipe s = (prev, s1)" by force
  note turn = getPipe_turn [OF wf g]
  let ?s2 = "s1\<lparr>pipeStack := grow n (pipeStack s1)\<rparr>"
  have eq: "due ?s2 = (\<lambda>k. due s (Suc k))" "next_pipe ?s2 = next_pipe s" "Suc (n - 1) = n"
    using turn n by simp_all
  have "wf ?s2" "room w ?s2" "n - 1 < length (pipeStack ?s2)" using turn room n by (simp_all add: room_def)
  from numbered_target_ok [OF this, unfolded eq] obtain q wr s4 where choice: "numbered_target w (n - 1) ?s2 = Inr ((q, wr), s4)"
    and target: "targets ?s2 s4 wr (case due s n of None \<Rightarrow> next_pipe s | Some i \<Rightarrow> i)"
    and due: "due s4 = spec_due (Numbered err n) (next_pipe s) (due s)"
      "next_pipe s4 = spec_next (Numbered err n) (next_pipe s) (due s)"
    unfolding spec_due.simps spec_next.simps by blast
  have "fds ?s2 = fds s1" "next_pipe ?s2 = next_pipe s1" "recycle ?s2 = recycle s1" "same_rest s1 ?s2"
    by (simp_all add: same_rest_def)
  note step = piped_step [OF wf g target this refl]
  show ?thesis
    using step due choice args fork symb n
    by (cases err) (simp_all add: run_numbered_def g exec_or_exit_def callExecs_ok step_ok_def
        grows_little_def Let_def)
qed

lemma run_pipe_ok:
  assumes wf: "wf s" and args: "length arg < 100" "ins_cnt \<le> 2" and room: "room w s"
  shows "\<exists>s' p. run_pipe w ins_cnt oper arg s = Inr (s', Some (Exec_Child p))
    \<and> step_ok (Ordinary rest) s s' p \<and> argv p = oper # arg_words arg \<and> buf s' = buf s \<and> grows_little s s'"
proof -
  obtain prev s1 where g: "getPipe s = (prev, s1)" by force
  note turn = getPipe_turn [OF wf g]
  have eq: "due s1 = (\<lambda>k. due s (Suc k))" "next_pipe s1 = next_pipe s" using turn by simp_all
  have "wf s1" "room w s1" using turn room by (simp_all add: room_def)
  from ordinary_target_ok [OF this, unfolded eq] obtain q wr s4 where choice: "ordinary_target w s1 = Inr ((q, wr), s4)"
    and target: "targets s1 s4 wr (case due s 1 of None \<Rightarrow> next_pipe s | Some i \<Rightarrow> i)"
    and due: "due s4 = spec_due (Ordinary rest) (next_pipe s) (due s)"
      "next_pipe s4 = spec_next (Ordinary rest) (next_pipe s) (due s)"
    unfolding spec_due.simps spec_next.simps One_nat_def by blast
  have "same_rest s1 s1" by (simp add: same_rest_def)
  note step = piped_step [OF wf g target refl refl refl this refl]
  show ?thesis
    using step due choice args
    by (simp add: run_pipe_def g exec_or_exit_def callExecs_ok step_ok_def grows_little_def Let_def)
qed

lemma run_redirect_ok:
  assumes wf: "wf s" and args: "length arg < 100" "ins_cnt \<le> 2" and "can_open w (buf s)"
  shows "\<exists>s' p. run_redirect w ins_cnt oper arg s = Inr (s', Some (Exec_Child p))
    \<and> step_ok (Redirect (buf s)) s s' p \<and> argv p = oper # arg_words arg \<and> buf s' = [] \<and> grows_little s s'"
proof -
  obtain prev s1 where g: "getPipe s = (prev, s1)" by force
  note turn = getPipe_turn [OF wf g]
  let ?k = "lowest_free (fds s1)" and ?d = "due s 0"
  let ?t = "fd_put (fds s1) ?k (File_Out (buf s1))"
  have free: "fd_get (fds s1) ?k = None" by (rule fd_get_lowest)
  have std: "fd_get (fds s1) 0 = Some (Std 0)" "fd_get (fds s1) 2 = Some (Std 2)"
    using wf_std [of s1] turn by simp_all
  have k: "?k \<noteq> 0" "?k \<noteq> 2" using free std by (metis option.distinct(1))+
  have "holds_input prev ?d ?t"
    by (rule holds_input_more [of _ _ "fds s1" ?k ?k _ "Some (File_Out (buf s1))" "Some (File_Out (buf s1))"])
      (use turn free in simp_all)
  then have "fd_get (child_stdin prev ?t) = (fd_get ?t)(0 := Some (stdin_of ?d))"
    by (rule child_stdin_get)
  with k have "fd_get (dup2 ?k 1 (child_stdin prev ?t)) =
      (fd_get (fds s1))(?k := Some (File_Out (buf s1)), 0 := Some (stdin_of ?d), 1 := Some (File_Out (buf s1)))"
    by (simp add: fd_get_dup2)
  then have "fd_get (dup2 ?k 1 (child_stdin prev ?t)) 0 = Some (stdin_of ?d)"
    "fd_get (dup2 ?k 1 (child_stdin prev ?t)) 1 = Some (File_Out (buf s))"
    "fd_get (dup2 ?k 1 (child_stdin prev ?t)) 2 = Some (Std 2)"
    "no_writer ?d (dup2 ?k 1 (child_stdin prev ?t))"
    using turn k std by (cases ?d; simp add: no_writer_def stdin_of_def same_rest_def)+
  then show ?thesis
    using turn assms
    by (simp add: run_redirect_def g exec_or_exit_def callExecs_ok step_ok_def grows_little_def
        same_rest_def open_fd_def Let_def)
qed

section \<open>Command lines\<close>

definition plain_word :: "string \<Rightarrow> bool" where
  "plain_word w \<longleftrightarrow> w \<noteq> [] \<and> (\<forall>c \<in> set w. ins_char c \<and> c \<noteq> CHR '' '')"

fun show_args :: "string list \<Rightarrow> string" where
  "show_args [] = []"
| "show_args (a # args) = CHR '' '' # a @ show_args args"

fun show_tail :: "shape \<Rightarrow> string" where
  "show_tail Single = []"
| "show_tail (Numbered err n) = '' '' @ (if err then CHR ''!'' else CHR ''|'') # nat_str n"
| "show_tail (Ordinary rest) = '' '' @ CHR ''|'' # CHR '' '' # rest"
| "show_tail (Redirect name) = '' '' @ CHR ''>'' # CHR '' '' # name"

definition show_command :: "string \<Rightarrow> string list \<Rightarrow> shape \<Rightarrow> string" where
  "show_command prog args c = (prog @ show_args args) @ show_tail c"

definition text_ok :: "string \<Rightarrow> bool" where
  "text_ok r \<longleftrightarrow> r \<noteq> [] \<and> \<not> is_space (hd r) \<and> newline \<notin> set r"

fun tail_ok :: "shape \<Rightarrow> bool" where
  "tail_ok Single \<longleftrightarrow> True"
| "tail_ok (Numbered err n) \<longleftrightarrow> 0 < n \<and> n < 2 ^ 31"
| "tail_ok (Ordinary rest) \<longleftrightarrow> text_ok rest \<and> \<not> is_digit (hd rest) \<and> hd rest \<notin> {CHR ''-'', CHR ''+''}"
| "tail_ok (Redirect name) \<longleftrightarrow> text_ok name"

definition command_ok :: "string \<Rightarrow> string list \<Rightarrow> shape \<Rightarrow> bool" where
  "command_ok prog args c \<longleftrightarrow> plain_word prog \<and> (\<forall>a \<in> set args. plain_word a) \<and> tail_ok c
     \<and> length prog + length (show_args args) < 99"

lemma ins_char_space: "ins_char c \<Longrightarrow> is_space c \<longleftrightarrow> c = CHR '' ''"
  by (auto simp: ins_char_def is_alnum_def is_alpha_def is_digit_def is_space_def code_of_def)

lemma ins_char_literals [simp]: "ins_char (CHR '' '')" "\<not> ins_char (CHR ''|'')" "\<not> ins_char (CHR ''!'')"
  "\<not> ins_char (CHR ''>'')"
  by (simp_all add: ins_char_def is_alnum_def is_alpha_def is_digit_def code_of_def)

lemma plain_word_chars: "plain_word w \<Longrightarrow> c \<in> set w \<Longrightarrow> ins_char c \<and> \<not> is_space c"
  using ins_char_space by (auto simp: plain_word_def)

lemma plain_word_Cons: "plain_word w \<Longrightarrow> \<exists>c cs. w = c # cs \<and> \<not> is_space c"
proof (cases w)
  case (Cons c cs)
  moreover assume "plain_word w"
  ultimately show ?thesis using plain_word_chars [of w c] by simp
qed (simp add: plain_word_def)

lemma show_args_chars: "\<forall>a \<in> set args. plain_word a \<Longrightarrow> c \<in> set (show_args args) \<Longrightarrow> ins_char c"
  by (induction args) (auto dest: plain_word_chars)

lemma take_word:
  "\<forall>c \<in> set w. \<not> is_space c \<Longrightarrow> r = [] \<or> is_space (hd r) \<Longrightarrow>
     takeWhile (\<lambda>c. \<not> is_space c) (w @ r) = w \<and> dropWhile (\<lambda>c. \<not> is_space c) (w @ r) = r"
  by (cases r) (simp_all add: takeWhile_append dropWhile_append takeWhile_eq_all_conv)

lemma scan_head_symbol:
  assumes "w \<noteq> []" "\<forall>c \<in> set w. ins_char c" "\<not> ins_char d" "d \<in> set syms" "r = [] \<or> hd r \<notin> set syms"
  shows "scan_head syms (w @ d # r) = Inr (2, w, [d], r)"
proof -
  have "takeWhile ins_char (w @ d # r) = w" "dropWhile ins_char (w @ d # r) = d # r"
    using assms(2,3) by (simp_all add: takeWhile_append dropWhile_append)
  moreover have "takeWhile (\<lambda>c. c \<in> set syms) (d # r) = [d]" "dropWhile (\<lambda>c. c \<in> set syms) (d # r) = r"
    using assms(4,5) by (cases r; simp)+
  ultimately show ?thesis using assms(1) by (simp only: scan_head_def Let_def) simp
qed

lemma scan_head_plain:
  assumes "w \<noteq> []" "\<forall>c \<in> set w. ins_char c" "r = [] \<or> \<not> ins_char (hd r) \<and> hd r \<notin> set syms"
  shows "scan_head syms (w @ r) = Inr (1, w, [], [])"
proof -
  have "takeWhile ins_char (w @ r) = w" "dropWhile ins_char (w @ r) = r"
    using assms(2,3) by (cases r; simp add: takeWhile_append dropWhile_append)+
  moreover have "takeWhile (\<lambda>c. c \<in> set syms) r = []" using assms(3) by (cases r) simp_all
  ultimately show ?thesis using assms(1) by (simp add: scan_head_def Let_def)
qed

lemma scan_int_number: "n < 2 ^ 31 \<Longrightarrow> scan_int (nat_str n) = Some (int n)"
  using nat_str_Cons [of n] is_digit_not_space is_digit_not_sign
  by (fastforce simp: scan_int_def Let_def dest: atoi_nat_str)

lemma scan_int_none:
  "text_ok r \<Longrightarrow> \<not> is_digit (hd r) \<Longrightarrow> hd r \<notin> {CHR ''-'', CHR ''+''} \<Longrightarrow> scan_int (CHR '' '' # r) = None"
  by (cases r) (auto simp: scan_int_def text_ok_def is_space_def code_of_def Let_def)

text \<open>The program and its arguments are read back.\<close>

lemma arg_words_show:
  "plain_word a \<Longrightarrow> \<forall>b \<in> set args. plain_word b \<Longrightarrow> sp = [] \<or> sp = '' '' \<Longrightarrow>
     arg_words (a @ show_args args @ sp) = a # args"
proof (induction args arbitrary: a)
  case Nil
  then have a: "a \<noteq> []" "\<forall>c \<in> set a. \<not> is_delim CHR '' '' c" by (auto simp: plain_word_def is_delim_def)
  have d: "is_delim CHR '' '' CHR '' ''" by (simp add: is_delim_def)
  from Nil(3) tokens_single [OF a] tokens_first [OF a d, of "[]"] show ?case
    by (auto simp: arg_words_def)
next
  case (Cons b args)
  then have a: "a \<noteq> []" "\<forall>c \<in> set a. \<not> is_delim CHR '' '' c" by (auto simp: plain_word_def is_delim_def)
  have d: "is_delim CHR '' '' CHR '' ''" by (simp add: is_delim_def)
  from Cons tokens_first [OF a d, of "b @ show_args args @ sp"] show ?case
    by (simp add: arg_words_def)
qed

lemma scan_args_show:
  assumes "plain_word prog" "\<forall>a \<in> set args. plain_word a" "sp = [] \<or> sp = '' ''"
    and "length prog + length (show_args args) < 99"
  shows "\<exists>n arg. scan_args (prog @ show_args args @ sp) = Inr (n, prog, arg) \<and> n \<le> 2
    \<and> arg_words arg = args \<and> length arg < 100"
proof -
  have sp: "is_space (CHR '' '')" by (simp add: is_space_def code_of_def)
  obtain c cs where prog: "prog = c # cs" "\<not> is_space c"
    using plain_word_Cons [OF assms(1)] by blast
  let ?r = "show_args args @ sp"
  have r: "?r = [] \<or> (\<exists>t. ?r = CHR '' '' # t)" using assms(3) by (cases args) auto
  have t: "dropWhile is_space (prog @ ?r) = prog @ ?r" using prog by simp
  have oper: "takeWhile (\<lambda>c. \<not> is_space c) (prog @ ?r) = prog"
    "dropWhile (\<lambda>c. \<not> is_space c) (prog @ ?r) = ?r"
    using take_word [of prog ?r] plain_word_chars [OF assms(1)] r sp by auto
  show ?thesis
  proof (cases args)
    case Nil
    then have "dropWhile is_space ?r = []" using assms(3) sp by auto
    then have "scan_args (prog @ ?r) = Inr (1, prog, [])"
      by (simp only: scan_args_def Let_def t oper) (use assms(4) prog in simp)
    then show ?thesis using Nil by (simp add: arg_words_def)
  next
    case (Cons a rest)
    let ?arg = "a @ show_args rest @ sp"
    have plain: "plain_word a" "\<forall>b \<in> set rest. plain_word b" using assms(2) Cons by simp_all
    then obtain d ds where a: "a = d # ds" "\<not> is_space d" using plain_word_Cons by blast
    have "dropWhile is_space ?r = ?arg" using Cons a sp by simp
    moreover have "takeWhile ins_char ?arg = ?arg"
      using assms(3) show_args_chars [OF plain(2)] plain_word_chars [OF plain(1)]
      by (auto simp: takeWhile_eq_all_conv)
    moreover have "length ?arg < 100" using assms(3,4) Cons by auto
    ultimately have "scan_args (prog @ ?r) = Inr (2, prog, ?arg)"
      using t oper assms(4) prog a by (simp add: scan_args_def Let_def)
    moreover have "arg_words ?arg = args" using arg_words_show [OF plain assms(3)] Cons by simp
    ultimately show ?thesis using \<open>length ?arg < 100\<close> by auto
  qed
qed

text \<open>What the two \<open>sscanf\<close> calls make of each shape of command.\<close>

fun shape_num :: "shape \<Rightarrow> int" where
  "shape_num Single = 1"
| "shape_num c = 3"

fun shape_sym :: "shape \<Rightarrow> string" where
  "shape_sym Single = []"
| "shape_sym (Numbered err n) = (if err then ''!'' else ''|'')"
| "shape_sym (Ordinary rest) = ''|''"
| "shape_sym (Redirect name) = ''>''"

fun shape_count :: "shape \<Rightarrow> int" where
  "shape_count (Numbered err n) = int n"
| "shape_count c = 0"

fun shape_rest :: "shape \<Rightarrow> string" where
  "shape_rest (Ordinary rest) = rest"
| "shape_rest (Redirect name) = name"
| "shape_rest c = []"

definition shape_gap :: "shape \<Rightarrow> string" where
  "shape_gap c = (if c = Single then [] else '' '')"

lemma text_ok_rest: "text_ok r \<Longrightarrow>
    takeWhile (\<lambda>c. c \<noteq> newline) (dropWhile is_space (CHR '' '' # r)) = r \<and> r \<noteq> []"
  by (cases r) (auto simp: text_ok_def is_space_def code_of_def takeWhile_eq_all_conv)

lemma scan_cmd_show:
  assumes "w \<noteq> []" "\<forall>x \<in> set w. ins_char x" "tail_ok c" "buf s = []"
  shows "\<exists>sc. scan_cmd (w @ show_tail c) s =
      Inr (sc, s\<lparr>instruction := w @ shape_gap c, buf := shape_rest c\<rparr>)
    \<and> sc_n sc = shape_num c \<and> sc_num sc = shape_count c \<and> (c \<noteq> Single \<longrightarrow> sc_sym sc = shape_sym c)"
proof (cases c)
  case Single
  have "s\<lparr>instruction := w\<rparr> = s\<lparr>instruction := w, buf := []\<rparr>" using assms(4) by (cases s) simp
  then show ?thesis
    using assms(1,2) Single scan_head_plain [of w "[]"]
    by (simp add: scan_cmd_def scan_numbered_def scan_general_def shape_gap_def Let_def)
next
  case (Numbered err n)
  have n: "nat_str n = [] \<or> hd (nat_str n) \<notin> set ''|!''"
    using nat_str_Cons [of n] by (auto simp: is_digit_def code_of_def)
  have "s\<lparr>instruction := w @ '' ''\<rparr> = s\<lparr>instruction := w @ '' '', buf := []\<rparr>"
    using assms(4) by (cases s) simp
  then show ?thesis
    using assms(2,3) Numbered scan_head_symbol [of "w @ '' ''" "if err then CHR ''!'' else CHR ''|''" "''|!''", OF _ _ _ _ n]
    by (auto simp: scan_cmd_def scan_numbered_def scan_int_number shape_gap_def Let_def)
next
  case (Ordinary rest)
  then have rest: "text_ok rest" "\<not> is_digit (hd rest)" "hd rest \<notin> {CHR ''-'', CHR ''+''}"
    using assms(3) by simp_all
  then show ?thesis
    using assms(2) Ordinary scan_int_none [OF rest] text_ok_rest [OF rest(1)]
      scan_head_symbol [of "w @ '' ''" "CHR ''|''" "''|!''" "CHR '' '' # rest"]
      scan_head_symbol [of "w @ '' ''" "CHR ''|''" "''|!>''" "CHR '' '' # rest"]
    by (simp add: scan_cmd_def scan_numbered_def scan_general_def shape_gap_def Let_def)
next
  case (Redirect name)
  then show ?thesis
    using assms(2,3) text_ok_rest [of name]
      scan_head_plain [of "w @ '' ''" "CHR ''>'' # CHR '' '' # name" "''|!''"]
      scan_head_symbol [of "w @ '' ''" "CHR ''>''" "''|!>''" "CHR '' '' # name"]
    by (simp add: scan_cmd_def scan_numbered_def scan_general_def shape_gap_def Let_def)
qed

definition builtin_names :: "string list" where
  "builtin_names = [''setenv'', ''printenv'', ''exit'']"

text \<open>One step of the shell on a well-formed command meets the specification of its shape.\<close>

lemma executeCMD_step:
  assumes wf: "wf s" "buf s = []" and cmd: "command_ok prog args c" and room: "room w s"
    and single: "c = Single \<Longrightarrow> prog \<notin> set builtin_names"
    and fork: "fork_failures w = 0" and "\<And>name. c = Redirect name \<Longrightarrow> can_open w name"
  shows "\<exists>s' p. executeCMD w (show_command prog args c) s = Inr (s', Some (Exec_Child p), False)
    \<and> step_ok c s s' p \<and> argv p = prog # args \<and> grows_little s s'
    \<and> buf s' = (case c of Ordinary rest \<Rightarrow> rest | _ \<Rightarrow> [])"
proof -
  let ?w = "prog @ show_args args"
  have plain: "plain_word prog" "\<forall>a \<in> set args. plain_word a" "tail_ok c"
    "length prog + length (show_args args) < 99"
    using cmd by (simp_all add: command_ok_def)
  have w: "?w \<noteq> []" "\<forall>x \<in> set ?w. ins_char x"
    using plain(1) plain_word_chars [OF plain(1)] show_args_chars [OF plain(2)] by (auto simp: plain_word_def)
  obtain sc t where scan: "scan_cmd (show_command prog args c) s = Inr (sc, t)"
    "sc_n sc = shape_num c" "sc_num sc = shape_count c" "c \<noteq> Single \<longrightarrow> sc_sym sc = shape_sym c"
    and t: "t = s\<lparr>instruction := ?w @ shape_gap c, buf := shape_rest c\<rparr>"
    using scan_cmd_show [OF w plain(3) wf(2)] by (auto simp: show_command_def)
  have "shape_gap c = [] \<or> shape_gap c = '' ''" by (simp add: shape_gap_def)
  from scan_args_show [OF plain(1,2) this plain(4)] obtain n arg where
    args: "scan_args (instruction t) = Inr (n, prog, arg)" "n \<le> 2" "arg_words arg = args" "length arg < 100"
    by (auto simp: t)
  have s: "wf t" "room w t" "grows_little t = grows_little s" "step_ok c t = step_ok c s" "buf t = shape_rest c"
    using wf room by (simp_all add: t room_def grows_little_def step_ok_def fun_eq_iff)
  show ?thesis
  proof (cases c)
    case Single
    obtain s' p where "run_single n prog arg t = Inr (s', Some (Exec_Child p))" "step_ok c t s' p"
      "argv p = prog # args" "buf s' = buf t" "grows_little t s'"
      using run_single_ok [OF s(1) args(4,2)] args(3) Single by blast
    with scan args(1) s single Single show ?thesis
      by (simp add: executeCMD_def builtin_names_def)
  next
    case (Numbered err m)
    have "hd (shape_sym c) = (if err then CHR ''!'' else CHR ''|'')" "0 < m"
      using Numbered plain(3) by simp_all
    then obtain s' p where "run_numbered w n prog arg (shape_sym c) (int m) t = Inr (s', Some (Exec_Child p))"
      "step_ok c t s' p" "argv p = prog # args" "buf s' = buf t" "grows_little t s'"
      using run_numbered_ok [OF s(1) args(4,2) _ s(2) fork, of m "shape_sym c" err prog] args(3) Numbered
      by blast
    with scan args(1) s Numbered plain(3) show ?thesis by (simp add: executeCMD_def)
  next
    case (Ordinary rest)
    obtain s' p where "run_pipe w n prog arg t = Inr (s', Some (Exec_Child p))"
      "step_ok c t s' p" "argv p = prog # args" "buf s' = buf t" "grows_little t s'"
      using run_pipe_ok [OF s(1) args(4,2) s(2)] args(3) Ordinary by blast
    with scan args(1) s Ordinary show ?thesis by (simp add: executeCMD_def)
  next
    case (Redirect name)
    have op: "can_open w (buf t)" "Redirect (buf t) = c" using Redirect s(5) assms(7) by simp_all
    obtain s' p where "run_redirect w n prog arg t = Inr (s', Some (Exec_Child p))"
      "step_ok c t s' p" "argv p = prog # args" "buf s' = []" "grows_little t s'"
      using run_redirect_ok [OF s(1) args(4,2) op(1)] unfolding args(3) op(2) by blast
    with scan args(1) s Redirect show ?thesis by (simp add: executeCMD_def)
  qed
qed

section \<open>Every step\<close>

text \<open>
  What any successful step keeps, well-formed line or not: \<open>_buf\<close> does not grow, and the pipes that
  are planned or kept for recycling are among those created so far.
\<close>

definition planned :: "pipe_fds option list \<Rightarrow> nat" where
  "planned ps = length (filter (\<lambda>x. x \<noteq> None) ps)"

definition held_ok :: "shell \<Rightarrow> bool" where
  "held_ok s \<longleftrightarrow> length (recycle s) + planned (pipeStack s) \<le> next_pipe s"

definition keeps :: "shell \<Rightarrow> shell \<Rightarrow> bool" where
  "keeps s s' \<longleftrightarrow> length (buf s') \<le> length (buf s) \<and> (held_ok s \<longrightarrow> held_ok s')"

lemma planned_simps [simp]:
  "planned [] = 0" "planned (None # ps) = planned ps" "planned (Some p # ps) = Suc (planned ps)"
  "planned (grow n ps) = planned ps"
  by (simp_all add: planned_def grow_def)

lemma planned_update: "planned (ps[k := Some p]) \<le> Suc (planned ps)"
proof (induction ps arbitrary: k)
  case (Cons x ps)
  then show ?case by (cases x; cases k) (auto simp: le_SucI)
qed simp

lemma keeps_refl: "keeps s s"
  by (simp add: keeps_def)

lemma keeps_trans: "keeps s t \<Longrightarrow> keeps t u \<Longrightarrow> keeps s u"
  by (auto simp: keeps_def)

lemma keeps_fields [simp]:
  "keeps s (forked t) = keeps s t" "keeps s (wait_all t) = keeps s t" "keeps s (print m t) = keeps s t"
  "keeps s (input_error t) = keeps s t" "keeps s (t\<lparr>childCount := c\<rparr>) = keeps s t"
  "keeps s (t\<lparr>env := e\<rparr>) = keeps s t"
  "keeps (t\<lparr>pipeStack := grow n (pipeStack t)\<rparr>) s = keeps t s"
  by (simp_all add: keeps_def held_ok_def forked_def wait_all_def print_def input_error_def)

lemma keeps_clear_buf: "keeps s t \<Longrightarrow> keeps s (t\<lparr>buf := []\<rparr>)"
  by (simp add: keeps_def held_ok_def)

lemma getPipe_keeps: "getPipe s = (prev, s1) \<Longrightarrow> keeps s s1"
  by (auto simp: getPipe_def keeps_def held_ok_def split: list.splits option.splits)

lemma clean_loop_shorter: "length (fst (clean_loop ps t)) \<le> length ps"
  by (induction ps t rule: clean_loop.induct) auto

lemma cleanPipes_fields [simp]:
  "buf (cleanPipes s) = buf s" "pipeStack (cleanPipes s) = pipeStack s" "next_pipe (cleanPipes s) = next_pipe s"
  by (simp_all add: cleanPipes_def split: prod.split)

lemma cleanPipes_shorter: "length (recycle (cleanPipes s)) \<le> length (recycle s)"
  using clean_loop_shorter [of "recycle s" "fds s"]
  by (cases "clean_loop (recycle s) (fds s)") (simp add: cleanPipes_def)

lemma cleanPipes_keeps: "keeps s (cleanPipes s)"
  using cleanPipes_shorter [of s] by (simp add: keeps_def held_ok_def)

lemma makeNewPipe_fresh:
  assumes "makeNewPipe w s = Inr (p, s')"
  shows "buf s' = buf s \<and> pipeStack s' = pipeStack s \<and> next_pipe s' = Suc (next_pipe s)
    \<and> length (recycle s') \<le> length (recycle s)"
  using assms cleanPipes_shorter [of s]
  by (auto simp: makeNewPipe_def sys_pipe_def open_fd_def Let_def split: option.splits if_splits)

lemma numbered_target_keeps:
  assumes "numbered_target w k s = Inr (p, s')"
  shows "keeps s s'"
proof (cases "pipeStack s ! k")
  case (Some q)
  with assms show ?thesis by (simp add: numbered_target_def keeps_refl)
next
  case None
  with assms obtain t where t: "makeNewPipe w s = Inr (p, t)"
    "s' = t\<lparr>pipeStack := (pipeStack t)[k := Some p]\<rparr>"
    by (auto simp: numbered_target_def bind_res_Inr_iff)
  from makeNewPipe_fresh [OF t(1)] planned_update [of "pipeStack s" k p] show ?thesis
    by (auto simp: keeps_def held_ok_def t(2))
qed

lemma ordinary_target_keeps: "ordinary_target w s = Inr (p, s') \<Longrightarrow> keeps s s'"
  by (fastforce simp: ordinary_target_def bind_res_Inr_iff keeps_def held_ok_def
      dest: makeNewPipe_fresh split: list.splits option.splits)

lemma run_keeps:
  "run_single n oper arg s = Inr (s', ch) \<Longrightarrow> keeps s s'"
  "run_numbered w n oper arg symb num s = Inr (s', ch) \<Longrightarrow> keeps s s'"
  "run_pipe w n oper arg s = Inr (s', ch) \<Longrightarrow> keeps s s'"
  "run_redirect w n oper arg s = Inr (s', ch) \<Longrightarrow> keeps s s'"
  by (auto simp: run_single_def run_numbered_def run_pipe_def run_redirect_def bind_res_Inr_iff Let_def
      split: prod.splits if_splits dest!: getPipe_keeps numbered_target_keeps ordinary_target_keeps
      intro: keeps_trans keeps_clear_buf)

lemma scan_head_rest:
  assumes "scan_head syms cmd = Inr (n, ins, symb, rest)"
  shows "rest = [] \<or> length rest < length cmd"
proof -
  let ?r1 = "dropWhile ins_char cmd"
  have "length ?r1 \<le> length cmd" "length (dropWhile (\<lambda>c. c \<in> set syms) ?r1) \<le> length ?r1"
    by (simp_all add: length_dropWhile_le)
  moreover have "length ?r1 < length cmd" if "takeWhile ins_char cmd \<noteq> []"
    using that length_append [of "takeWhile ins_char cmd" ?r1] by (simp add: takeWhile_dropWhile_id)
  ultimately show ?thesis
    using assms by (fastforce simp: scan_head_def Let_def split: if_splits)
qed

text \<open>The command scanner touches \<open>instruction\<close> and \<open>buf\<close> only.\<close>

definition same_pipes :: "shell \<Rightarrow> shell \<Rightarrow> bool" where
  "same_pipes s t \<longleftrightarrow> pipeStack t = pipeStack s \<and> recycle t = recycle s \<and> next_pipe t = next_pipe s"

lemma scan_numbered_fields:
  assumes "scan_numbered cmd s = Inr (sc, t)"
  shows "same_pipes s t \<and> buf t = buf s"
proof -
  from assms obtain n i symb r where "scan_head ''|!'' cmd = Inr (n, i, symb, r)"
    by (cases "scan_head ''|!'' cmd") (auto simp: scan_numbered_def)
  with assms show ?thesis
    by (cases "scan_int r") (auto simp: scan_numbered_def same_pipes_def Let_def split: if_splits)
qed

lemma scan_general_fields:
  assumes "scan_general sym0 cmd s = Inr (sc, t)"
  shows "same_pipes s t \<and> (buf t = buf s \<or> length (buf t) < length cmd)"
proof -
  from assms obtain n i symb r where head: "scan_head ''|!>'' cmd = Inr (n, i, symb, r)"
    by (cases "scan_head ''|!>'' cmd") (auto simp: scan_general_def)
  let ?text = "takeWhile (\<lambda>c. c \<noteq> newline) (dropWhile is_space r)"
  have "length ?text \<le> length r"
    by (meson length_dropWhile_le length_takeWhile_le order_trans)
  with scan_head_rest [OF head] have "?text = [] \<or> length ?text < length cmd" by auto
  with assms head show ?thesis
    by (auto simp: scan_general_def same_pipes_def Let_def split: if_splits)
qed

lemma scan_cmd_fields:
  assumes "scan_cmd cmd s = Inr (sc, t)" "buf s = []" "cmd \<noteq> []"
  shows "same_pipes s t \<and> length (buf t) < length cmd"
proof -
  obtain sc1 t1 where first: "scan_numbered cmd s = Inr (sc1, t1)"
    and rest: "(if sc_n sc1 \<noteq> 3 then scan_general (sc_sym sc1) cmd t1 else Inr (sc1, t1)) = Inr (sc, t)"
    using assms(1) by (cases "scan_numbered cmd s") (auto simp: scan_cmd_def)
  have t1: "same_pipes s t1" "buf t1 = []" using scan_numbered_fields [OF first] assms(2) by simp_all
  show ?thesis
  proof (cases "sc_n sc1 = 3")
    case True
    with rest t1 assms(3) show ?thesis by simp
  next
    case False
    with rest have "scan_general (sc_sym sc1) cmd t1 = Inr (sc, t)" by simp
    from scan_general_fields [OF this] t1 assms(3) show ?thesis by (auto simp: same_pipes_def)
  qed
qed

lemma builtin_keeps [simp]: "keeps s (builtin_setenv arg t) = keeps s t" "keeps s (builtin_printenv arg t) = keeps s t"
  by (simp_all add: builtin_setenv_def builtin_printenv_def split: prod.split option.split)

lemma executeCMD_keeps:
  assumes "executeCMD w cmd s = Inr (s', ch, ex)" "buf s = []" "cmd \<noteq> []"
  shows "length (buf s') < length cmd \<and> (held_ok s \<longrightarrow> held_ok s')"
proof -
  obtain sc t where scan: "scan_cmd cmd s = Inr (sc, t)"
    using assms(1) by (auto simp: executeCMD_def bind_res_Inr_iff)
  from scan_cmd_fields [OF this assms(2,3)] have t: "length (buf t) < length cmd" "held_ok t = held_ok s"
    by (auto simp: held_ok_def same_pipes_def)
  have "keeps t s'"
    using assms(1) scan
    by (auto simp: executeCMD_def bind_res_Inr_iff keeps_refl Let_def split: if_splits prod.splits
        dest: run_keeps getPipe_keeps)
  with t show ?thesis by (auto simp: keeps_def)
qed

text \<open>The loop over a line ends.\<close>

lemma line_loop_Nil [simp]: "line_loop w [] s cs = Some (Inr (s, cs, False))"
  by (subst line_loop.simps) simp

lemma line_loop_returns: "buf s = [] \<Longrightarrow> \<exists>r. line_loop w cmd s cs = Some r"
proof (induction cmd arbitrary: s cs rule: length_induct)
  case (1 cmd)
  show ?case
  proof (cases "cmd = []")
    case False
    show ?thesis
    proof (cases "executeCMD w cmd s")
      case (Inl e)
      with False show ?thesis by (subst line_loop.simps) simp
    next
      case (Inr a)
      obtain s' ch ex where a: "a = (s', ch, ex)" by (cases a)
      with Inr 1(2) False have "length (buf s') < length cmd" using executeCMD_keeps by blast
      with 1(1) have "\<exists>r. line_loop w (buf s') (cleanPipes (s'\<lparr>buf := []\<rparr>)) cs' = Some r" for cs' by simp
      with Inr a False show ?thesis by (subst line_loop.simps) (simp add: Let_def)
    qed
  qed simp
qed

end
