(* ===== verification/Npshell_Lines.thy ===== *)
theory Npshell_Lines
  imports Npshell
begin

text \<open>
  Whole input lines of the shell of \<open>project1/npshell.cpp\<close>: pipelines, sequences of lines, and the
  properties of the shell. The model and the lemmas on single commands are in the theory
  \<open>Npshell\<close>.
\<close>

section \<open>Lines\<close>

text \<open>
  A shell between two commands; up to ten pipes \<open>cleanPipes\<close> has nothing to close.
\<close>

definition ready :: "shell \<Rightarrow> bool" where
  "ready s \<longleftrightarrow> wf s \<and> buf s = [] \<and> held_ok s"

lemma ready_init: "ready shell_init"
  by (auto simp: ready_def wf_def sched_ok_def std_open_def ends_open_def one_place_def
      writers_planned_def writers_unique_def ids_old_def held_ok_def shell_init_def fd_get_def nth_Cons
      split: nat.splits if_splits)

lemma due_init: "due shell_init = (\<lambda>k. None)"
  by (simp add: due_def due_of_def shell_init_def fun_eq_iff)

lemma ready_clean: "ready s \<Longrightarrow> next_pipe s \<le> 10 \<Longrightarrow> cleanPipes s = s"
  by (simp add: ready_def held_ok_def)

lemma print_simps [simp]: "wf (print m s) = wf s" "due (print m s) = due s" "buf (print m s) = buf s"
  "held_ok (print m s) = held_ok s" "ready (print m s) = ready s" "next_pipe (print m s) = next_pipe s"
  "fds (print m s) = fds s" "room w (print m s) = room w s"
  by (simp_all add: print_def wf_def due_def held_ok_def ready_def room_def)

text \<open>The first command of a line, as a step of the loop.\<close>

lemma line_step:
  assumes s: "ready s" and cmd: "command_ok prog args c" and room: "room w s"
    and single: "c = Single \<Longrightarrow> prog \<notin> set builtin_names"
    and fork: "fork_failures w = 0" and target: "\<And>name. c = Redirect name \<Longrightarrow> can_open w name"
    and few: "spec_next c (next_pipe s) (due s) \<le> 10"
  shows "\<exists>s' p. line_loop w (show_command prog args c) s cs
      = line_loop w (case c of Ordinary rest \<Rightarrow> rest | _ \<Rightarrow> []) s' (cs @ [Exec_Child p])
    \<and> ready s' \<and> step_ok c s s' p \<and> argv p = prog # args \<and> length (fds s') \<le> length (fds s) + 2"
proof -
  have wf: "wf s" "buf s = []" "held_ok s" using s by (simp_all add: ready_def)
  obtain s' p where exec: "executeCMD w (show_command prog args c) s = Inr (s', Some (Exec_Child p), False)"
    and ok: "step_ok c s s' p" "argv p = prog # args" "grows_little s s'"
    and rest: "buf s' = (case c of Ordinary rest \<Rightarrow> rest | _ \<Rightarrow> [])"
    using executeCMD_step [OF wf(1,2) cmd room single fork target] by blast
  have ne: "show_command prog args c \<noteq> []"
    using cmd by (simp add: show_command_def command_ok_def plain_word_def)
  let ?t = "s'\<lparr>buf := []\<rparr>"
  have "held_ok s'" using executeCMD_keeps [OF exec wf(2) ne] wf(3) by simp
  then have t: "ready ?t" "step_ok c s ?t p"
    using ok(1) by (simp_all add: ready_def step_ok_def held_ok_def)
  moreover have "cleanPipes ?t = ?t"
    using t(1) few ok(1) by (intro ready_clean) (simp_all add: step_ok_def)
  ultimately show ?thesis
    using ok(2,3) exec ne rest
    by (intro exI [of _ ?t] exI [of _ p]) (subst line_loop.simps, simp add: Let_def grows_little_def)
qed

type_synonym stage = "string \<times> string list"

fun show_line :: "stage list \<Rightarrow> stage \<Rightarrow> shape \<Rightarrow> string" where
  "show_line [] final c = show_command (fst final) (snd final) c"
| "show_line (st # stages) final c = show_command (fst st) (snd st) (Ordinary (show_line stages final c))"

definition stage_ok :: "stage \<Rightarrow> bool" where
  "stage_ok st \<longleftrightarrow> command_ok (fst st) (snd st) Single \<and> \<not> is_digit (hd (fst st)) \<and> hd (fst st) \<noteq> CHR ''-''"

text \<open>The end of a line: a plain command, a numbered pipe or a redirection.\<close>

fun end_ok :: "kernel \<Rightarrow> stage \<Rightarrow> shape \<Rightarrow> bool" where
  "end_ok w final Single \<longleftrightarrow> fst final \<notin> set builtin_names"
| "end_ok w final (Numbered err n) \<longleftrightarrow> tail_ok (Numbered err n)"
| "end_ok w final (Ordinary rest) \<longleftrightarrow> False"
| "end_ok w final (Redirect name) \<longleftrightarrow> tail_ok (Redirect name) \<and> can_open w name"

lemma ins_char_plus: "\<not> ins_char (CHR ''+'')" "\<not> ins_char newline"
  by (simp_all add: ins_char_def is_alnum_def is_alpha_def is_digit_def code_of_def newline_def)

lemma show_line_text:
  assumes "\<forall>st \<in> set (final # stages). stage_ok st" "end_ok w final c"
  shows "tail_ok (Ordinary (show_line stages final c))"
proof -
  have head: "text_ok (show_command (fst st) (snd st) d) \<and> \<not> is_digit (hd (show_command (fst st) (snd st) d))
      \<and> hd (show_command (fst st) (snd st) d) \<notin> {CHR ''-'', CHR ''+''}"
    if st: "stage_ok st" and tail: "newline \<notin> set (show_tail d)" for st d
  proof -
    have plain: "plain_word (fst st)" "\<forall>a \<in> set (snd st). plain_word a"
      using st by (simp_all add: stage_ok_def command_ok_def)
    obtain x xs where x: "fst st = x # xs" "\<not> is_space x" using plain_word_Cons [OF plain(1)] by blast
    have "newline \<notin> set (fst st)" "newline \<notin> set (show_args (snd st))" "x \<noteq> CHR ''+''"
      using plain_word_chars [OF plain(1)] show_args_chars [OF plain(2)] ins_char_plus x(1) by auto
    with x tail st show ?thesis by (simp add: show_command_def text_ok_def stage_ok_def)
  qed
  have "newline \<notin> set (show_tail c)"
    using assms(2) nat_str_digits [of newline] by (cases c) (auto simp: text_ok_def newline_def is_digit_def code_of_def)
  then have base: "tail_ok (Ordinary (show_line [] final c))"
    using head [of final c] assms(1) by simp
  show ?thesis
    using assms(1)
  proof (induction stages)
    case (Cons st stages)
    then have "text_ok (show_line stages final c)" by simp
    then have "newline \<notin> set (show_tail (Ordinary (show_line stages final c)))"
      by (simp add: text_ok_def newline_def)
    with head [of st] Cons(2) show ?case by simp
  qed (use base in simp)
qed

text \<open>The three standard descriptors of a child, and the promise that its input ends.\<close>

definition std_in :: "proc \<Rightarrow> desc option" where "std_in p = fd_get (proc_fds p) 0"
definition std_out :: "proc \<Rightarrow> desc option" where "std_out p = fd_get (proc_fds p) 1"

definition input_ends :: "proc \<Rightarrow> bool" where
  "input_ends p \<longleftrightarrow> (\<forall>i k. std_in p = Some (Pipe_Read i) \<longrightarrow> fd_get (proc_fds p) k \<noteq> Some (Pipe_Write i))"

lemma step_child:
  "step_ok c s s' p \<Longrightarrow> std_in p = Some (stdin_of (due s 0))
     \<and> std_out p = Some (spec_out c (next_pipe s) (due s)) \<and> input_ends p"
  by (auto simp: step_ok_def std_in_def std_out_def input_ends_def no_writer_def stdin_of_def
      split: option.splits)

text \<open>What the last command of a line leaves, when nothing else is pending.\<close>

fun end_out :: "shape \<Rightarrow> nat \<Rightarrow> desc" where
  "end_out (Numbered err n) i = Pipe_Write i"
| "end_out (Redirect name) i = File_Out name"
| "end_out c i = Std 1"

fun end_due :: "shape \<Rightarrow> nat \<Rightarrow> nat \<Rightarrow> nat option" where
  "end_due (Numbered err n) i = (\<lambda>k. None)(n - 1 := Some i)"
| "end_due c i = (\<lambda>k. None)"

fun end_next :: "shape \<Rightarrow> nat \<Rightarrow> nat" where
  "end_next (Numbered err n) i = Suc i"
| "end_next c i = i"

lemma end_spec:
  assumes "end_ok w final c" "\<forall>k. d (Suc k) = None"
  shows "spec_out c i d = end_out c i \<and> spec_due c i d = end_due c i \<and> spec_next c i d = end_next c i"
proof (cases c)
  case (Numbered err n)
  with assms obtain m where "n = Suc m" by (cases n) auto
  with assms(2) Numbered show ?thesis by simp
qed (use assms in auto)

text \<open>
  The children of a pipeline whose first pipe is \<open>i\<close>: the programs in order, each reading what the
  one before writes; the first reads \<open>d\<close>, the last writes where the line ends.
\<close>

definition chained :: "stage list \<Rightarrow> stage \<Rightarrow> shape \<Rightarrow> nat \<Rightarrow> nat option \<Rightarrow> proc list \<Rightarrow> bool" where
  "chained stages final c i d ps \<longleftrightarrow>
     map argv ps = map (\<lambda>(prog, args). prog # args) (stages @ [final])
     \<and> map std_in ps = Some (stdin_of d) # map (Some \<circ> Pipe_Read) [i..<i + length stages]
     \<and> map std_out ps = map (Some \<circ> Pipe_Write) [i..<i + length stages] @ [Some (end_out c (i + length stages))]
     \<and> (\<forall>p \<in> set ps. input_ends p)"

lemma chained_Cons:
  assumes "chained stages final c (Suc i) (Some i) ps" "argv p = fst st # snd st"
    "std_in p = Some (stdin_of d)" "std_out p = Some (Pipe_Write i)" "input_ends p"
  shows "chained (st # stages) final c i d (p # ps)"
proof -
  have "[i..<i + length (st # stages)] = i # [Suc i..<Suc i + length stages]"
    using upt_conv_Cons [of i "i + length (st # stages)"] by (simp del: upt_Suc)
  with assms show ?thesis by (simp add: chained_def stdin_of_def split: prod.split)
qed

lemma pipeline_runs:
  assumes "ready s" "\<forall>k. due s (Suc k) = None"
    and "\<forall>st \<in> set (final # stages). stage_ok st" "end_ok w final c" "fork_failures w = 0"
    and "end_next c (next_pipe s + length stages) \<le> 10"
    and "length (fds s) + 2 * Suc (length stages) \<le> fd_limit w"
  shows "\<exists>s' ps. line_loop w (show_line stages final c) s cs = Some (Inr (s', cs @ map Exec_Child ps, False))
    \<and> ready s' \<and> due s' = end_due c (next_pipe s + length stages)
    \<and> next_pipe s' = end_next c (next_pipe s + length stages)
    \<and> chained stages final c (next_pipe s) (due s 0) ps \<and> length (fds s') \<le> length (fds s) + 2 * Suc (length stages)"
  using assms
proof (induction stages arbitrary: s cs)
  case Nil
  note spec = end_spec [OF Nil(4,2), of "next_pipe s"]
  have "tail_ok c" using Nil(4) by (cases c) auto
  then have cmd: "command_ok (fst final) (snd final) c"
    using Nil(3) by (simp add: stage_ok_def command_ok_def)
  have room: "room w s" using Nil(7) by (simp add: room_def)
  have "\<exists>s' p. line_loop w (show_command (fst final) (snd final) c) s cs
      = line_loop w (case c of Ordinary rest \<Rightarrow> rest | _ \<Rightarrow> []) s' (cs @ [Exec_Child p])
    \<and> ready s' \<and> step_ok c s s' p \<and> argv p = fst final # snd final \<and> length (fds s') \<le> length (fds s) + 2"
    using Nil(4-6) spec by (intro line_step [OF Nil(1) cmd room]) auto
  then obtain s' p where step: "line_loop w (show_command (fst final) (snd final) c) s cs
      = line_loop w (case c of Ordinary rest \<Rightarrow> rest | _ \<Rightarrow> []) s' (cs @ [Exec_Child p])"
    "ready s'" "step_ok c s s' p" "argv p = fst final # snd final" "length (fds s') \<le> length (fds s) + 2"
    by blast
  have "(case c of Ordinary rest \<Rightarrow> rest | _ \<Rightarrow> []) = []" using Nil(4) by (cases c) simp_all
  with step step_child [OF step(3)] spec show ?case
    by (intro exI [of _ s'] exI [of _ "[p]"]) (simp add: step_ok_def chained_def split: prod.split)
next
  case (Cons st stages)
  let ?rest = "show_line stages final c"
  have tail: "tail_ok (Ordinary ?rest)" using Cons.prems(3,4) by (intro show_line_text) auto
  then have cmd: "command_ok (fst st) (snd st) (Ordinary ?rest)"
    using Cons.prems(3) by (simp add: stage_ok_def command_ok_def)
  have one: "due s 1 = None" using Cons.prems(2) by simp
  have few: "Suc (next_pipe s) \<le> 10" using Cons.prems(6) by (cases c) auto
  have room: "room w s" using Cons.prems(7) by (simp add: room_def)
  have "\<exists>s' p. line_loop w (show_command (fst st) (snd st) (Ordinary ?rest)) s cs
      = line_loop w (case Ordinary ?rest of Ordinary rest \<Rightarrow> rest | _ \<Rightarrow> []) s' (cs @ [Exec_Child p])
    \<and> ready s' \<and> step_ok (Ordinary ?rest) s s' p \<and> argv p = fst st # snd st
    \<and> length (fds s') \<le> length (fds s) + 2"
    using Cons.prems(5) few one by (intro line_step [OF Cons.prems(1) cmd room]) auto
  then obtain s1 p where step: "line_loop w (show_line (st # stages) final c) s cs
      = line_loop w ?rest s1 (cs @ [Exec_Child p])"
    "ready s1" "step_ok (Ordinary ?rest) s s1 p" "argv p = fst st # snd st" "length (fds s1) \<le> length (fds s) + 2"
    by auto
  have s1: "due s1 = case_nat (Some (next_pipe s)) (\<lambda>k. None)" "next_pipe s1 = Suc (next_pipe s)"
    using step(3) one Cons.prems(2) by (auto simp: step_ok_def)
  have "\<exists>s' ps. line_loop w ?rest s1 (cs @ [Exec_Child p]) = Some (Inr (s', (cs @ [Exec_Child p]) @ map Exec_Child ps, False))
    \<and> ready s' \<and> due s' = end_due c (next_pipe s1 + length stages)
    \<and> next_pipe s' = end_next c (next_pipe s1 + length stages)
    \<and> chained stages final c (next_pipe s1) (due s1 0) ps \<and> length (fds s') \<le> length (fds s1) + 2 * Suc (length stages)"
    using Cons.prems step(2,5) s1 by (intro Cons.IH) auto
  then obtain s' ps where ih: "line_loop w ?rest s1 (cs @ [Exec_Child p]) = Some (Inr (s', (cs @ [Exec_Child p]) @ map Exec_Child ps, False))"
    "ready s'" "due s' = end_due c (next_pipe s1 + length stages)"
    "next_pipe s' = end_next c (next_pipe s1 + length stages)"
    "chained stages final c (next_pipe s1) (due s1 0) ps"
    "length (fds s') \<le> length (fds s1) + 2 * Suc (length stages)"
    by blast
  have "chained (st # stages) final c (next_pipe s) (due s 0) (p # ps)"
    using ih(5) step(4) step_child [OF step(3)] s1 one by (intro chained_Cons) simp_all
  with ih step s1 show ?case by (intro exI [of _ s'] exI [of _ "p # ps"]) simp
qed

text \<open>A turn and a plan on abstract schedules obey the laws of a schedule.\<close>

definition spec_turn :: "(nat \<Rightarrow> nat option) \<Rightarrow> (nat \<Rightarrow> nat option)" where
  "spec_turn d = (\<lambda>k. d (Suc k))"

definition spec_plan :: "nat \<Rightarrow> nat \<Rightarrow> (nat \<Rightarrow> nat option) \<Rightarrow> (nat \<Rightarrow> nat option)" where
  "spec_plan k i d = d(k := Some i)"

interpretation ids: pipe_schedule "\<lambda>d. d" spec_turn spec_plan
  by unfold_locales (simp_all add: spec_turn_def spec_plan_def)

text \<open>A line read by the outer loop.\<close>

definition line_ok :: "string \<Rightarrow> bool" where
  "line_ok line \<longleftrightarrow> length line < 10000 \<and> nul \<notin> set line"

lemma run_lines_step:
  assumes "line_ok line" "line_loop w line (print ''% '' s) cs = Some (Inr (s', cs', False))"
    and "ready s'" "next_pipe s' \<le> 10"
  shows "run_lines w (line # lines) s cs = run_lines w lines s' cs'"
proof -
  have whole: "takeWhile (\<lambda>c. c \<noteq> nul) line = line"
    using assms(1) by (auto simp: line_ok_def takeWhile_eq_all_conv)
  show ?thesis
    using assms(1) ready_clean [OF assms(3,4)] by (simp add: whole assms(2) line_ok_def)
qed

lemma stage_line_ok: "stage_ok st \<Longrightarrow> line_ok (show_line [] st Single)"
proof -
  assume st: "stage_ok st"
  then have plain: "plain_word (fst st)" "\<forall>a \<in> set (snd st). plain_word a"
    by (simp_all add: stage_ok_def command_ok_def)
  have "\<not> ins_char nul"
    by (simp add: ins_char_def is_alnum_def is_alpha_def is_digit_def code_of_def nul_def)
  then have "nul \<notin> set (fst st)" "nul \<notin> set (show_args (snd st))"
    using plain_word_chars [OF plain(1)] show_args_chars [OF plain(2)] by blast+
  with st show ?thesis by (simp add: line_ok_def show_command_def stage_ok_def command_ok_def)
qed

text \<open>Lines of one plain command each: every one takes a turn.\<close>

lemma singles_run:
  assumes "ready s" "next_pipe s \<le> 10" "fork_failures w = 0"
    and "\<forall>st \<in> set singles. stage_ok st \<and> fst st \<notin> set builtin_names"
    and "length (fds s) + 2 * length singles + 2 \<le> fd_limit w"
  shows "\<exists>s' ps. run_lines w (map (\<lambda>st. show_line [] st Single) singles @ lines) s cs
      = run_lines w lines s' (cs @ map Exec_Child ps)
    \<and> ready s' \<and> due s' = (spec_turn ^^ length singles) (due s) \<and> next_pipe s' = next_pipe s
    \<and> map std_in ps = map (\<lambda>k. Some (stdin_of (due s k))) [0..<length singles]
    \<and> length (fds s') \<le> length (fds s) + 2 * length singles"
  using assms
proof (induction singles arbitrary: s cs)
  case Nil
  then show ?case by (intro exI [of _ s] exI [of _ "[]"]) simp
next
  case (Cons st singles)
  have st: "stage_ok st" "fst st \<notin> set builtin_names" using Cons.prems(4) by simp_all
  let ?s = "print ''% '' s"
  have "\<exists>s' p. line_loop w (show_command (fst st) (snd st) Single) ?s cs
      = line_loop w (case Single of Ordinary rest \<Rightarrow> rest | _ \<Rightarrow> []) s' (cs @ [Exec_Child p])
    \<and> ready s' \<and> step_ok Single ?s s' p \<and> argv p = fst st # snd st \<and> length (fds s') \<le> length (fds ?s) + 2"
    using Cons.prems st by (intro line_step) (auto simp: stage_ok_def room_def)
  then obtain s1 p where step: "line_loop w (show_line [] st Single) ?s cs = Some (Inr (s1, cs @ [Exec_Child p], False))"
    "ready s1" "step_ok Single ?s s1 p" "length (fds s1) \<le> length (fds s) + 2"
    by auto
  have s1: "due s1 = spec_turn (due s)" "next_pipe s1 = next_pipe s" "std_in p = Some (stdin_of (due s 0))"
    using step(3) step_child [OF step(3)] by (simp_all add: step_ok_def spec_turn_def)
  have "\<exists>s' ps. run_lines w (map (\<lambda>st. show_line [] st Single) singles @ lines) s1 (cs @ [Exec_Child p])
      = run_lines w lines s' ((cs @ [Exec_Child p]) @ map Exec_Child ps)
    \<and> ready s' \<and> due s' = (spec_turn ^^ length singles) (due s1) \<and> next_pipe s' = next_pipe s1
    \<and> map std_in ps = map (\<lambda>k. Some (stdin_of (due s1 k))) [0..<length singles]
    \<and> length (fds s') \<le> length (fds s1) + 2 * length singles"
    using Cons.prems step(2,4) s1(2) by (intro Cons.IH) auto
  then obtain s' ps where ih: "run_lines w (map (\<lambda>st. show_line [] st Single) singles @ lines) s1 (cs @ [Exec_Child p])
      = run_lines w lines s' ((cs @ [Exec_Child p]) @ map Exec_Child ps)"
    "ready s'" "due s' = (spec_turn ^^ length singles) (due s1)" "next_pipe s' = next_pipe s1"
    "map std_in ps = map (\<lambda>k. Some (stdin_of (due s1 k))) [0..<length singles]"
    "length (fds s') \<le> length (fds s1) + 2 * length singles"
    by blast
  have "run_lines w (show_line [] st Single # map (\<lambda>st. show_line [] st Single) singles @ lines) s cs
      = run_lines w (map (\<lambda>st. show_line [] st Single) singles @ lines) s1 (cs @ [Exec_Child p])"
    using Cons.prems(2) s1(2) by (intro run_lines_step [OF stage_line_ok [OF st(1)] step(1,2)]) simp
  moreover have "map (\<lambda>k. Some (stdin_of (due s k))) [0..<length (st # singles)]
      = Some (stdin_of (due s 0)) # map (\<lambda>k. Some (stdin_of (due s1 k))) [0..<length singles]"
    by (simp add: upt_conv_Cons map_Suc_upt [symmetric] s1(1) spec_turn_def comp_def del: upt_Suc)
  ultimately show ?case
    using ih step(4) s1 by (intro exI [of _ s'] exI [of _ "p # ps"]) (simp add: funpow_swap1)
qed

section \<open>Properties\<close>

lemmas stage_eval = stage_ok_def command_ok_def plain_word_def ins_char_def is_alnum_def is_alpha_def
  is_digit_def code_of_def builtin_names_def

text \<open>
  C1. Each command of a line does what its shape says, as far as \<open>fork\<close> and the descriptors last:
  exactly one child is forked, with the words of the command as arguments; it reads the pipe that
  is due now (or the shell's own input); it writes to the shell's output, to the file, or into the
  pipe due after \<open>n\<close> commands (\<open>n = 1\<close> for an ordinary pipe), a new one if none is due there, with
  \<open>!\<close> for its errors too; the schedule moves on by one turn accordingly, and neither the child nor
  the shell keeps a write end of the pipe the child reads.
\<close>

theorem executeCMD_refines:
  assumes "wf s" "buf s = []" "command_ok prog args c" "room w s" "fork_failures w = 0"
    and "c = Single \<Longrightarrow> prog \<notin> set builtin_names" "\<And>name. c = Redirect name \<Longrightarrow> can_open w name"
  shows "\<exists>s' p. executeCMD w (show_command prog args c) s = Inr (s', Some (Exec_Child p), False)
    \<and> argv p = prog # args \<and> wf s'
    \<and> fd_get (proc_fds p) 0 = Some (stdin_of (due s 0))
    \<and> fd_get (proc_fds p) 1 = Some (spec_out c (next_pipe s) (due s))
    \<and> fd_get (proc_fds p) 2 = Some (spec_err c (next_pipe s) (due s))
    \<and> due s' = spec_due c (next_pipe s) (due s) \<and> next_pipe s' = spec_next c (next_pipe s) (due s)
    \<and> no_writer (due s 0) (proc_fds p) \<and> no_writer (due s 0) (fds s')"
  using executeCMD_step [OF assms(1-4,6,5,7)] unfolding step_ok_def by blast

theorem executeCMD_refines_witness:
  "\<exists>s' p. executeCMD \<lparr>fd_limit = 1024, fork_failures = 0, can_open = (\<lambda>_. False)\<rparr> ''ls -l !2'' shell_init
      = Inr (s', Some (Exec_Child p), False) \<and> argv p = [''ls'', ''-l'']
    \<and> fd_get (proc_fds p) 1 = Some (Pipe_Write 0) \<and> fd_get (proc_fds p) 2 = Some (Pipe_Write 0)
    \<and> due s' = [1 \<mapsto> 0]"
proof -
  let ?w = "\<lparr>fd_limit = 1024, fork_failures = 0, can_open = (\<lambda>_. False)\<rparr>"
  have s: "wf shell_init" "buf shell_init = []" using ready_init by (simp_all add: ready_def)
  have cmd: "command_ok ''ls'' [''-l''] (Numbered True 2)" "room ?w shell_init"
    by (simp_all add: stage_eval room_def shell_init_def)
  have "nat_str 2 = ''2''" by code_simp
  then have "show_command ''ls'' [''-l''] (Numbered True 2) = ''ls -l !2''" by (simp add: show_command_def)
  moreover have "next_pipe shell_init = 0" by (simp add: shell_init_def)
  ultimately show ?thesis
    using executeCMD_refines [OF s cmd] by (simp add: due_init) blast
qed



text \<open>
  C3. A pipeline runs as one: for a line of stages with nothing else pending, the shell forks one
  child per stage in order, each reads the pipe the one before writes, the first reads the pipe due
  for this line, the last writes where the line ends, every reader will see the end of its input,
  and afterwards nothing is pending except a numbered pipe that ends the line.
\<close>

theorem pipeline_connects:
  assumes "ready s" "\<forall>k. due s (Suc k) = None"
    and "\<forall>st \<in> set (final # stages). stage_ok st" "end_ok w final c" "fork_failures w = 0"
    and "end_next c (next_pipe s + length stages) \<le> 10"
    and "length (fds s) + 2 * Suc (length stages) \<le> fd_limit w"
  shows "\<exists>s' ps. line_loop w (show_line stages final c) s cs = Some (Inr (s', cs @ map Exec_Child ps, False))
    \<and> map argv ps = map (\<lambda>(prog, args). prog # args) (stages @ [final])
    \<and> map std_in ps = Some (stdin_of (due s 0)) # map (Some \<circ> Pipe_Read) [next_pipe s..<next_pipe s + length stages]
    \<and> map std_out ps = map (Some \<circ> Pipe_Write) [next_pipe s..<next_pipe s + length stages]
        @ [Some (end_out c (next_pipe s + length stages))]
    \<and> (\<forall>p \<in> set ps. input_ends p) \<and> ready s' \<and> due s' = end_due c (next_pipe s + length stages)"
proof -
  obtain s' ps where "line_loop w (show_line stages final c) s cs = Some (Inr (s', cs @ map Exec_Child ps, False))"
    "ready s'" "due s' = end_due c (next_pipe s + length stages)"
    "chained stages final c (next_pipe s) (due s 0) ps"
    using pipeline_runs [OF assms, of cs] by blast
  then show ?thesis unfolding chained_def by (intro exI [of _ s'] exI [of _ ps]) simp
qed

theorem pipeline_connects_witness:
  "\<exists>s' p1 p2 p3. line_loop \<lparr>fd_limit = 1024, fork_failures = 0, can_open = (\<lambda>_. False)\<rparr>
      ''cat a.txt | number | cat'' shell_init [] = Some (Inr (s', [Exec_Child p1, Exec_Child p2, Exec_Child p3], False))
    \<and> argv p1 = [''cat'', ''a.txt''] \<and> std_in p2 = Some (Pipe_Read 0) \<and> std_out p2 = Some (Pipe_Write 1)
    \<and> std_in p3 = Some (Pipe_Read 1) \<and> std_out p3 = Some (Std 1)"
proof -
  let ?w = "\<lparr>fd_limit = 1024, fork_failures = 0, can_open = (\<lambda>_. False)\<rparr>"
  have "\<forall>st \<in> set ((''cat'', []) # [(''cat'', [''a.txt'']), (''number'', [])]). stage_ok st"
    "end_ok ?w (''cat'', []) Single"
    by (simp_all add: stage_eval)
  note pipe = pipeline_connects [OF ready_init _ this, where cs = "[]"]
  have "show_line [(''cat'', [''a.txt'']), (''number'', [])] (''cat'', []) Single = ''cat a.txt | number | cat''"
    by (simp add: show_command_def)
  moreover have "[0..<2] = [0, Suc 0]" by code_simp
  moreover have "next_pipe shell_init = 0" "length (fds shell_init) = 3" by (simp_all add: shell_init_def)
  ultimately show ?thesis using pipe
    by (auto simp: due_init stdin_of_def numeral_2_eq_2)
qed



lemma builtin_scan:
  assumes "plain_word prog" "\<forall>a \<in> set args. plain_word a" "length prog + length (show_args args) < 99" "buf s = []"
  shows "\<exists>n arg. executeCMD w (prog @ show_args args) s =
      (let t = s\<lparr>instruction := prog @ show_args args\<rparr>
       in if prog = ''setenv'' then Inr (builtin_setenv arg t, None, False)
          else if prog = ''printenv'' then Inr (builtin_printenv arg t, None, False)
          else if prog = ''exit'' then Inr (t, None, True)
          else bind_res (run_single n prog arg t) (\<lambda>(s', ch). Inr (s', ch, False)))
    \<and> scan_args (prog @ show_args args) = Inr (n, prog, arg)"
proof -
  have w: "prog @ show_args args \<noteq> []" "\<forall>x \<in> set (prog @ show_args args). ins_char x"
    using assms(1) plain_word_chars [OF assms(1)] show_args_chars [OF assms(2)] by (auto simp: plain_word_def)
  have "s\<lparr>instruction := i, buf := []\<rparr> = s\<lparr>instruction := i\<rparr>" for i using assms(4) by (cases s) simp
  then obtain sc where "scan_cmd (prog @ show_args args) s = Inr (sc, s\<lparr>instruction := prog @ show_args args\<rparr>)"
    "sc_n sc = 1"
    using scan_cmd_show [OF w, of Single s] assms(4) by (auto simp: shape_gap_def)
  moreover obtain n arg where "scan_args (prog @ show_args args) = Inr (n, prog, arg)"
    using scan_args_show [OF assms(1,2), of "[]"] assms(3) by auto
  ultimately show ?thesis by (auto simp: executeCMD_def Let_def)
qed

lemma scan_args_words:
  assumes "plain_word prog" "plain_word a" "length prog + length (show_args (a # args)) < 99"
    and "\<forall>b \<in> set args. plain_word b"
  shows "\<exists>n. scan_args (prog @ show_args (a # args)) = Inr (n, prog, a @ show_args args)"
proof -
  obtain c cs d ds where cd: "prog = c # cs" "\<not> is_space c" "a = d # ds" "\<not> is_space d"
    using plain_word_Cons [OF assms(1)] plain_word_Cons [OF assms(2)] by blast
  have sp: "is_space (CHR '' '')" by (simp add: is_space_def code_of_def)
  have "takeWhile ins_char (a @ show_args args) = a @ show_args args"
    using show_args_chars [OF assms(4)] plain_word_chars [OF assms(2)] by (auto simp: takeWhile_eq_all_conv)
  moreover have "takeWhile (\<lambda>c. \<not> is_space c) (prog @ show_args (a # args)) = prog"
    "dropWhile (\<lambda>c. \<not> is_space c) (prog @ show_args (a # args)) = show_args (a # args)"
    using take_word [of prog "show_args (a # args)"] plain_word_chars [OF assms(1)] sp by auto
  ultimately show ?thesis
    using assms(3) cd sp by (simp add: scan_args_def Let_def)
qed

text \<open>
  The built-in commands act in the shell itself: \<open>setenv\<close> sets the variable, a following
  \<open>printenv\<close> prints it, neither forks nor takes a turn of the pipe schedule, and \<open>exit\<close> ends the
  shell.
\<close>

theorem builtins_act_in_shell:
  assumes "plain_word var" "plain_word val" "length var + length val < 80" "buf s = []"
  shows "\<exists>s1 s2. executeCMD w (''setenv '' @ var @ '' '' @ val) s = Inr (s1, None, False)
    \<and> executeCMD w (''printenv '' @ var) s1 = Inr (s2, None, False)
    \<and> env s1 = (env s)(var \<mapsto> val) \<and> shell_out s2 = shell_out s @ val @ [newline]
    \<and> pipeStack s2 = pipeStack s \<and> fds s2 = fds s \<and> (\<exists>s3. executeCMD w ''exit'' s = Inr (s3, None, True))"
proof -
  have plain: "plain_word ''setenv''" "plain_word ''printenv''" "plain_word ''exit''" by (simp_all add: stage_eval)
  obtain n arg where set: "executeCMD w (''setenv'' @ show_args [var, val]) s
      = Inr (builtin_setenv arg (s\<lparr>instruction := ''setenv'' @ show_args [var, val]\<rparr>), None, False)"
    "scan_args (''setenv'' @ show_args [var, val]) = Inr (n, ''setenv'', arg)"
    using builtin_scan [OF plain(1), of "[var, val]" s w] assms by (auto simp: Let_def)
  have arg: "arg = var @ show_args [val]"
    using scan_args_words [OF plain(1) assms(1), of "[val]"] assms(2,3) set(2) by auto
  let ?s1 = "builtin_setenv arg (s\<lparr>instruction := ''setenv'' @ show_args [var, val]\<rparr>)"
  have sp: "is_space (CHR '' '')" by (simp add: is_space_def code_of_def)
  have two: "two_words arg = (var, val)"
  proof -
    obtain c cs where c: "var = c # cs" "\<not> is_space c" using plain_word_Cons [OF assms(1)] by blast
    obtain d ds where d: "val = d # ds" "\<not> is_space d" using plain_word_Cons [OF assms(2)] by blast
    have "takeWhile (\<lambda>c. \<not> is_space c) (var @ show_args [val]) = var"
      "dropWhile (\<lambda>c. \<not> is_space c) (var @ show_args [val]) = show_args [val]"
      using take_word [of var "show_args [val]"] plain_word_chars [OF assms(1)] sp by auto
    moreover have "takeWhile (\<lambda>c. \<not> is_space c) val = val"
      using take_word [of val "[]"] plain_word_chars [OF assms(2)] by auto
    ultimately show ?thesis using c d sp by (simp add: two_words_def arg Let_def)
  qed
  then have s1: "env ?s1 = (env s)(var \<mapsto> val)" "buf ?s1 = []" "shell_out ?s1 = shell_out s"
    "pipeStack ?s1 = pipeStack s" "fds ?s1 = fds s"
    using assms(1,4) by (simp_all add: builtin_setenv_def plain_word_def)
  obtain n' arg' where prt: "executeCMD w (''printenv'' @ show_args [var]) ?s1
      = Inr (builtin_printenv arg' (?s1\<lparr>instruction := ''printenv'' @ show_args [var]\<rparr>), None, False)"
    "scan_args (''printenv'' @ show_args [var]) = Inr (n', ''printenv'', arg')"
    using builtin_scan [OF plain(2), of "[var]" ?s1 w] assms s1(2) by (auto simp: Let_def)
  have "arg' = var" using scan_args_words [OF plain(2) assms(1), of "[]"] assms(3) prt(2) by auto
  moreover have "\<exists>s3. executeCMD w ''exit'' s = Inr (s3, None, True)"
    using builtin_scan [OF plain(3), of "[]" s w] assms(4) by (auto simp: Let_def)
  ultimately show ?thesis
    using set(1) prt(1) s1 by (auto simp: builtin_printenv_def print_def)
qed

theorem builtins_act_in_shell_witness:
  "\<exists>s1 s2. executeCMD \<lparr>fd_limit = 9, fork_failures = 0, can_open = (\<lambda>_. False)\<rparr> ''setenv A b'' shell_init = Inr (s1, None, False)
    \<and> executeCMD \<lparr>fd_limit = 9, fork_failures = 0, can_open = (\<lambda>_. False)\<rparr> ''printenv A'' s1 = Inr (s2, None, False)
    \<and> shell_out s2 = ''b'' @ [newline]"
proof -
  have "plain_word ''A''" "plain_word ''b''" "length ''A'' + length ''b'' < 80" "buf shell_init = []"
    "shell_out shell_init = []"
    by (simp_all add: stage_eval shell_init_def)
  with builtins_act_in_shell [of "''A''" "''b''" shell_init
      "\<lparr>fd_limit = 9, fork_failures = 0, can_open = (\<lambda>_. False)\<rparr>"] show ?thesis by auto
qed

definition recycling_session :: "string list" where
  "recycling_session = [''a|1'', ''b|30''] @ replicate 10 ''c|d''"

definition lost_read_end :: "(shell \<times> child list \<times> bool) res option \<Rightarrow> bool" where
  "lost_read_end r = (case r of
     Some (Inr (s, cs, ex)) \<Rightarrow> slot (pipeStack s) 19 = Some (4, 5) \<and> fd_get (fds s) 4 = None
       \<and> fd_get (fds s) 5 = Some (Pipe_Write 1)
   | _ \<Rightarrow> False)"

text \<open>
  Recycling descriptors breaks pending pipes: \<open>getPipe\<close> closes a write end but keeps both numbers
  for \<open>cleanPipes\<close>, which closes them again after ten more pipes, when the number may belong to a
  pipe that is still planned. In this session of a fresh shell the pipe of \<open>b|30\<close> (descriptors 4
  and 5) loses its read end while it waits.
\<close>

theorem recycling_breaks_pending_pipe:
  "lost_read_end (run_lines \<lparr>fd_limit = 1024, fork_failures = 0, can_open = (\<lambda>_. False)\<rparr>
     recycling_session shell_init [])"
  by code_simp

lemma scan_head_too_many:
  assumes "w \<noteq> []" "\<forall>x \<in> set w. ins_char x" "set [d, e] \<subseteq> set syms" "\<not> ins_char d"
  shows "scan_head syms (w @ d # e # r) = Inl Buffer_Overflow"
proof -
  have "takeWhile ins_char (w @ d # e # r) = w" "dropWhile ins_char (w @ d # e # r) = d # e # r"
    using assms(2,4) by (simp_all add: takeWhile_append dropWhile_append)
  with assms(1,3) show ?thesis by (simp add: scan_head_def Let_def)
qed

lemma scan_int_negative: "n < 2 ^ 31 \<Longrightarrow> scan_int (CHR ''-'' # nat_str n) = Some (- int n)"
proof -
  assume n: "n < 2 ^ 31"
  obtain c cs where c: "nat_str n = c # cs" "is_digit c" using nat_str_Cons by blast
  have "\<not> is_space (CHR ''-'')" by (simp add: is_space_def code_of_def)
  then have "strtol10 (CHR ''-'' # nat_str n) = - int n" using n by (simp add: strtol10_def)
  then have "atoi (CHR ''-'' # nat_str n) = - int n" using n by (simp add: atoi_def to_int32_def)
  with c \<open>\<not> is_space (CHR ''-'')\<close> show ?thesis by (simp add: scan_int_def)
qed

text \<open>
  Three kinds of line break the shell: two pipe symbols in a row overflow \<open>symbolMeth\<close>, a
  negative number makes the loop that lengthens the stack run until memory is gone, and a word of
  a hundred or more characters overflows \<open>OP\<close>.
\<close>

theorem lines_that_break_the_shell:
  assumes "plain_word prog" "length prog < 99" "plain_word long" "100 \<le> length long"
    and "0 < n" "n < 2 ^ 31"
  shows "executeCMD w (prog @ ''||'' @ r) s = Inl Buffer_Overflow
    \<and> executeCMD w (prog @ ''|-'' @ nat_str n) s = Inl Unbounded_Loop
    \<and> executeCMD w long s = Inl Buffer_Overflow"
proof -
  have p: "prog \<noteq> []" "\<forall>x \<in> set prog. ins_char x" "long \<noteq> []" "\<forall>x \<in> set long. ins_char x"
    using assms(1,3) by (auto simp: plain_word_def)
  have "scan_head ''|!'' (prog @ ''||'' @ r) = Inl Buffer_Overflow"
    using p by (simp add: scan_head_too_many)
  then have one: "executeCMD w (prog @ ''||'' @ r) s = Inl Buffer_Overflow"
    by (simp add: executeCMD_def scan_cmd_def scan_numbered_def)
  have "scan_head ''|!'' (prog @ ''|-'' @ nat_str n) = Inr (2, prog, ''|'', CHR ''-'' # nat_str n)"
    using scan_head_symbol [of prog "CHR ''|''" "''|!''" "CHR ''-'' # nat_str n"] p by simp
  then have "scan_cmd (prog @ ''|-'' @ nat_str n) s
      = Inr (\<lparr>sc_n = 3, sc_sym = ''|'', sc_num = - int n\<rparr>, s\<lparr>instruction := prog\<rparr>)"
    using scan_int_negative [OF assms(6)] by (simp add: scan_cmd_def scan_numbered_def Let_def)
  moreover obtain k arg where "scan_args prog = Inr (k, prog, arg)"
    using scan_args_show [OF assms(1), of "[]" "[]"] assms(2) by auto
  ultimately have two: "executeCMD w (prog @ ''|-'' @ nat_str n) s = Inl Unbounded_Loop"
    using assms(5) by (simp add: executeCMD_def run_numbered_def split: prod.split)
  obtain d ds where d: "long = d # ds" "\<not> is_space d" using plain_word_Cons [OF assms(3)] by blast
  have word: "takeWhile (\<lambda>c. \<not> is_space c) long = long"
    using take_word [of long "[]"] plain_word_chars [OF assms(3)] by auto
  have "dropWhile is_space long = long" using d by simp
  then have "scan_args long = Inl Buffer_Overflow"
    using p(3) assms(4) by (simp add: scan_args_def Let_def word)
  moreover have "scan_head syms long = Inr (1, long, [], [])" for syms
    using scan_head_plain [OF p(3,4), of "[]"] by simp
  then have "\<exists>sc. scan_cmd long s = Inr (sc, s\<lparr>instruction := long\<rparr>)"
    by (simp add: scan_cmd_def scan_numbered_def scan_general_def Let_def)
  ultimately have "executeCMD w long s = Inl Buffer_Overflow"
    by (auto simp: executeCMD_def)
  with one two show ?thesis by blast
qed

theorem lines_that_break_the_shell_witness:
  "let w = \<lparr>fd_limit = 20, fork_failures = 0, can_open = (\<lambda>_. True)\<rparr>
   in executeCMD w ''ls||cat'' shell_init = Inl Buffer_Overflow
     \<and> executeCMD w ''ls|-3'' shell_init = Inl Unbounded_Loop"
proof -
  have "plain_word ''ls''" "plain_word (replicate 100 CHR ''a'')" by (simp_all add: stage_eval)
  moreover have "nat_str 3 = ''3''" by code_simp
  ultimately show ?thesis
    using lines_that_break_the_shell [of "''ls''" "replicate 100 CHR ''a''" 3
        "\<lparr>fd_limit = 20, fork_failures = 0, can_open = (\<lambda>_. True)\<rparr>" "''cat''" shell_init] by simp
qed

text \<open>
  A redirection to a file that cannot be opened forks a second shell: the child prints a
  message and returns from \<open>executeCMD\<close> with the file name in \<open>_buf\<close>, so \<open>main\<close> runs the file name as its
  next command and then goes on reading the same input as its parent; nothing is executed.
\<close>

theorem failed_redirect_forks_shell:
  assumes "wf s" "buf s = []" "command_ok prog args (Redirect name)" "\<not> can_open w name"
  shows "\<exists>s' t. executeCMD w (show_command prog args (Redirect name)) s = Inr (s', Some (Forked_Shell t), False)
    \<and> buf t = name \<and> buf s' = [] \<and> wf t \<and> due t = (\<lambda>k. due s (Suc k))
    \<and> shell_out t = shell_out s @ ''File can'' @ [CHR 0x27] @ ''t open~''"
proof -
  let ?w = "prog @ show_args args"
  have plain: "plain_word prog" "\<forall>a \<in> set args. plain_word a" "tail_ok (Redirect name)"
    "length prog + length (show_args args) < 99"
    using assms(3) by (simp_all add: command_ok_def)
  have w: "?w \<noteq> []" "\<forall>x \<in> set ?w. ins_char x"
    using plain(1) plain_word_chars [OF plain(1)] show_args_chars [OF plain(2)] by (auto simp: plain_word_def)
  obtain sc t where scan: "scan_cmd (show_command prog args (Redirect name)) s = Inr (sc, t)"
    "sc_n sc = 3" "sc_num sc = 0" "sc_sym sc = ''>''"
    and t: "t = s\<lparr>instruction := ?w @ '' '', buf := name\<rparr>"
    using scan_cmd_show [OF w plain(3) assms(2)] by (auto simp: show_command_def shape_gap_def)
  obtain n arg where args: "scan_args (instruction t) = Inr (n, prog, arg)"
    using scan_args_show [OF plain(1,2) _ plain(4), of "'' ''"] by (auto simp: t)
  have wf: "wf t" "due t = due s" "buf t = name" "shell_out t = shell_out s" using assms(1) by (simp_all add: t)
  obtain prev s1 where g: "getPipe t = (prev, s1)" by force
  from getPipe_turn [OF wf(1) g] wf have s1: "wf s1" "due s1 = (\<lambda>k. due s (Suc k))" "buf s1 = name"
    "shell_out s1 = shell_out s"
    by (simp_all add: same_rest_def)
  have "run_redirect w n prog arg t = Inr ((wait_all (forked s1))\<lparr>buf := []\<rparr>,
      Some (Forked_Shell (print (''File can'' @ [CHR 0x27] @ ''t open~'') s1)))"
    using assms(4) s1(3) by (simp add: run_redirect_def g)
  then have "executeCMD w (show_command prog args (Redirect name)) s = Inr ((wait_all (forked s1))\<lparr>buf := []\<rparr>,
      Some (Forked_Shell (print (''File can'' @ [CHR 0x27] @ ''t open~'') s1)), False)"
    using scan args by (simp add: executeCMD_def)
  with s1 show ?thesis by (simp add: print_def)
qed

theorem failed_redirect_forks_shell_witness:
  "\<exists>s' t. executeCMD \<lparr>fd_limit = 9, fork_failures = 0, can_open = (\<lambda>_. False)\<rparr> ''ls > a'' shell_init
     = Inr (s', Some (Forked_Shell t), False) \<and> buf t = ''a''"
proof -
  have s: "wf shell_init" "buf shell_init = []" using ready_init by (simp_all add: ready_def)
  have "command_ok ''ls'' [] (Redirect ''a'')"
    by (simp add: stage_eval text_ok_def is_space_def newline_def)
  moreover have "show_command ''ls'' [] (Redirect ''a'') = ''ls > a''" by (simp add: show_command_def)
  ultimately show ?thesis
    using failed_redirect_forks_shell [OF s, of "''ls''" "[]" "''a''"
        "\<lparr>fd_limit = 9, fork_failures = 0, can_open = (\<lambda>_. False)\<rparr>"] by auto
qed

text \<open>
  An ordinary pipe can be mixed up with a numbered one: when a pipe \<open>i\<close> is planned for the
  command after next, a line of two commands joined by \<open>|\<close> does not get a pipe of its own; its
  first command writes into \<open>i\<close> and its second reads \<open>i\<close>, so it takes what was meant for a later line.
\<close>

theorem ordinary_pipe_merges:
  assumes "ready s" "due s 1 = Some i" "stage_ok st1" "stage_ok st2" "fst st2 \<notin> set builtin_names"
    and "fork_failures w = 0" "next_pipe s \<le> 10" "length (fds s) + 4 \<le> fd_limit w"
  shows "\<exists>s' p1 p2. line_loop w (show_line [st1] st2 Single) s cs
      = Some (Inr (s', cs @ [Exec_Child p1, Exec_Child p2], False))
    \<and> std_out p1 = Some (Pipe_Write i) \<and> std_in p2 = Some (Pipe_Read i)
    \<and> (\<forall>k. due s' k = due s (Suc (Suc k)))"
proof -
  let ?rest = "show_line [] st2 Single"
  have "tail_ok (Ordinary ?rest)" using assms(4,5) by (intro show_line_text [where w = w]) auto
  then have cmd: "command_ok (fst st1) (snd st1) (Ordinary ?rest)"
    using assms(3) by (simp add: stage_ok_def command_ok_def)
  have room: "room w s" using assms(8) by (simp add: room_def)
  have "\<exists>s1 p. line_loop w (show_command (fst st1) (snd st1) (Ordinary ?rest)) s cs
      = line_loop w (case Ordinary ?rest of Ordinary rest \<Rightarrow> rest | _ \<Rightarrow> []) s1 (cs @ [Exec_Child p])
    \<and> ready s1 \<and> step_ok (Ordinary ?rest) s s1 p \<and> argv p = fst st1 # snd st1
    \<and> length (fds s1) \<le> length (fds s) + 2"
    using assms by (intro line_step [OF assms(1) cmd room]) auto
  then obtain s1 p where one: "line_loop w (show_line [st1] st2 Single) s cs = line_loop w ?rest s1 (cs @ [Exec_Child p])"
    "ready s1" "step_ok (Ordinary ?rest) s s1 p" "length (fds s1) \<le> length (fds s) + 2"
    by auto
  have s1: "due s1 = (\<lambda>k. due s (Suc k))" "next_pipe s1 = next_pipe s" "std_out p = Some (Pipe_Write i)"
    using one(3) step_child [OF one(3)] assms(2) by (simp_all add: step_ok_def)
  have "\<exists>s2 q. line_loop w (show_command (fst st2) (snd st2) Single) s1 (cs @ [Exec_Child p])
      = line_loop w (case Single of Ordinary rest \<Rightarrow> rest | _ \<Rightarrow> []) s2 ((cs @ [Exec_Child p]) @ [Exec_Child q])
    \<and> ready s2 \<and> step_ok Single s1 s2 q \<and> argv q = fst st2 # snd st2 \<and> length (fds s2) \<le> length (fds s1) + 2"
    using assms one s1 by (intro line_step) (auto simp: stage_ok_def room_def)
  then obtain s2 q where two: "line_loop w ?rest s1 (cs @ [Exec_Child p]) = Some (Inr (s2, cs @ [Exec_Child p, Exec_Child q], False))"
    "step_ok Single s1 s2 q" by auto
  have "due s2 = (\<lambda>k. due s (Suc (Suc k)))" "std_in q = Some (Pipe_Read i)"
    using two(2) step_child [OF two(2)] s1(1) assms(2) by (simp_all add: step_ok_def stdin_of_def)
  with one(1) two(1) s1(3) show ?thesis by auto
qed

theorem ordinary_pipe_merges_witness:
  "\<exists>s s' p1 p2. line_loop \<lparr>fd_limit = 1024, fork_failures = 0, can_open = (\<lambda>_. False)\<rparr> ''b | c'' s []
      = Some (Inr (s', [Exec_Child p1, Exec_Child p2], False))
    \<and> due s 1 = Some 0 \<and> std_out p1 = Some (Pipe_Write 0) \<and> std_in p2 = Some (Pipe_Read 0)"
proof -
  let ?w = "\<lparr>fd_limit = 1024, fork_failures = 0, can_open = (\<lambda>_. False)\<rparr>"
  have init: "next_pipe shell_init = 0" "length (fds shell_init) = 3" by (simp_all add: shell_init_def)
  have st: "stage_ok (''a'', [])" "stage_ok (''b'', [])" "stage_ok (''c'', [])" "''c'' \<notin> set builtin_names"
    by (simp_all add: stage_eval)
  have "\<exists>s p. line_loop ?w (show_command ''a'' [] (Numbered False 2)) shell_init []
      = line_loop ?w (case Numbered False 2 of Ordinary rest \<Rightarrow> rest | _ \<Rightarrow> []) s ([] @ [Exec_Child p])
    \<and> ready s \<and> step_ok (Numbered False 2) shell_init s p \<and> argv p = [''a'']
    \<and> length (fds s) \<le> length (fds shell_init) + 2"
    by (intro line_step [OF ready_init]) (simp_all add: stage_eval room_def init due_init)
  then obtain s p where s: "ready s" "step_ok (Numbered False 2) shell_init s p" "length (fds s) \<le> 5"
    by (auto simp: init)
  have "due s 1 = Some 0" "next_pipe s = 1" using s(2) by (simp_all add: step_ok_def due_init init)
  moreover have "show_line [(''b'', [])] (''c'', []) Single = ''b | c''" by (simp add: show_command_def)
  ultimately show ?thesis
    using ordinary_pipe_merges [OF s(1) _ st(2,3), of 0 ?w "[]"] st(4) s(3) by auto
qed

end
