(* ===== verification/Np_Pipes.thy ===== *)
theory Np_Pipes
  imports Descriptors "HOL-Library.Sublist"
begin

text \<open>
  What the three shells of \<open>project2\<close> do alike: cutting a line into pieces, the table of
  numbered pipes that each line counts down, the loop over the stages of a line, and the parent's
  half of \<open>parser\<close>. The programs differ in the child's half and in what surrounds the loop; both are
  in their own theories and come in here as arguments. The three arrays \<open>input_num\<close>,
  \<open>input_count\<close> and \<open>output_num\<close> of \<open>np_simple.cpp\<close> and \<open>np_multi_proc.cpp\<close> are the fields of one
  list of records, as in \<open>np_single_proc.cpp\<close>; the field \<open>pipe_owner\<close>, there the user's descriptor, is 0
  throughout in the other two.
\<close>

section \<open>Cutting a line\<close>

text \<open>The arrays of pointers have 4096 entries, the last token is followed by a null pointer.\<close>

definition split_at :: "char \<Rightarrow> string \<Rightarrow> string list res" where
  "split_at c s =
     (let ts = tokens (is_delim c) s in if length ts \<ge> 4096 then Inl Buffer_Overflow else Inr ts)"

definition split_pipe :: "string \<Rightarrow> string list res" where
  "split_pipe s = split_at CHR ''|'' s"

definition split_space :: "string \<Rightarrow> string list res" where
  "split_space s = split_at CHR '' '' s"

definition split_env :: "string \<Rightarrow> string list res" where
  "split_env s = split_at CHR '':'' s"

text \<open>
  \<open>split_pipe_error(filename[n - 1], n)\<close>: the last piece is cut at its first \<open>!\<close> (behind those it
  starts with), and the tokens after the first are entered behind it. The result is the pieces and the
  number returned.
\<close>

definition split_pipe_error :: "string list \<Rightarrow> (string list \<times> nat) res" where
  "split_pipe_error files =
     (let str = last files;
          ts = tokens (is_delim CHR ''!'') str;
          first = takeWhile (\<lambda>c. c = CHR ''!'') str @ (case ts of [] \<Rightarrow> [] | t # _ \<Rightarrow> t)
      in if length files + length ts > 4096 then Inl Buffer_Overflow
         else Inr (butlast files @ first # tl ts, length files + length (tl ts)))"

text \<open>The pieces of a line, and whether it ends in an error pipe (\<open>n_pipe_err\<close>).\<close>

definition error_pieces :: "string list \<Rightarrow> (string list \<times> bool) res" where
  "error_pieces files =
     bind_res (split_pipe_error files) (\<lambda>(files', new_n).
       if new_n - 1 = length files then Inr (files', True)
       else Inr (take (length files) files', False))"

text \<open>A last piece that does not start with a blank is the number of a pipe.\<close>

definition pipe_number :: "string list \<Rightarrow> int option" where
  "pipe_number files =
     (if length files \<ge> 2 \<and> hd (last files) \<noteq> CHR '' '' then Some (atoi (last files)) else None)"

section \<open>State\<close>

record pipe_slot =
  pipe_in :: int
  pipe_count :: int
  pipe_out :: int
  pipe_owner :: nat

text \<open>
  A child is the argument vector, the paths that it tries to execute in turn and its descriptors
  then; or it dies of a fault before.
\<close>

record np_child =
  ch_argv :: "string list"
  ch_paths :: "string list"
  ch_fds :: fd_table

datatype np_kid =
    Runs np_child
  | Dies fault

text \<open>
  The shell: its descriptors, the number of pipes made so far (each has its number as identity), the
  table of numbered pipes with the next place, the children in order, and the calls of \<open>waitpid\<close>: which child is
  waited for (none when \<open>fork\<close> failed) and the shell's descriptors while it waits.
\<close>

record np =
  np_fds :: fd_table
  np_pipes :: nat
  slots :: "pipe_slot list"
  pos :: nat
  kids :: "np_kid list"
  waits :: "(nat option \<times> fd_table) list"

text \<open>
  The choices of the kernel and the allocator: the number of descriptors, whether the n-th \<open>fork\<close>
  works, the files that can be created, and the two integers that the n-th \<open>malloc\<close> finds in
  its memory.
\<close>

record np_kernel =
  np_limit :: nat
  np_forks :: "nat \<Rightarrow> bool"
  np_creates :: "string \<Rightarrow> bool"
  np_heap :: "nat \<Rightarrow> int \<times> int"

definition slot_init :: pipe_slot where
  "slot_init = \<lparr>pipe_in = 0, pipe_count = 0, pipe_out = 0, pipe_owner = 0\<rparr>"

text \<open>Whether the shell goes on after a line.\<close>

datatype 's progress =
    Goes_On 's
  | Exits 's

section \<open>Numbered pipes\<close>

text \<open>The first of \<open>bound\<close> places that has the count.\<close>

definition same_slot :: "nat \<Rightarrow> nat \<Rightarrow> int \<Rightarrow> 'a np_scheme \<Rightarrow> nat option" where
  "same_slot bound own c s =
     List.find (\<lambda>i. pipe_count (slots s ! i) = c \<and> pipe_owner (slots s ! i) = own) [0..<bound]"

text \<open>
  A line that ends in a numbered pipe joins the pipe with that count, whose output is returned
  (\<open>get_input = 1\<close>), or enters the count at the next place (\<open>get_input = 2\<close>).
\<close>

definition plan_number :: "nat \<Rightarrow> nat \<Rightarrow> int \<Rightarrow> 'a np_scheme \<Rightarrow> ((nat \<times> int option) \<times> 'a np_scheme) res" where
  "plan_number bound own number s =
     (if number = 2 ^ 31 - 1 then Inl Signed_Overflow
      else case same_slot bound own (number + 1) s of
        Some i \<Rightarrow> Inr ((1, Some (pipe_out (slots s ! i))), s)
      | None \<Rightarrow> Inr ((2, None), s\<lparr>slots := (slots s)[pos s :=
                 (slots s ! pos s)\<lparr>pipe_count := number + 1, pipe_owner := own\<rparr>]\<rparr>))"

text \<open>The countdown: the last place with count 1 gives the input; then every count goes down.\<close>

definition due_slot :: "nat \<Rightarrow> 'a np_scheme \<Rightarrow> nat option" where
  "due_slot own s =
     List.find (\<lambda>j. pipe_count (slots s ! j) = 1 \<and> pipe_owner (slots s ! j) = own) (rev [0..<1000])"

definition count_down :: "nat \<Rightarrow> pipe_slot list \<Rightarrow> pipe_slot list" where
  "count_down own sl =
     map (\<lambda>x. if pipe_owner x = own then x\<lparr>pipe_count := pipe_count x - 1\<rparr> else x) (take 1000 sl)
       @ drop 1000 sl"

text \<open>The pipe of a line that has entered a count is stored at the same place.\<close>

definition store_slot :: "int \<Rightarrow> int \<Rightarrow> 'a np_scheme \<Rightarrow> 'a np_scheme" where
  "store_slot i u s =
     s\<lparr>slots := (slots s)[pos s := (slots s ! pos s)\<lparr>pipe_in := i, pipe_out := u\<rparr>],
       pos := (if pos s + 1 > 1000 then 0 else pos s + 1)\<rparr>"

section \<open>Starting a command\<close>

text \<open>\<open>pipe\<close> is called until it works.\<close>

definition np_pipe :: "np_kernel \<Rightarrow> 'a np_scheme \<Rightarrow> ((nat \<times> nat) \<times> 'a np_scheme) res" where
  "np_pipe w s =
     (let (r, t1) = open_fd (Pipe_Read (np_pipes s)) (np_fds s);
          (wr, t2) = open_fd (Pipe_Write (np_pipes s)) t1
      in if wr < np_limit w then Inr ((r, wr), s\<lparr>np_fds := t2, np_pipes := Suc (np_pipes s)\<rparr>)
         else Inl Unbounded_Loop)"

text \<open>
  \<open>memcpy(pipedata, pipe_fd, 2)\<close> copies two bytes of the eight: the lower half of the first
  number. The rest is what \<open>malloc\<close> found.
\<close>

definition copied :: "int \<times> int \<Rightarrow> nat \<Rightarrow> int \<times> int" where
  "copied junk r = (fst junk div 65536 * 65536 + int (r mod 65536), snd junk)"

definition shut :: "int \<Rightarrow> 'a np_scheme \<Rightarrow> 'a np_scheme" where
  "shut k s = s\<lparr>np_fds := close_int k (np_fds s)\<rparr>"

text \<open>
  The parent's half of \<open>parser\<close>. \<open>path\<close> is the value of \<open>PATH\<close>; the child is computed from the pipe,
  the operands, the directories and the descriptors at the \<open>fork\<close>; \<open>waiting\<close> is \<open>wait && last\<close>.
\<close>

definition start_command ::
    "np_kernel \<Rightarrow> string option res \<Rightarrow> (nat \<times> nat \<Rightarrow> string list \<Rightarrow> string list \<Rightarrow> fd_table \<Rightarrow> np_kid) \<Rightarrow>
     bool \<Rightarrow> int \<Rightarrow> string \<Rightarrow> 'a np_scheme \<Rightarrow> ((nat \<times> int \<times> int) \<times> 'a np_scheme) res" where
  "start_command w path kid waiting input cmd s =
     bind_res (split_space cmd) (\<lambda>ops.
     bind_res path (\<lambda>p. case p of None \<Rightarrow> Inl Null_Pointer | Some dirs \<Rightarrow>
     bind_res (split_env dirs) (\<lambda>ds.
     bind_res (np_pipe w s) (\<lambda>((r, wr), s1).
       let forked = np_forks w (np_pipes s);
           s2 = (if forked then s1\<lparr>kids := kids s1 @ [kid (r, wr) ops ds (np_fds s1)]\<rparr> else s1);
           s3 = (if waiting
                 then s2\<lparr>waits := waits s2 @ [(if forked then Some (length (kids s)) else None, np_fds s2)]\<rparr>
                 else s2);
           s4 = (if input \<noteq> 0 then shut input s3 else s3)
       in Inr ((r, copied (np_heap w (np_pipes s)) r), s4)))))"

text \<open>A redirection of a child: \<open>creat\<close>, \<open>dup2\<close> and \<open>close\<close>; nothing happens when the file cannot be created.\<close>

definition redirect_to :: "np_kernel \<Rightarrow> string \<Rightarrow> fd_table \<Rightarrow> fd_table" where
  "redirect_to w name t =
     (if np_creates w name
      then (let (fd, t1) = open_fd (File_Out name) t in close_fd fd (dup2 fd 1 t1))
      else t)"

section \<open>The stages of a line\<close>

text \<open>
  The loop over the stages, with the variables \<open>input\<close>, \<open>first\<close> and \<open>get_input\<close>. \<open>parse\<close> is \<open>parser\<close> as the
  program calls it, on \<open>input\<close>, \<open>first\<close>, \<open>last\<close>, \<open>enter\<close>, \<open>get_input\<close> and the text of the stage.
\<close>

fun stages ::
    "(int \<Rightarrow> bool \<Rightarrow> bool \<Rightarrow> bool \<Rightarrow> nat \<Rightarrow> string \<Rightarrow> 'a np_scheme \<Rightarrow> ((int \<times> int) \<times> 'a np_scheme) res) \<Rightarrow>
     nat \<Rightarrow> int \<Rightarrow> bool \<Rightarrow> nat \<Rightarrow> string list \<Rightarrow> 'a np_scheme \<Rightarrow> 'a np_scheme res" where
  "stages parse own input first gi [] s = Inr s"
| "stages parse own input first gi (cmd # rest) s =
     (let last = (rest = []);
          gi' = (if last \<and> gi = 1 then 3 else if last \<and> gi = 2 then 4 else gi);
          due = (if first then due_slot own s else None);
          s1 = (if first then s\<lparr>slots := count_down own (slots s)\<rparr> else s);
          s2 = (case due of Some j \<Rightarrow> shut (pipe_out (slots s ! j)) s1 | None \<Rightarrow> s1);
          input' = (case due of Some j \<Rightarrow> pipe_in (slots s ! j) | None \<Rightarrow> input)
      in bind_res (parse input' first last (due \<noteq> None) gi' cmd s2) (\<lambda>((d0, d1), s3).
           let s4 = (if \<not> last \<or> gi' = 0 then shut d1 s3 else s3);
               s5 = (if last \<and> gi' = 4 then store_slot d0 d1 s4 else s4)
           in stages parse own d0 False gi' rest s5))"

section \<open>The table as a schedule\<close>

text \<open>
  The pipe that the \<open>k\<close>-th next line of a user reads; the effect of a line on the table (\<open>turned\<close>); and
  entering a count and storing the pipe at it (\<open>planned\<close>).
\<close>

definition pipe_at :: "nat \<Rightarrow> 'a np_scheme \<Rightarrow> nat \<Rightarrow> (int \<times> int) option" where
  "pipe_at own s k =
     map_option (\<lambda>j. (pipe_in (slots s ! j), pipe_out (slots s ! j)))
       (List.find (\<lambda>j. pipe_count (slots s ! j) = int k + 1 \<and> pipe_owner (slots s ! j) = own) (rev [0..<1000]))"

definition turned :: "nat \<Rightarrow> 'a np_scheme \<Rightarrow> 'a np_scheme" where
  "turned own s = s\<lparr>slots := count_down own (slots s)\<rparr>"

definition planned :: "nat \<Rightarrow> nat \<Rightarrow> int \<times> int \<Rightarrow> 'a np_scheme \<Rightarrow> 'a np_scheme" where
  "planned own k p s =
     store_slot (fst p) (snd p)
       (s\<lparr>slots := (slots s)[pos s := (slots s ! pos s)\<lparr>pipe_count := int k + 1, pipe_owner := own\<rparr>]\<rparr>)"

definition table_sized :: "'a np_scheme \<Rightarrow> bool" where
  "table_sized s \<longleftrightarrow> 1000 < length (slots s)"

definition has_place :: "nat \<Rightarrow> 'a np_scheme \<Rightarrow> nat \<Rightarrow> bool" where
  "has_place own s k \<longleftrightarrow> pos s < 1000 \<and> pipe_count (slots s ! pos s) \<le> 0 \<and> pipe_at own s k = None"

lemma count_down_nth:
  "j < 1000 \<Longrightarrow> j < length sl \<Longrightarrow> count_down own sl ! j =
     (if pipe_owner (sl ! j) = own then (sl ! j)\<lparr>pipe_count := pipe_count (sl ! j) - 1\<rparr> else sl ! j)"
  by (simp add: count_down_def nth_append)

lemma count_down_rest: "1000 \<le> j \<Longrightarrow> j < length sl \<Longrightarrow> count_down own sl ! j = sl ! j"
  by (simp add: count_down_def nth_append)

lemma count_down_length [simp]: "length (count_down own sl) = length sl"
  by (simp add: count_down_def)

lemma find_rev_cong: "(\<And>j. j < n \<Longrightarrow> P j = Q j) \<Longrightarrow> List.find P (rev [0..<n]) = List.find Q (rev [0..<n])"
  by (rule find_cong) simp_all

lemma find_rev_Some:
  "List.find P (rev [0..<n]) = Some i \<longleftrightarrow> i < n \<and> P i \<and> (\<forall>j < n. i < j \<longrightarrow> \<not> P j)"
proof (induction n)
  case (Suc n)
  have "List.find P (rev [0..<Suc n]) = (if P n then Some n else List.find P (rev [0..<n]))" by simp
  then show ?case using Suc by (auto simp: less_Suc_eq)
qed simp

lemma find_rev_None: "List.find P (rev [0..<n]) = None \<longleftrightarrow> (\<forall>i < n. \<not> P i)"
  by (simp add: find_None_iff)

text \<open>What the places from the first on hold decides what is due.\<close>

lemma pipe_at_turned:
  assumes "table_sized s"
  shows "pipe_at own (turned own s) k = pipe_at own s (Suc k)"
proof -
  let ?sl = "slots s" and ?dl = "count_down own (slots s)"
  have nth: "?dl ! j = (if pipe_owner (?sl ! j) = own then (?sl ! j)\<lparr>pipe_count := pipe_count (?sl ! j) - 1\<rparr> else ?sl ! j)"
    if "j < 1000" for j
    using that assms by (simp add: count_down_nth table_sized_def)
  have "List.find (\<lambda>j. pipe_count (?dl ! j) = int k + 1 \<and> pipe_owner (?dl ! j) = own) (rev [0..<1000])
      = List.find (\<lambda>j. pipe_count (?sl ! j) = int (Suc k) + 1 \<and> pipe_owner (?sl ! j) = own) (rev [0..<1000])"
    by (rule find_rev_cong) (auto simp: nth)
  moreover have "pipe_in (?dl ! j) = pipe_in (?sl ! j)" "pipe_out (?dl ! j) = pipe_out (?sl ! j)" if "j < 1000" for j
    using that by (simp_all add: nth)
  ultimately show ?thesis
    by (auto simp: pipe_at_def turned_def find_rev_Some split: option.splits intro!: option.map_cong)
qed

lemma planned_slots:
  assumes "table_sized s" "pos s < 1000"
  shows "slots (planned own k p s) = (slots s)[pos s :=
    \<lparr>pipe_in = fst p, pipe_count = int k + 1, pipe_out = snd p, pipe_owner = own\<rparr>]"
proof -
  have "pos s < length (slots s)" using assms by (simp add: table_sized_def)
  then show ?thesis by (cases "slots s ! pos s") (simp add: planned_def store_slot_def)
qed

lemma pipe_at_planned:
  assumes "table_sized s" "has_place own s k"
  shows "pipe_at own (planned own k p s) j = (if j = k then Some p else pipe_at own s j)"
proof -
  let ?sl = "slots s" and ?p = "pos s"
  let ?new = "\<lparr>pipe_in = fst p, pipe_count = int k + 1, pipe_out = snd p, pipe_owner = own\<rparr>"
  have pos: "?p < 1000" "?p < length ?sl" "pipe_count (?sl ! ?p) \<le> 0"
    using assms by (simp_all add: table_sized_def has_place_def)
  have none: "\<not> (pipe_count (?sl ! i) = int k + 1 \<and> pipe_owner (?sl ! i) = own)" if "i < 1000" for i
    using assms(2) that by (simp add: has_place_def pipe_at_def find_rev_None)
  have slots: "slots (planned own k p s) = ?sl[?p := ?new]"
    using planned_slots [OF assms(1) pos(1)] .
  show ?thesis
  proof (cases "j = k")
    case True
    have "List.find (\<lambda>i. pipe_count (?sl[?p := ?new] ! i) = int k + 1 \<and> pipe_owner (?sl[?p := ?new] ! i) = own)
        (rev [0..<1000]) = Some ?p"
      unfolding find_rev_Some using pos none by (auto simp: nth_list_update)
    then show ?thesis using True pos(2) by (simp add: pipe_at_def slots)
  next
    case False
    have "(pipe_count (?sl[?p := ?new] ! i) = int j + 1 \<and> pipe_owner (?sl[?p := ?new] ! i) = own)
        = (pipe_count (?sl ! i) = int j + 1 \<and> pipe_owner (?sl ! i) = own)" for i
      using pos False by (cases "i = ?p") auto
    moreover have "?sl[?p := ?new] ! i = ?sl ! i" if "pipe_count (?sl ! i) = int j + 1" for i
      using pos that by (cases "i = ?p") auto
    ultimately show ?thesis using False
      by (auto simp: pipe_at_def slots find_rev_Some split: option.splits intro!: option.map_cong)
  qed
qed

interpretation numbered: counted_schedule "pipe_at own" "turned own" "planned own" table_sized "has_place own"
  for own :: nat
proof unfold_locales
  fix s :: "'a np_scheme" and k
  assume ok: "table_sized s"
  show "pipe_at own (turned own s) k = pipe_at own s (Suc k)" by (rule pipe_at_turned [OF ok])
  show "table_sized (turned own s)" using ok by (simp add: table_sized_def turned_def)
  fix p
  show "table_sized (planned own k p s)" using ok by (simp add: table_sized_def planned_def store_slot_def)
  assume "has_place own s k"
  then show "pipe_at own (planned own k p s) j = (if j = k then Some p else pipe_at own s j)" for j
    by (rule pipe_at_planned [OF ok])
qed

section \<open>Lines and the table\<close>

text \<open>What a call of \<open>parser\<close> does not do.\<close>

definition keeps_table :: "'a np_scheme \<Rightarrow> 'a np_scheme \<Rightarrow> bool" where
  "keeps_table s s' \<longleftrightarrow> slots s' = slots s \<and> pos s' = pos s"

lemma shut_fields [simp]:
  "slots (shut k s) = slots s" "pos (shut k s) = pos s" "kids (shut k s) = kids s"
  "waits (shut k s) = waits s" "np_pipes (shut k s) = np_pipes s"
  "np_fds (shut k s) = close_int k (np_fds s)"
  by (simp_all add: shut_def)

text \<open>How \<open>start_command\<close> ends, in one equation.\<close>

lemma start_command_Inr:
  assumes "start_command w path kid waiting input cmd s = Inr ((r, d), s')"
  shows "\<exists>ops dirs ds wr s1. split_space cmd = Inr ops \<and> path = Inr (Some dirs) \<and> split_env dirs = Inr ds
    \<and> np_pipe w s = Inr ((r, wr), s1) \<and> d = copied (np_heap w (np_pipes s)) r
    \<and> keeps_table s s' \<and> np_pipes s' = Suc (np_pipes s)
    \<and> np_fds s' = (if input \<noteq> 0 then close_int input (np_fds s1) else np_fds s1)
    \<and> kids s' = kids s @ (if np_forks w (np_pipes s) then [kid (r, wr) ops ds (np_fds s1)] else [])
    \<and> waits s' = waits s @ (if waiting
        then [(if np_forks w (np_pipes s) then Some (length (kids s)) else None, np_fds s1)] else [])"
proof -
  have pipe: "slots s1 = slots s \<and> pos s1 = pos s \<and> kids s1 = kids s \<and> waits s1 = waits s
      \<and> np_pipes s1 = Suc (np_pipes s)" if "np_pipe w s = Inr (p, s1)" for p s1
    using that by (auto simp: np_pipe_def Let_def split: prod.splits if_splits)
  obtain ops where ops: "split_space cmd = Inr ops" using assms by (cases "split_space cmd") (simp_all add: start_command_def)
  obtain dirs where dirs: "path = Inr (Some dirs)"
    using assms ops by (cases path) (auto simp: start_command_def split: option.splits)
  obtain ds where ds: "split_env dirs = Inr ds"
    using assms ops dirs by (cases "split_env dirs") (simp_all add: start_command_def)
  obtain r' wr s1 where p: "np_pipe w s = Inr ((r', wr), s1)"
    using assms ops dirs ds by (cases "np_pipe w s") (auto simp: start_command_def)
  note start = assms [unfolded start_command_def Let_def]
  have r: "r' = r" using start ops dirs ds p by simp
  show ?thesis
    apply (intro exI conjI)
    apply (rule ops, rule dirs, rule ds, rule p [unfolded r])
    using start ops dirs ds p pipe [OF p] by (auto simp: keeps_table_def)
qed

text \<open>And when it works.\<close>

lemma start_command_runs:
  assumes "split_space cmd = Inr ops" "path = Inr (Some dirs)" "split_env dirs = Inr ds"
    and "np_pipe w s = Inr ((r, wr), s1)" "np_forks w (np_pipes s)"
  shows "start_command w path kid waiting input cmd s = Inr ((r, copied (np_heap w (np_pipes s)) r),
    s1\<lparr>np_fds := (if input \<noteq> 0 then close_int input (np_fds s1) else np_fds s1),
       kids := kids s @ [kid (r, wr) ops ds (np_fds s1)],
       waits := waits s @ (if waiting then [(Some (length (kids s)), np_fds s1)] else [])\<rparr>)"
proof -
  have "kids s1 = kids s" "waits s1 = waits s"
    using assms(4) by (auto simp: np_pipe_def Let_def split: prod.splits if_splits)
  then show ?thesis using assms by (simp add: start_command_def shut_def Let_def)
qed

lemma np_pipe_more: "np_pipe w s = Inr (x, s') \<Longrightarrow> np.more s' = np.more s"
  by (auto simp: np_pipe_def Let_def split: prod.splits if_splits)

lemma start_command_more:
  assumes "start_command w path kid waiting input cmd s = Inr (x, s')"
  shows "np.more s' = np.more s"
proof -
  obtain r d where x: "x = (r, d)" by (cases x)
  from start_command_Inr [OF assms [unfolded x]] obtain ops dirs ds wr s1 where
    p: "split_space cmd = Inr ops" "path = Inr (Some dirs)" "split_env dirs = Inr ds" "np_pipe w s = Inr ((r, wr), s1)"
    by blast
  show ?thesis using assms np_pipe_more [OF p(4)] by (auto simp: start_command_def p shut_def Let_def)
qed

text \<open>One round of the loop: what \<open>parser\<close> is called on, and what is done after it.\<close>

definition round_gi :: "string list \<Rightarrow> nat \<Rightarrow> nat" where
  "round_gi rest gi = (if rest = [] \<and> gi = 1 then 3 else if rest = [] \<and> gi = 2 then 4 else gi)"

definition round_due :: "nat \<Rightarrow> bool \<Rightarrow> 'a np_scheme \<Rightarrow> nat option" where
  "round_due own first s = (if first then due_slot own s else None)"

definition round_turned :: "nat \<Rightarrow> bool \<Rightarrow> 'a np_scheme \<Rightarrow> 'a np_scheme" where
  "round_turned own first s = (if first then turned own s else s)"

definition round_state :: "nat \<Rightarrow> bool \<Rightarrow> 'a np_scheme \<Rightarrow> 'a np_scheme" where
  "round_state own first s = (case round_due own first s of
     Some j \<Rightarrow> shut (pipe_out (slots s ! j)) (round_turned own first s) | None \<Rightarrow> round_turned own first s)"

definition round_input :: "nat \<Rightarrow> int \<Rightarrow> bool \<Rightarrow> 'a np_scheme \<Rightarrow> int" where
  "round_input own input first s = (case round_due own first s of
     Some j \<Rightarrow> pipe_in (slots s ! j) | None \<Rightarrow> input)"

definition round_end :: "string list \<Rightarrow> nat \<Rightarrow> int \<times> int \<Rightarrow> 'a np_scheme \<Rightarrow> 'a np_scheme" where
  "round_end rest gi d s = (let s' = (if rest \<noteq> [] \<or> gi = 0 then shut (snd d) s else s)
     in if rest = [] \<and> gi = 4 then store_slot (fst d) (snd d) s' else s')"

lemma stages_Cons:
  "stages parse own input first gi (cmd # rest) s = Inr s' \<longleftrightarrow>
     (\<exists>d s3. parse (round_input own input first s) first (rest = []) (round_due own first s \<noteq> None)
          (round_gi rest gi) cmd (round_state own first s) = Inr (d, s3)
        \<and> stages parse own (fst d) False (round_gi rest gi) rest (round_end rest (round_gi rest gi) d s3) = Inr s')"
  unfolding stages.simps(2) turned_def Let_def bind_res_Inr_iff round_gi_def round_due_def round_state_def
    round_input_def round_end_def round_turned_def
  by (simp only: split_paired_Ex prod.case fst_conv snd_conv)

declare stages.simps(2) [simp del]

lemma round_turned_first [simp]: "round_turned own True s = turned own s" "round_turned own False s = s"
  by (simp_all add: round_turned_def)

lemma turned_fields [simp]:
  "pos (turned own s) = pos s" "kids (turned own s) = kids s" "waits (turned own s) = waits s"
  "np_pipes (turned own s) = np_pipes s" "np_fds (turned own s) = np_fds s"
  by (simp_all add: turned_def)

lemma round_turned_fields [simp]:
  "pos (round_turned own first s) = pos s" "kids (round_turned own first s) = kids s"
  "waits (round_turned own first s) = waits s" "np_pipes (round_turned own first s) = np_pipes s"
  "np_fds (round_turned own first s) = np_fds s"
  by (simp_all add: round_turned_def turned_def)

lemma round_state_fields [simp]:
  "keeps_table (round_turned own first s) (round_state own first s)" "kids (round_state own first s) = kids s"
  "waits (round_state own first s) = waits s" "np_pipes (round_state own first s) = np_pipes s"
  by (simp_all add: round_state_def keeps_table_def split: option.splits)

lemma store_slot_fields [simp]:
  "kids (store_slot i u s) = kids s" "waits (store_slot i u s) = waits s"
  "np_pipes (store_slot i u s) = np_pipes s" "np_fds (store_slot i u s) = np_fds s"
  by (simp_all add: store_slot_def)

lemma round_end_fields [simp]:
  "kids (round_end rest gi d s) = kids s" "waits (round_end rest gi d s) = waits s"
  "np_pipes (round_end rest gi d s) = np_pipes s"
  "np_fds (round_end rest gi d s) = (if rest \<noteq> [] \<or> gi = 0 then close_int (snd d) (np_fds s) else np_fds s)"
  by (simp_all add: round_end_def Let_def)

text \<open>What every call of \<open>parser\<close> keeps, and does not speak of descriptors and the table, a line keeps.\<close>

lemma stages_keeps:
  assumes "\<And>i f l e g c t d t'. parse i f l e g c t = Inr (d, t') \<Longrightarrow> P t \<Longrightarrow> P t'"
    and "\<And>k t. P t \<Longrightarrow> P (shut k t)" "\<And>t. P t \<Longrightarrow> P (turned own t)" "\<And>i u t. P t \<Longrightarrow> P (store_slot i u t)"
    and "stages parse own input first gi cmds s = Inr s'" "P s"
  shows "P s'"
  using assms(5,6)
proof (induction cmds arbitrary: input first gi s)
  case (Cons cmd rest)
  then obtain d s3 where r: "parse (round_input own input first s) first (rest = []) (round_due own first s \<noteq> None)
      (round_gi rest gi) cmd (round_state own first s) = Inr (d, s3)"
    "stages parse own (fst d) False (round_gi rest gi) rest (round_end rest (round_gi rest gi) d s3) = Inr s'"
    unfolding stages_Cons by blast
  have "P (round_state own first s)"
    using assms(2,3) Cons.prems(2) by (auto simp: round_state_def round_turned_def split: option.split)
  with assms(1) [OF r(1)] have "P s3" by blast
  then have "P (round_end rest (round_gi rest gi) d s3)" using assms(2,4) by (auto simp: round_end_def Let_def)
  then show ?case using Cons.IH [OF r(2)] by blast
qed simp

text \<open>A line runs when every call of \<open>parser\<close> does that finds two free descriptors.\<close>

lemma length_close_int [simp]: "length (close_int k t) = length t"
  by (simp add: close_int_def close_fd_def)

lemma stages_run:
  assumes parse: "\<And>i f l e g c t. c \<in> set cmds \<Longrightarrow> P t \<Longrightarrow> length (np_fds t) + 2 \<le> limit \<Longrightarrow>
      \<exists>d t'. parse i f l e g c t = Inr (d, t') \<and> P t' \<and> length (np_fds t') \<le> length (np_fds t) + 2
        \<and> np_pipes t' = Suc (np_pipes t)"
    and "\<And>k t. P t \<Longrightarrow> P (shut k t)" "\<And>t. P t \<Longrightarrow> P (turned own t)" "\<And>i u t. P t \<Longrightarrow> P (store_slot i u t)"
    and "P s" "length (np_fds s) + 2 * length cmds \<le> limit"
  shows "\<exists>s'. stages parse own input first gi cmds s = Inr s' \<and> np_pipes s' = np_pipes s + length cmds"
  using assms(1,5,6)
proof (induction cmds arbitrary: input first gi s)
  case (Cons cmd rest)
  let ?s = "round_state own first s"
  have s: "P ?s" "length (np_fds ?s) = length (np_fds s)"
    using assms(2,3) Cons.prems(2) by (auto simp: round_state_def round_turned_def split: option.split)
  obtain d s3 where p: "parse (round_input own input first s) first (rest = []) (round_due own first s \<noteq> None)
      (round_gi rest gi) cmd ?s = Inr (d, s3)" "P s3" "length (np_fds s3) \<le> length (np_fds s) + 2"
      "np_pipes s3 = Suc (np_pipes s)"
    using Cons.prems(1) [of cmd ?s] s Cons.prems(3) by fastforce
  let ?e = "round_end rest (round_gi rest gi) d s3"
  have e: "P ?e" "length (np_fds ?e) = length (np_fds s3)"
    using p(2) assms(2,4) by (auto simp: round_end_def Let_def)
  have "\<exists>s'. stages parse own (fst d) False (round_gi rest gi) rest ?e = Inr s' \<and> np_pipes s' = np_pipes ?e + length rest"
    by (rule Cons.IH) (use Cons.prems e p(3) in auto)
  then show ?case using p(1,4) unfolding stages_Cons by auto
qed simp

text \<open>The children of earlier stages stay.\<close>

lemma stages_kids:
  assumes "\<And>i f l e g c t d t'. parse i f l e g c t = Inr (d, t') \<Longrightarrow> prefix (kids t) (kids t')"
    and "stages parse own input first gi cmds s = Inr s'"
  shows "prefix (kids s) (kids s')"
  using assms(2)
proof (induction cmds arbitrary: input first gi s)
  case (Cons cmd rest)
  then obtain d s3 where r: "parse (round_input own input first s) first (rest = []) (round_due own first s \<noteq> None)
      (round_gi rest gi) cmd (round_state own first s) = Inr (d, s3)"
    "stages parse own (fst d) False (round_gi rest gi) rest (round_end rest (round_gi rest gi) d s3) = Inr s'"
    unfolding stages_Cons by blast
  have "prefix (kids s) (kids s3)" using assms(1) [OF r(1)] by simp
  then show ?case using Cons.IH [OF r(2)] by (auto intro: prefix_order.trans)
qed simp

text \<open>
  A line counts its user's pipes down once; a line that has entered a count then stores its last
  pipe there.
\<close>

lemma stages_table:
  assumes "\<And>i f l e g c t d t'. parse i f l e g c t = Inr (d, t') \<Longrightarrow> keeps_table t t'"
    and "stages parse own input first gi cmds s = Inr s'" "cmds \<noteq> []"
  shows "\<exists>i u. keeps_table (if gi \<in> {2, 4} then store_slot i u (round_turned own first s)
    else round_turned own first s) s'"
  using assms(2,3)
proof (induction cmds arbitrary: input first gi s)
  case (Cons cmd rest)
  then obtain d s3 where r: "parse (round_input own input first s) first (rest = []) (round_due own first s \<noteq> None)
      (round_gi rest gi) cmd (round_state own first s) = Inr (d, s3)"
    "stages parse own (fst d) False (round_gi rest gi) rest (round_end rest (round_gi rest gi) d s3) = Inr s'"
    unfolding stages_Cons by blast
  have keep: "keeps_table (round_turned own first s) s3"
    using assms(1) [OF r(1)] round_state_fields(1) [of own first s] by (simp add: keeps_table_def)
  show ?case
  proof (cases "rest = []")
    case True
    then have "s' = round_end [] (round_gi [] gi) d s3" using r(2) by simp
    then have "keeps_table (if gi \<in> {2, 4} then store_slot (fst d) (snd d) (round_turned own first s)
        else round_turned own first s) s'"
      using keep by (auto simp: round_end_def round_gi_def store_slot_def keeps_table_def)
    then show ?thesis by blast
  next
    case False
    then have go: "stages parse own (fst d) False gi rest (shut (snd d) s3) = Inr s'"
      using r(2) by (simp add: round_gi_def round_end_def)
    from Cons.IH [OF go False] obtain i u where
      "keeps_table (if gi \<in> {2, 4} then store_slot i u (shut (snd d) s3) else shut (snd d) s3) s'"
      unfolding round_turned_first by blast
    then have "keeps_table (if gi \<in> {2, 4} then store_slot i u (round_turned own first s)
        else round_turned own first s) s'"
      using keep by (simp add: keeps_table_def store_slot_def split: if_splits)
    then show ?thesis by blast
  qed
qed simp

text \<open>Entering a count and then turning is turning and planning one line earlier.\<close>

lemma turned_entry:
  assumes "pos s < 1000" "table_sized s"
    and "keeps_table (store_slot i u (turned own (s\<lparr>slots := (slots s)[pos s :=
           (slots s ! pos s)\<lparr>pipe_count := int k + 2, pipe_owner := own\<rparr>]\<rparr>))) s'"
  shows "keeps_table (planned own k (i, u) (turned own s)) s'"
proof -
  have p: "pos s < length (slots s)" using assms(1,2) by (simp add: table_sized_def)
  have "count_down own ((slots s)[pos s := (slots s ! pos s)\<lparr>pipe_count := int k + 2, pipe_owner := own\<rparr>])
      = (count_down own (slots s))[pos s := (slots s ! pos s)\<lparr>pipe_count := int k + 1, pipe_owner := own\<rparr>]"
    by (rule nth_equalityI) (use assms(1) p in \<open>auto simp: count_down_def nth_append nth_list_update\<close>)
  moreover have "count_down own (slots s) ! pos s = (if pipe_owner (slots s ! pos s) = own
      then (slots s ! pos s)\<lparr>pipe_count := pipe_count (slots s ! pos s) - 1\<rparr> else slots s ! pos s)"
    using assms(1) p by (simp add: count_down_nth)
  ultimately show ?thesis
    using assms(3) p by (auto simp: keeps_table_def planned_def store_slot_def turned_def)
qed

lemma pipe_at_keeps: "keeps_table s s' \<Longrightarrow> pipe_at own s' k = pipe_at own s k"
  by (simp add: keeps_table_def pipe_at_def)

text \<open>So a line with a number plans its pipe at the count, for its own user.\<close>

lemma turned_planned:
  assumes "pos s < 1000" "table_sized s" "pipe_count (slots s ! pos s) \<le> 0" "pipe_at own s (Suc n) = None"
    and "keeps_table (store_slot i u (turned own (s\<lparr>slots := (slots s)[pos s :=
           (slots s ! pos s)\<lparr>pipe_count := int n + 2, pipe_owner := own\<rparr>]\<rparr>))) s'"
  shows "pipe_at own s' k = (if k = n then Some (i, u) else pipe_at own s (Suc k))"
proof -
  note keep = turned_entry [OF assms(1,2,5)]
  have t: "table_sized (turned own s)" using assms(2) by (rule numbered.ok_turn)
  have "pipe_count (slots (turned own s) ! pos s) \<le> 0"
    using assms(1,2,3) by (auto simp: turned_def count_down_nth table_sized_def)
  then have "has_place own (turned own s) n"
    using assms(1,4) pipe_at_turned [OF assms(2)] by (simp add: has_place_def)
  from numbered.due_plan [OF t this] show ?thesis
    using pipe_at_turned [OF assms(2)] pipe_at_keeps [OF keep] by simp
qed

text \<open>And the pipes of other users do not move.\<close>

lemma pipe_at_other:
  assumes "own' \<noteq> own" "table_sized s"
  shows "pipe_at own' (turned own s) k = pipe_at own' s k"
proof -
  let ?sl = "slots s" and ?dl = "count_down own (slots s)"
  have nth: "?dl ! j = (if pipe_owner (?sl ! j) = own then (?sl ! j)\<lparr>pipe_count := pipe_count (?sl ! j) - 1\<rparr> else ?sl ! j)"
    if "j < 1000" for j
    using that assms by (simp add: count_down_nth table_sized_def)
  then have "List.find (\<lambda>j. pipe_count (?dl ! j) = int k + 1 \<and> pipe_owner (?dl ! j) = own') (rev [0..<1000])
      = List.find (\<lambda>j. pipe_count (?sl ! j) = int k + 1 \<and> pipe_owner (?sl ! j) = own') (rev [0..<1000])"
    using assms(1) by (intro find_rev_cong) auto
  moreover have "pipe_in (?dl ! j) = pipe_in (?sl ! j)" "pipe_out (?dl ! j) = pipe_out (?sl ! j)" if "j < 1000" for j
    using that by (simp_all add: nth)
  ultimately show ?thesis
    by (auto simp: pipe_at_def turned_def find_rev_Some split: option.splits intro!: option.map_cong)
qed

lemma planned_other:
  assumes "own' \<noteq> own" "pos s < 1000" "table_sized s" "pipe_count (slots s ! pos s) \<le> 0"
    and "keeps_table (store_slot i u (turned own (s\<lparr>slots := (slots s)[pos s :=
           (slots s ! pos s)\<lparr>pipe_count := int n + 2, pipe_owner := own\<rparr>]\<rparr>))) s'"
  shows "pipe_at own' s' k = pipe_at own' s k"
proof -
  note keep = turned_entry [OF assms(2,3,5)]
  have t: "table_sized (turned own s)" using assms(3) by (rule numbered.ok_turn)
  let ?sl = "slots (turned own s)" and ?p = "pos s"
  let ?new = "\<lparr>pipe_in = i, pipe_count = int n + 1, pipe_out = u, pipe_owner = own\<rparr>"
  have low: "pipe_count (?sl ! ?p) \<le> 0"
    using assms(2-4) by (auto simp: turned_def count_down_nth table_sized_def)
  have p: "?p < length ?sl" using assms(2) t by (simp add: table_sized_def)
  have pl: "slots (planned own n (i, u) (turned own s)) = ?sl[?p := ?new]"
    using planned_slots [OF t] assms(2) by simp
  have "(pipe_count (?sl[?p := ?new] ! j) = int k + 1 \<and> pipe_owner (?sl[?p := ?new] ! j) = own')
      = (pipe_count (?sl ! j) = int k + 1 \<and> pipe_owner (?sl ! j) = own')" for j
    using low p assms(1) by (cases "j = ?p") auto
  moreover have "?sl[?p := ?new] ! j = ?sl ! j" if "pipe_count (?sl ! j) = int k + 1" for j
    using low p that by (cases "j = ?p") auto
  ultimately have "pipe_at own' (planned own n (i, u) (turned own s)) k = pipe_at own' (turned own s) k"
    by (auto simp: pipe_at_def pl find_rev_Some split: option.splits intro!: option.map_cong)
  then show ?thesis using pipe_at_keeps [OF keep] pipe_at_other [OF assms(1,3)] by simp
qed

section \<open>Writing ends\<close>

text \<open>The shell has a writing end of the pipe \<open>p\<close> open, at a number other than 0.\<close>

definition writer_open :: "fd_table \<Rightarrow> nat \<Rightarrow> bool" where
  "writer_open t p \<longleftrightarrow> (\<exists>k. 0 < k \<and> fd_get t k = Some (Pipe_Write p))"

lemma lowest_free_0: "lowest_free t = 0 \<longleftrightarrow> fd_get t 0 = None"
  by (cases t rule: lowest_free.cases) (auto simp: fd_get_def)

lemma fd_get_below_lowest: "j < lowest_free t \<Longrightarrow> fd_get t j \<noteq> None"
proof (induction t arbitrary: j rule: lowest_free.induct)
  case (3 d t)
  have "fd_get (Some d # t) j = (case j of 0 \<Rightarrow> Some d | Suc i \<Rightarrow> fd_get t i)"
    by (simp add: fd_get_def split: nat.split)
  then show ?case using 3 by (cases j) simp_all
qed simp_all

lemma np_pipe_ends:
  assumes "np_pipe w s = Inr ((r, wr), s1)"
  shows "np_fds s1 = fd_put (fd_put (np_fds s) r (Pipe_Read (np_pipes s))) wr (Pipe_Write (np_pipes s))"
    "fd_get (np_fds s) r = None" "fd_get (np_fds s) wr = None" "wr \<noteq> r" "0 < wr" "wr < np_limit w" "r < wr"
proof -
  let ?t1 = "fd_put (np_fds s) (lowest_free (np_fds s)) (Pipe_Read (np_pipes s))"
  have p: "r = lowest_free (np_fds s)" "wr = lowest_free ?t1" "wr < np_limit w"
    "np_fds s1 = fd_put ?t1 wr (Pipe_Write (np_pipes s))"
    using assms by (auto simp: np_pipe_def open_fd_def Let_def split: if_splits)
  then show "np_fds s1 = fd_put (fd_put (np_fds s) r (Pipe_Read (np_pipes s))) wr (Pipe_Write (np_pipes s))"
    "wr < np_limit w" by simp_all
  show r: "fd_get (np_fds s) r = None" using fd_get_lowest p(1) by simp
  have "fd_get ?t1 wr = None" unfolding p(2) by (rule fd_get_lowest)
  then have wr: "wr \<noteq> r \<and> fd_get (np_fds s) wr = None" unfolding p(1) fd_get_put by (simp split: if_splits)
  then show "wr \<noteq> r" "fd_get (np_fds s) wr = None" by simp_all
  have "r = 0 \<longleftrightarrow> fd_get (np_fds s) 0 = None" unfolding p(1) by (rule lowest_free_0)
  then show "0 < wr" using wr by (cases wr) auto
  have "\<not> wr < r" using wr fd_get_below_lowest [of wr "np_fds s"] unfolding p(1) by auto
  then show "r < wr" using wr by simp
qed

lemma np_pipe_works:
  assumes "length (np_fds s) + 2 \<le> np_limit w"
  shows "\<exists>r wr t. np_pipe w s = Inr ((r, wr), s\<lparr>np_fds := t, np_pipes := Suc (np_pipes s)\<rparr>)
    \<and> length t \<le> length (np_fds s) + 2"
proof -
  define r t1 wr where "r = lowest_free (np_fds s)" and "t1 = fd_put (np_fds s) r (Pipe_Read (np_pipes s))"
    and "wr = lowest_free t1"
  have "length t1 \<le> length (np_fds s) + 1" using lowest_free_le [of "np_fds s"] by (simp add: t1_def r_def fd_put_def)
  then have "wr \<le> length (np_fds s) + 1" "length (fd_put t1 wr (Pipe_Write (np_pipes s))) \<le> length (np_fds s) + 2"
    using lowest_free_le [of t1] by (simp_all add: wr_def fd_put_def)
  then show ?thesis
    using assms by (auto simp: np_pipe_def open_fd_def Let_def r_def [symmetric] t1_def [symmetric] wr_def [symmetric])
qed

lemma writer_open_put: "writer_open t p \<Longrightarrow> fd_get t k = None \<Longrightarrow> writer_open (fd_put t k d) p"
  by (auto simp: writer_open_def)

lemma writer_open_close_0: "writer_open (close_int 0 t) p = writer_open t p"
  by (auto simp: writer_open_def)

lemma writer_open_close_read:
  assumes "writer_open t p" "fd_get t (nat k) = Some (Pipe_Read q)"
  shows "writer_open (close_int k t) p"
proof -
  obtain i where i: "0 < i" "fd_get t i = Some (Pipe_Write p)" using assms(1) by (auto simp: writer_open_def)
  then have "i \<noteq> nat k" using assms(2) by auto
  with i show ?thesis unfolding writer_open_def close_int_def by (intro exI [of _ i]) simp
qed

lemmas writer_open_rules = writer_open_put writer_open_close_0 [THEN iffD2] writer_open_close_read

text \<open>
  A start of a command by a \<open>parser\<close> whose \<open>malloc\<close> finds zeros: the reading end is returned, but 0 in
  place of the writing end.
\<close>

definition leaky_start :: "int \<Rightarrow> bool \<Rightarrow> 'a np_scheme \<Rightarrow> int \<times> int \<Rightarrow> 'a np_scheme \<Rightarrow> bool" where
  "leaky_start input final s d s' \<longleftrightarrow>
     (\<exists>w r wr s1. np_pipe w s = Inr ((r, wr), s1) \<and> d = (int r, 0) \<and> np_pipes s' = Suc (np_pipes s)
        \<and> np_fds s' = (if input \<noteq> 0 then close_int input (np_fds s1) else np_fds s1)
        \<and> (waits s' = waits s \<or> (final \<and> (\<exists>x. waits s' = waits s @ [(x, np_fds s1)]))))"

definition writers_from :: "nat \<Rightarrow> 'a np_scheme \<Rightarrow> fd_table \<Rightarrow> bool" where
  "writers_from n s t \<longleftrightarrow> (\<forall>p. n \<le> p \<and> p < np_pipes s \<longrightarrow> writer_open t p)"

definition waits_from :: "nat \<Rightarrow> nat \<Rightarrow> 'a np_scheme \<Rightarrow> bool" where
  "waits_from n k s \<longleftrightarrow> (\<forall>x \<in> set (drop k (waits s)). writers_from n s (snd x))"

definition readable :: "int \<Rightarrow> fd_table \<Rightarrow> bool" where
  "readable input t \<longleftrightarrow> input = 0 \<or> (0 < input \<and> (\<exists>q. fd_get t (nat input) = Some (Pipe_Read q)))"

lemma readable_close_0: "readable input t \<Longrightarrow> readable input (close_int 0 t)"
  by (auto simp: readable_def)

lemma leaky_start_writers:
  assumes "leaky_start input final s d s'" "writers_from n s (np_fds s)" "readable input (np_fds s)"
    and "k \<le> length (waits s)" "drop k (waits s) = []"
  shows "writers_from n s' (np_fds s')" "snd d = 0" "readable (fst d) (close_int 0 (np_fds s'))"
    "waits_from n k s'" "\<not> final \<Longrightarrow> waits s' = waits s"
proof -
  obtain w r wr s1 where p: "np_pipe w s = Inr ((r, wr), s1)" "d = (int r, 0)" "np_pipes s' = Suc (np_pipes s)"
    "np_fds s' = (if input \<noteq> 0 then close_int input (np_fds s1) else np_fds s1)"
    "waits s' = waits s \<or> final \<and> (\<exists>x. waits s' = waits s @ [(x, np_fds s1)])"
    using assms(1) by (auto simp: leaky_start_def)
  note e = np_pipe_ends [OF p(1)]
  have "writer_open (np_fds s1) (np_pipes s)"
    unfolding writer_open_def e(1) using e(5) by (intro exI [of _ wr]) simp
  moreover have "writer_open (np_fds s1) q" if "n \<le> q" "q < np_pipes s" for q
    unfolding e(1) using assms(2) that e(2-4) by (intro writer_open_put) (simp_all add: writers_from_def)
  ultimately have w1: "writer_open (np_fds s1) q" if "n \<le> q" "q < np_pipes s'" for q
    using that p(3) by (cases "q = np_pipes s") auto
  have inp: "\<exists>q. fd_get (np_fds s1) (nat input) = Some (Pipe_Read q)" if "input \<noteq> 0"
    using assms(3) that e(2,3) unfolding e(1) readable_def by auto
  show "writers_from n s' (np_fds s')"
    unfolding writers_from_def p(4) using w1 inp writer_open_close_read by auto
  show "snd d = 0" by (simp add: p(2))
  have "readable (int r) (close_int 0 (np_fds s1))"
    unfolding readable_def e(1) using e(4) by auto
  moreover have "fd_get (np_fds s') r = fd_get (np_fds s1) r"
    using inp e(2,3) p(4) assms(3) by (auto simp: readable_def close_int_def)
  ultimately show "readable (fst d) (close_int 0 (np_fds s'))" by (auto simp: readable_def p(2))
  show "waits_from n k s'"
    using p(5) assms(4,5) w1 by (auto simp: waits_from_def writers_from_def)
  show "\<not> final \<Longrightarrow> waits s' = waits s" using p(5) by auto
qed

lemma writers_shut_0: "writers_from n s t \<Longrightarrow> writers_from n s (close_int 0 t)"
  by (simp add: writers_from_def writer_open_close_0 del: close_int_numeral)

lemma writers_from_cong: "np_pipes s' = np_pipes s \<Longrightarrow> writers_from n s' t = writers_from n s t"
  by (simp add: writers_from_def)

lemma waits_from_cong:
  "np_pipes s' = np_pipes s \<Longrightarrow> waits s' = waits s \<Longrightarrow> waits_from n k s' = waits_from n k s"
  by (simp add: waits_from_def writers_from_def)

text \<open>So no line closes a writing end of the pipes it makes.\<close>

lemma stages_writers:
  assumes leak: "\<And>i f l e g c t d t'. parse i f l e g c t = Inr (d, t') \<Longrightarrow> leaky_start i l t d t'"
    and "stages parse own input first gi cmds s = Inr s'"
    and "writers_from n s (np_fds s)" "readable input (np_fds s)" "k = length (waits s)"
    and "first \<longrightarrow> (\<forall>j. due_slot own s = Some j \<longrightarrow> pipe_in (slots s ! j) = 0 \<and> pipe_out (slots s ! j) = 0)"
  shows "writers_from n s' (np_fds s')" "waits_from n k s'"
proof -
  have "writers_from n s' (np_fds s') \<and> waits_from n k s'"
    using assms(2-6)
  proof (induction cmds arbitrary: input first gi s)
    case Nil
    then show ?case by (simp add: waits_from_def)
  next
      case (Cons cmd rest)
    then obtain d s3 where r: "parse (round_input own input first s) first (rest = []) (round_due own first s \<noteq> None)
        (round_gi rest gi) cmd (round_state own first s) = Inr (d, s3)"
      "stages parse own (fst d) False (round_gi rest gi) rest (round_end rest (round_gi rest gi) d s3) = Inr s'"
      unfolding stages_Cons by blast
    have in2: "writers_from n (round_state own first s) (np_fds (round_state own first s))"
      "readable (round_input own input first s) (np_fds (round_state own first s))"
      using Cons.prems(2,3,5) writers_shut_0 [of n s "np_fds s"] readable_close_0 [of input "np_fds s"]
      by (auto simp: round_state_def round_input_def round_due_def readable_def writers_from_def split: option.splits)
    have out: "writers_from n s3 (np_fds s3)" "snd d = 0" "readable (fst d) (close_int 0 (np_fds s3))"
      "waits_from n k s3" "rest \<noteq> [] \<Longrightarrow> waits s3 = waits s"
      using leaky_start_writers [OF leak [OF r(1)] in2, of k] Cons.prems(4) by simp_all
    let ?e = "round_end rest (round_gi rest gi) d s3"
    have e: "writers_from n ?e (np_fds ?e)" "waits_from n k ?e"
      using out(1,2,4) writers_shut_0 [OF out(1)]
      by (simp_all add: writers_from_cong [of ?e s3] waits_from_cong [of ?e s3] del: close_int_numeral)
    show ?case
    proof (cases "rest = []")
      case True
      then show ?thesis using r(2) e by simp
    next
      case False
      show ?thesis
        by (rule Cons.IH [OF r(2)]) (use e out False Cons.prems(4) in \<open>simp_all del: close_int_numeral\<close>)
    qed
  qed
  then show "writers_from n s' (np_fds s')" "waits_from n k s'" by simp_all
qed

text \<open>A \<open>parser\<close> that loses the writing ends makes the line close descriptor 0 at its end.\<close>

lemma stages_close_0:
  assumes "\<And>i f l e g c t d t'. parse i f l e g c t = Inr (d, t') \<Longrightarrow> snd d = 0"
    and "stages parse own input first 0 cmds s = Inr s'" "cmds \<noteq> []"
  shows "fd_get (np_fds s') 0 = None"
  using assms(2,3)
proof (induction cmds arbitrary: input first s)
  case (Cons cmd rest)
  then obtain d s3 where r: "parse (round_input own input first s) first (rest = []) (round_due own first s \<noteq> None)
      (round_gi rest 0) cmd (round_state own first s) = Inr (d, s3)"
    "stages parse own (fst d) False (round_gi rest 0) rest (round_end rest (round_gi rest 0) d s3) = Inr s'"
    unfolding stages_Cons by blast
  have gi: "round_gi rest 0 = 0" by (simp add: round_gi_def)
  show ?case
  proof (cases "rest = []")
    case True
    then have "s' = round_end [] 0 d s3" using r(2) by (simp add: round_gi_def)
    then show ?thesis using assms(1) [OF r(1)] by simp
  next
    case False
    then show ?thesis using Cons.IH r(2) gi by simp
  qed
qed simp

section \<open>Lines as text\<close>

text \<open>
  A line that is made of stages: the first does not start with a blank, the others do, as in
  \<open>a | b\<close>; a numbered line has a number behind its last bar.
\<close>

fun show_line :: "string list \<Rightarrow> string" where
  "show_line [] = []"
| "show_line [c] = c"
| "show_line (c # cs) = c @ CHR ''|'' # show_line cs"

definition stage_text :: "string \<Rightarrow> bool" where
  "stage_text c \<longleftrightarrow> c \<noteq> [] \<and> CHR ''|'' \<notin> set c \<and> CHR ''!'' \<notin> set c"

definition stage_list :: "string list \<Rightarrow> bool" where
  "stage_list cs \<longleftrightarrow> cs \<noteq> [] \<and> length cs < 4000 \<and> (\<forall>c \<in> set cs. stage_text c)
     \<and> hd (hd cs) \<noteq> CHR '' '' \<and> (\<forall>c \<in> set (tl cs). hd c = CHR '' '')"

lemma stage_text_nat: "stage_text (nat_str n)"
proof -
  have "\<not> is_digit CHR ''|''" "\<not> is_digit CHR ''!''" by (simp_all add: is_digit_def code_of_def)
  then show ?thesis using nat_str_digits [of _ n] nat_str_Cons [of n] unfolding stage_text_def by auto
qed

lemma delim_facts: "(\<forall>c \<in> set w. \<not> is_delim d c) = (d \<notin> set w)" "is_delim d d"
  by (auto simp: is_delim_def)

lemma tokens_show_line:
  assumes "cs \<noteq> []" "\<forall>c \<in> set cs. stage_text c"
  shows "tokens (is_delim CHR ''|'') (show_line cs) = cs"
  using assms
proof (induction cs rule: show_line.induct)
  case (2 c)
  then show ?case
    using tokens_single [of c "is_delim CHR ''|''"] by (simp add: stage_text_def delim_facts)
next
  case (3 c d cs)
  then show ?case
    using tokens_first [of c "is_delim CHR ''|''" "CHR ''|''" "show_line (d # cs)"]
    by (simp add: stage_text_def delim_facts)
qed simp

lemma split_show_line:
  "cs \<noteq> [] \<Longrightarrow> \<forall>c \<in> set cs. stage_text c \<Longrightarrow> length cs < 4096 \<Longrightarrow> split_pipe (show_line cs) = Inr cs"
  by (simp add: split_pipe_def split_at_def tokens_show_line)

lemma error_pieces_none:
  assumes "cs \<noteq> []" "stage_text (last cs)" "length cs < 4096"
  shows "error_pieces cs = Inr (cs, False)"
proof -
  have "tokens (is_delim CHR ''!'') (last cs) = [last cs]"
    using assms(2) tokens_single [of "last cs" "is_delim CHR ''!''"] by (simp add: stage_text_def delim_facts)
  moreover have "takeWhile (\<lambda>c. c = CHR ''!'') (last cs) = []"
    using assms(2) by (cases "last cs") (auto simp: stage_text_def)
  ultimately show ?thesis using assms by (cases cs) (simp_all add: error_pieces_def split_pipe_error_def Let_def)
qed

lemma stage_list_pieces:
  assumes "stage_list cs"
  shows "split_pipe (show_line cs) = Inr cs" "error_pieces cs = Inr (cs, False)" "pipe_number cs = None"
    "cs \<noteq> []" "hd (hd cs) \<noteq> CHR '' ''"
proof -
  show "split_pipe (show_line cs) = Inr cs" "error_pieces cs = Inr (cs, False)" "cs \<noteq> []" "hd (hd cs) \<noteq> CHR '' ''"
    using assms by (auto simp: stage_list_def intro: split_show_line error_pieces_none)
  have "length cs \<ge> 2 \<Longrightarrow> last cs \<in> set (tl cs)" by (cases cs) auto
  then show "pipe_number cs = None" using assms by (auto simp: pipe_number_def stage_list_def)
qed

lemma numbered_pieces:
  assumes "stage_list cs" "n < 2 ^ 31"
  shows "split_pipe (show_line (cs @ [nat_str n])) = Inr (cs @ [nat_str n])"
    "error_pieces (cs @ [nat_str n]) = Inr (cs @ [nat_str n], False)"
    "pipe_number (cs @ [nat_str n]) = Some (int n)"
proof -
  show "split_pipe (show_line (cs @ [nat_str n])) = Inr (cs @ [nat_str n])"
    using assms(1) stage_text_nat by (intro split_show_line) (auto simp: stage_list_def)
  show "error_pieces (cs @ [nat_str n]) = Inr (cs @ [nat_str n], False)"
    using assms(1) stage_text_nat by (intro error_pieces_none) (auto simp: stage_list_def)
  have "hd (nat_str n) \<noteq> CHR '' ''"
    using nat_str_Cons [of n] by (auto simp: is_digit_def code_of_def)
  then show "pipe_number (cs @ [nat_str n]) = Some (int n)"
    using assms by (cases cs) (simp_all add: pipe_number_def atoi_nat_str stage_list_def)
qed

text \<open>A number that no pending pipe has is entered at the next place.\<close>

lemma plan_number_new:
  assumes "bound = 1000" "n < 2 ^ 31 - 1" "pipe_at own s n = None"
  shows "plan_number bound own (int n) s = Inr ((2, None), s\<lparr>slots := (slots s)[pos s :=
    (slots s ! pos s)\<lparr>pipe_count := int n + 1, pipe_owner := own\<rparr>]\<rparr>)"
proof -
  have "same_slot bound own (int n + 1) s = None"
    using assms(1,3) by (simp add: same_slot_def pipe_at_def find_None_iff)
  then show ?thesis using assms(2) by (simp add: plan_number_def)
qed

text \<open>A zeroed allocator loses the number of the writing end.\<close>

lemma copied_zero: "r < 65536 \<Longrightarrow> copied (0, 0) r = (int r, 0)"
  by (simp add: copied_def)

text \<open>A kernel under which everything works, and an allocator that has zeroed memory.\<close>

definition zero_kernel :: np_kernel where
  "zero_kernel = \<lparr>np_limit = 1024, np_forks = (\<lambda>_. True), np_creates = (\<lambda>_. True), np_heap = (\<lambda>_. (0, 0))\<rparr>"

end
