(* ===== verification/Np_Simple.thy ===== *)
theory Np_Simple
  imports Np_Pipes
begin

text \<open>
  \<open>project2/np_simple.cpp\<close>: a process per connection, with pipes, numbered pipes and the built-ins
  \<open>printenv\<close>, \<open>setenv\<close> and \<open>exit\<close>. The environment is the array of strings that \<open>getenv\<close> searches;
  \<open>putenv\<close> enters a pointer to a local array, which dangles when the block of the array is left.
  \<open>waitpid\<close> is taken to return; what holds while it waits is in the field \<open>waits\<close>. What is printed to
  the client by the shell itself is in \<open>client_text\<close>, in order.
\<close>

section \<open>State\<close>

datatype env_entry =
    Live string
  | Dangling

record simple = np +
  environ :: "env_entry list"
  client_text :: string

definition simple_init :: "nat \<Rightarrow> simple" where
  "simple_init sock =
     \<lparr>np_fds = fd_put [Some (Std 0), Some (Std 1), Some (Std 2)] sock (Sock 0), np_pipes = 0,
      slots = replicate 1024 slot_init, pos = 0, kids = [], waits = [],
      environ = [Live ''PATH=bin:.''], client_text = []\<rparr>"

definition tell_client :: "string \<Rightarrow> simple \<Rightarrow> simple" where
  "tell_client msg s = s\<lparr>client_text := client_text s @ msg\<rparr>"

section \<open>Environment\<close>

fun getenv :: "string \<Rightarrow> env_entry list \<Rightarrow> string option res" where
  "getenv name [] = Inr None"
| "getenv name (Dangling # es) = Inl Dangling_Pointer"
| "getenv name (Live e # es) =
     (if take (length name + 1) e = name @ ''='' then Inr (Some (drop (length name + 1) e))
      else getenv name es)"

text \<open>\<open>putenv(str)\<close> replaces the entry with the same name, or adds one; \<open>e\<close> is the new entry.\<close>

fun putenv :: "string \<Rightarrow> env_entry \<Rightarrow> env_entry list \<Rightarrow> env_entry list res" where
  "putenv name e [] = Inr [e]"
| "putenv name e (Dangling # es) = Inl Dangling_Pointer"
| "putenv name e (Live old # es) =
     (if take (length name + 1) old = name @ ''='' then Inr (e # es)
      else bind_res (putenv name e es) (\<lambda>es'. Inr (Live old # es')))"

text \<open>\<open>printf(str)\<close> with a string that is not a format.\<close>

definition printf_value :: "string \<Rightarrow> string res" where
  "printf_value v = (if CHR ''%'' \<in> set v then Inl Format_String else Inr v)"

section \<open>The child\<close>

text \<open>The redirection of the child's streams, in the order of the calls.\<close>

definition simple_wire ::
    "bool \<Rightarrow> bool \<Rightarrow> nat \<Rightarrow> bool \<Rightarrow> bool \<Rightarrow> int \<Rightarrow> int \<Rightarrow> nat \<Rightarrow> fd_table \<Rightarrow> fd_table" where
  "simple_wire first final get_input enter n_pipe_err input out wr t =
     (let t1 = (if first \<and> \<not> final \<and> input = 0 then dup2 wr 1 t
                else if \<not> first \<and> \<not> final \<and> input \<noteq> 0 then dup2 wr 1 (dup2_int input 0 t)
                else if first \<and> final \<and> get_input = 4 then dup2 wr 1 t
                else dup2_int out 2 (dup2_int out 1 (dup2_int input 0 t)));
          t2 = (if n_pipe_err \<and> get_input \<noteq> 3 then dup2 wr 2 t1
                else if n_pipe_err \<and> get_input = 3 then dup2_int out 2 t1 else t1);
          t3 = (if enter then dup2_int input 0 t2 else t2)
      in if final \<and> get_input = 4 then dup2 wr 1 t3
         else if final \<and> get_input = 3 then dup2_int out 1 t3 else t3)"

text \<open>A command with \<open>>\<close> in it writes to the file named by its last operand.\<close>

definition simple_args :: "np_kernel \<Rightarrow> string \<Rightarrow> string list \<Rightarrow> fd_table \<Rightarrow> string list \<times> fd_table" where
  "simple_args w cmd ops t =
     (if CHR ''>'' \<in> set cmd
      then (takeWhile (\<lambda>x. CHR ''>'' \<notin> set x) ops, redirect_to w (last ops) t)
      else (ops, t))"

text \<open>\<open>string(argv_list[i]) + "/" + operand[0]\<close>, on a null pointer when there is no word or directory.\<close>

definition simple_exec :: "string list \<Rightarrow> string list \<Rightarrow> fd_table \<Rightarrow> np_kid" where
  "simple_exec args dirs t =
     (if args = [] \<or> dirs = [] then Dies Null_Pointer
      else Runs \<lparr>ch_argv = args, ch_paths = map (\<lambda>d. d @ ''/'' @ hd args) dirs, ch_fds = t\<rparr>)"

definition simple_kid ::
    "np_kernel \<Rightarrow> string \<Rightarrow> bool \<Rightarrow> bool \<Rightarrow> nat \<Rightarrow> bool \<Rightarrow> bool \<Rightarrow> int \<Rightarrow> int \<Rightarrow>
     nat \<times> nat \<Rightarrow> string list \<Rightarrow> string list \<Rightarrow> fd_table \<Rightarrow> np_kid" where
  "simple_kid w cmd first final get_input enter n_pipe_err input out pipefd ops dirs t =
     (let (args, t') = simple_args w cmd ops
            (simple_wire first final get_input enter n_pipe_err input out (snd pipefd) t)
      in simple_exec args dirs t')"

section \<open>A line\<close>

definition simple_parser ::
    "np_kernel \<Rightarrow> bool \<Rightarrow> bool \<Rightarrow> int \<Rightarrow> int \<Rightarrow> bool \<Rightarrow> bool \<Rightarrow> bool \<Rightarrow> nat \<Rightarrow> string \<Rightarrow> simple \<Rightarrow>
     ((int \<times> int) \<times> simple) res" where
  "simple_parser w waiting n_pipe_err out input first final enter get_input cmd s =
     bind_res (start_command w (getenv ''PATH'' (environ s))
         (simple_kid w cmd first final get_input enter n_pipe_err input out)
         (waiting \<and> final) input cmd s)
       (\<lambda>((r, d), s'). Inr (d, s'))"

text \<open>The built-ins, on a line of one stage; \<open>None\<close> when the stage is not one.\<close>

definition simple_builtin :: "string \<Rightarrow> simple \<Rightarrow> simple progress res option" where
  "simple_builtin cmd s =
     (if find_sub ''printenv'' cmd \<noteq> None
      then Some (bind_res (split_space cmd) (\<lambda>ops. case ops of
             _ # name # _ \<Rightarrow>
               bind_res (getenv name (environ s)) (\<lambda>v. case v of
                 None \<Rightarrow> Inl Null_Pointer
               | Some v \<Rightarrow> bind_res (printf_value v) (\<lambda>v. Inr (Goes_On (tell_client (v @ [newline]) s))))
           | _ \<Rightarrow> Inl Null_Pointer))
      else if find_sub ''setenv'' cmd \<noteq> None
      then Some (bind_res (split_space cmd) (\<lambda>ops. case ops of
             _ # name # val # _ \<Rightarrow>
               if length name + 1 + length val \<ge> 512 then Inl Buffer_Overflow
               else bind_res (putenv (takeWhile (\<lambda>c. c \<noteq> CHR ''='') name) Dangling (environ s)) (\<lambda>es.
                      Inr (Goes_On (s\<lparr>environ := es\<rparr>)))
           | _ \<Rightarrow> Inl Null_Pointer))
      else if find_sub ''exit'' cmd \<noteq> None then Some (Inr (Exits s))
      else None)"

text \<open>
  \<open>do_exec\<close>. A number at the end is entered in the table before it is known whether the rest of the
  line runs.
\<close>

definition simple_do_exec :: "np_kernel \<Rightarrow> nat \<Rightarrow> string \<Rightarrow> simple \<Rightarrow> simple progress res" where
  "simple_do_exec w sock cmd s =
     bind_res (split_pipe cmd) (\<lambda>files.
     if files = [] then Inr (Goes_On s)
     else bind_res (error_pieces files) (\<lambda>(files, n_pipe_err).
     bind_res (case pipe_number files of
                 None \<Rightarrow> Inr ((0, None), s)
               | Some n \<Rightarrow> plan_number 1000 0 n s) (\<lambda>((get_input, joined), s1).
       let stage_texts = (if get_input = 0 then files else butlast files);
           out = (case joined of None \<Rightarrow> int sock | Some u \<Rightarrow> u)
       in if hd (hd stage_texts) = CHR '' '' then Inr (Goes_On s1)
          else case (if length stage_texts = 1 then simple_builtin (hd stage_texts) s1 else None) of
                 Some r \<Rightarrow> r
               | None \<Rightarrow> bind_res (stages (simple_parser w (get_input = 0) n_pipe_err out) 0 0 True
                           get_input stage_texts s1) (\<lambda>s2. Inr (Goes_On s2)))))"

text \<open>
  \<open>handle_new_connection\<close> over the reads that follow each other, with the prompt before each; the
  last character of a read is cut off, a read without a character writes in front of the buffer.
\<close>

fun simple_serve :: "np_kernel \<Rightarrow> nat \<Rightarrow> string list \<Rightarrow> simple \<Rightarrow> simple progress res" where
  "simple_serve w sock [] s = Inr (Goes_On (tell_client ''% '' s))"
| "simple_serve w sock (bytes # later) s =
     (let line = takeWhile (\<lambda>c. c \<noteq> nul) bytes in
      if line = [] \<or> length line \<ge> 20000 then Inl Out_Of_Bounds
      else bind_res (simple_do_exec w sock (butlast line) (tell_client ''% '' s)) (\<lambda>p. case p of
             Exits s' \<Rightarrow> Inr (Exits s')
           | Goes_On s' \<Rightarrow> simple_serve w sock later s'))"

section \<open>What \<open>parser\<close> and \<open>do_exec\<close> do to the state\<close>

lemma simple_parser_keeps:
  "simple_parser w waiting err out i f l e g c s = Inr (d, s') \<Longrightarrow> keeps_table s s'"
  by (auto simp: simple_parser_def bind_res_Inr_iff dest!: start_command_Inr)

lemma simple_stages_table:
  "stages (simple_parser w waiting err out) own input first gi cs s = Inr s' \<Longrightarrow> cs \<noteq> [] \<Longrightarrow>
     \<exists>i u. keeps_table (if gi \<in> {2, 4} then store_slot i u (round_turned own first s)
       else round_turned own first s) s'"
  by (erule stages_table [rotated]) (auto dest: simple_parser_keeps)

lemma PATH_first: "getenv ''PATH'' (Live ''PATH=bin:.'' # es) = Inr (Some ''bin:.'')"
  "split_env ''bin:.'' = Inr [''bin'', ''.'']"
  by (simp_all add: split_env_def split_at_def tokens_eval)

lemma simple_parser_leaky:
  assumes "\<forall>n. np_heap w n = (0, 0)" "np_limit w \<le> 65536"
    and "simple_parser w waiting err out i f l e g c s = Inr (d, s')"
  shows "leaky_start i l s d s'"
proof -
  obtain r where "start_command w (getenv ''PATH'' (environ s)) (simple_kid w c f l g e err i out)
      (waiting \<and> l) i c s = Inr ((r, d), s')"
    using assms(3) by (auto simp: simple_parser_def bind_res_Inr_iff)
  from start_command_Inr [OF this] obtain ops dirs wr s1 where p: "np_pipe w s = Inr ((r, wr), s1)"
    "d = copied (np_heap w (np_pipes s)) r" "np_pipes s' = Suc (np_pipes s)"
    "np_fds s' = (if i \<noteq> 0 then close_int i (np_fds s1) else np_fds s1)"
    "waits s' = waits s @ (if waiting \<and> l
        then [(if np_forks w (np_pipes s) then Some (length (kids s)) else None, np_fds s1)] else [])"
    by blast
  have "r < 65536" using np_pipe_ends(6,7) [OF p(1)] assms(2) by simp
  then have "d = (int r, 0)" using p(2) assms(1) by (simp add: copied_zero)
  then show ?thesis unfolding leaky_start_def using p by (intro exI conjI) auto
qed

lemma simple_parser_runs:
  assumes "split_space c = Inr ops" "environ s = Live ''PATH=bin:.'' # es"
    and "np_pipe w s = Inr ((r, wr), s1)" "np_forks w (np_pipes s)"
  shows "simple_parser w waiting err out input first final enter gi c s =
    Inr (copied (np_heap w (np_pipes s)) r,
      s1\<lparr>np_fds := (if input \<noteq> 0 then close_int input (np_fds s1) else np_fds s1),
         kids := kids s @ [simple_kid w c first final gi enter err input out (r, wr) ops [''bin'', ''.''] (np_fds s1)],
         waits := waits s @ (if waiting \<and> final then [(Some (length (kids s)), np_fds s1)] else [])\<rparr>)"
  using start_command_runs [OF assms(1) PATH_first(1) [of es] PATH_first(2) assms(3,4)] assms(2)
  by (simp add: simple_parser_def)

text \<open>A program that is neither redirected nor nameless.\<close>

lemma simple_kid_runs:
  assumes "CHR ''>'' \<notin> set c" "ops \<noteq> []"
  shows "simple_kid w c first final gi enter err input out pipefd ops [''bin'', ''.''] t =
    Runs \<lparr>ch_argv = ops, ch_paths = [''bin/'' @ hd ops, ''./'' @ hd ops],
      ch_fds = simple_wire first final gi enter err input out (snd pipefd) t\<rparr>"
  using assms by (simp add: simple_kid_def simple_args_def simple_exec_def)

text \<open>Lines of stages, without and with a number, whose single stage is not a built-in.\<close>

definition runs_programs :: "string list \<Rightarrow> bool" where
  "runs_programs cs \<longleftrightarrow> stage_list cs
     \<and> (length cs = 1 \<longrightarrow> (\<forall>b \<in> {''printenv'', ''setenv'', ''exit''}. find_sub b (hd cs) = None))"

lemma do_exec_stages:
  assumes "runs_programs cs"
  shows "simple_do_exec w sock (show_line cs) s =
    bind_res (stages (simple_parser w True False (int sock)) 0 0 True 0 cs s) (\<lambda>s'. Inr (Goes_On s'))"
  using assms stage_list_pieces [of cs]
  by (auto simp: runs_programs_def simple_do_exec_def simple_builtin_def Let_def)

lemma do_exec_numbered:
  assumes "runs_programs cs" "n < 2 ^ 31 - 1" "pipe_at 0 s n = None"
  shows "simple_do_exec w sock (show_line (cs @ [nat_str n])) s =
    bind_res (stages (simple_parser w False False (int sock)) 0 0 True 2 cs
        (s\<lparr>slots := (slots s)[pos s := (slots s ! pos s)\<lparr>pipe_count := int n + 1, pipe_owner := 0\<rparr>]\<rparr>))
      (\<lambda>s'. Inr (Goes_On s'))"
proof -
  have "stage_list cs" using assms(1) by (simp add: runs_programs_def)
  moreover from this have "hd (cs @ [nat_str n]) = hd cs" "hd (hd cs) \<noteq> CHR '' ''" "cs \<noteq> []"
    by (auto simp: stage_list_def)
  ultimately show ?thesis
    using assms numbered_pieces [of cs n] plan_number_new [OF refl assms(2,3)]
    by (auto simp: runs_programs_def simple_do_exec_def simple_builtin_def Let_def)
qed

text \<open>A line of programs runs as long as there are descriptors, and makes one pipe for each.\<close>

lemma simple_parser_succeeds:
  assumes "split_space c = Inr ops" "environ s = Live ''PATH=bin:.'' # es" "length (np_fds s) + 2 \<le> np_limit w"
  shows "\<exists>d s'. simple_parser w waiting err out input first final enter gi c s = Inr (d, s')
    \<and> environ s' = environ s \<and> length (np_fds s') \<le> length (np_fds s) + 2 \<and> np_pipes s' = Suc (np_pipes s)"
proof -
  obtain r wr t where "np_pipe w s = Inr ((r, wr), s\<lparr>np_fds := t, np_pipes := Suc (np_pipes s)\<rparr>)"
    "length t \<le> length (np_fds s) + 2"
    using np_pipe_works [OF assms(3)] by blast
  then show ?thesis
    using assms(1,2) PATH_first
    by (simp add: simple_parser_def start_command_def Let_def shut_def close_int_def close_fd_def)
qed

lemma simple_stages_run:
  assumes "\<forall>c \<in> set cs. \<exists>v. split_space c = Inr v" "environ s = Live ''PATH=bin:.'' # es"
    and "length (np_fds s) + 2 * length cs \<le> np_limit w"
  shows "\<exists>s'. stages (simple_parser w waiting err out) own input first gi cs s = Inr s'
    \<and> np_pipes s' = np_pipes s + length cs"
proof (rule stages_run [where P = "\<lambda>t. environ t = Live ''PATH=bin:.'' # es", OF _ _ _ _ assms(2,3)])
  fix i f l e g c and t :: simple
  assume "c \<in> set cs" "environ t = Live ''PATH=bin:.'' # es" "length (np_fds t) + 2 \<le> np_limit w"
  then show "\<exists>d t'. simple_parser w waiting err out i f l e g c t = Inr (d, t') \<and> environ t' = Live ''PATH=bin:.'' # es
      \<and> length (np_fds t') \<le> length (np_fds t) + 2 \<and> np_pipes t' = Suc (np_pipes t)"
    using assms(1) simple_parser_succeeds [of c _ t es w] by fastforce
qed (simp_all add: shut_def turned_def store_slot_def)

lemma simple_line_runs:
  assumes "runs_programs cs" "\<forall>c \<in> set cs. \<exists>v. split_space c = Inr v" "environ s = Live ''PATH=bin:.'' # es"
    and "length (np_fds s) + 2 * length cs \<le> np_limit w"
  shows "\<exists>s'. simple_do_exec w sock (show_line cs) s = Inr (Goes_On s') \<and> np_pipes s' = np_pipes s + length cs"
    and "n < 2 ^ 31 - 1 \<Longrightarrow> pipe_at 0 s n = None \<Longrightarrow>
      \<exists>s'. simple_do_exec w sock (show_line (cs @ [nat_str n])) s = Inr (Goes_On s')"
proof -
  have run: "\<exists>s'. stages (simple_parser w waiting err out) own input first gi cs t = Inr s'
      \<and> np_pipes s' = np_pipes s + length cs"
    if "environ t = environ s" "np_fds t = np_fds s" "np_pipes t = np_pipes s" for waiting err out own input first gi t
    using simple_stages_run [OF assms(2), of t es w] assms(3,4) that by simp
  show "\<exists>s'. simple_do_exec w sock (show_line cs) s = Inr (Goes_On s') \<and> np_pipes s' = np_pipes s + length cs"
    using run [of s True False "int sock" 0 0 True 0] do_exec_stages [OF assms(1)] by auto
  assume n: "n < 2 ^ 31 - 1" "pipe_at 0 s n = None"
  let ?t = "s\<lparr>slots := (slots s)[pos s := (slots s ! pos s)\<lparr>pipe_count := int n + 1, pipe_owner := 0\<rparr>]\<rparr>"
  obtain s' where "stages (simple_parser w False False (int sock)) 0 0 True 2 cs ?t = Inr s'"
    using run [of ?t False False "int sock" 0 0 True 2] by auto
  then show "\<exists>s'. simple_do_exec w sock (show_line (cs @ [nat_str n])) s = Inr (Goes_On s')"
    using do_exec_numbered [OF assms(1) n, of w sock] by auto
qed

lemma simple_init_facts:
  "environ (simple_init 4) = Live ''PATH=bin:.'' # []" "length (np_fds (simple_init 4)) = 5"
  "table_sized (simple_init 4)" "pos (simple_init 4) = 0" "np_pipes (simple_init 4) = 0"
  "waits (simple_init 4) = []" "kids (simple_init 4) = []" "length (slots (simple_init 4)) = 1024"
  "\<forall>j < 1024. slots (simple_init 4) ! j = slot_init" "pipe_at 0 (simple_init 4) (Suc k) = None"
  by (simp_all add: simple_init_def fd_put_def table_sized_def pipe_at_def find_rev_None slot_init_def)

lemma ls_facts: "runs_programs [''ls'']" "runs_programs [''ls'', '' cat'']"
  "split_space ''ls'' = Inr [''ls'']" "split_space '' cat'' = Inr [''cat'']"
  by (simp_all add: runs_programs_def stage_list_def stage_text_def split_space_def split_at_def tokens_eval)

section \<open>Properties\<close>



text \<open>
  No pipe of a shell started afresh ever ends: with the zeroed memory that a new process gets from
  \<open>malloc\<close>, two bytes of the descriptors are copied, so 0 is closed in place of each writing
  end. Every pipe a line makes is still open for writing in the shell when the line is done, and while the shell waits for the line's last
  program.
\<close>

theorem simple_pipes_never_end:
  assumes "\<forall>n. np_heap w n = (0, 0)" "np_limit w \<le> 65536" "runs_programs cs"
    and "\<forall>j < 1000. pipe_count (slots s ! j) \<noteq> 1"
    and "simple_do_exec w sock (show_line cs) s = Inr (Goes_On s')"
    and "np_pipes s \<le> p" "p < np_pipes s'"
  shows "(\<exists>k. fd_get (np_fds s') k = Some (Pipe_Write p))
    \<and> (\<forall>(who, t) \<in> set (drop (length (waits s)) (waits s')). \<exists>k. fd_get t k = Some (Pipe_Write p))"
proof -
  have "stages (simple_parser w True False (int sock)) 0 0 True 0 cs s = Inr s'"
    using assms(5) do_exec_stages [OF assms(3)] by (auto simp: bind_res_Inr_iff)
  moreover have "due_slot 0 s = None" using assms(4) by (simp add: due_slot_def find_rev_None)
  ultimately have "writers_from (np_pipes s) s' (np_fds s')" "waits_from (np_pipes s) (length (waits s)) s'"
    using stages_writers [where parse = "simple_parser w True False (int sock)" and s = s and n = "np_pipes s"
        and first = True and own = 0 and input = 0]
      simple_parser_leaky [OF assms(1,2)]
    by (fastforce simp: writers_from_def readable_def)+
  then have w: "writer_open (np_fds s') p" "\<forall>x \<in> set (drop (length (waits s)) (waits s')). writer_open (snd x) p"
    using assms(6,7) by (simp_all add: writers_from_def waits_from_def)
  then show ?thesis unfolding writer_open_def by fastforce
qed

theorem simple_pipes_never_end_witness:
  "\<exists>s' k. simple_do_exec zero_kernel 4 ''ls| cat'' (simple_init 4) = Inr (Goes_On s')
    \<and> fd_get (np_fds s') k = Some (Pipe_Write 1)"
proof -
  obtain s' where s': "simple_do_exec zero_kernel 4 (show_line [''ls'', '' cat'']) (simple_init 4) = Inr (Goes_On s')"
    "np_pipes s' = 2"
    using simple_line_runs(1) [OF ls_facts(2) _ simple_init_facts(1), of zero_kernel 4]
      simple_init_facts(2,5) ls_facts(3,4) by (auto simp: zero_kernel_def)
  have "\<exists>k. fd_get (np_fds s') k = Some (Pipe_Write 1)"
    using simple_pipes_never_end [OF _ _ ls_facts(2) _ s'(1), of 1] s'(2) simple_init_facts
    by (simp add: zero_kernel_def slot_init_def)
  then show ?thesis using s'(1) by auto
qed

text \<open>A line of two programs, without a pipe that is due.\<close>

definition two_wired :: "string list \<Rightarrow> fd_table \<Rightarrow> np_kid" where
  "two_wired ops t = Runs \<lparr>ch_argv = ops, ch_paths = [''bin/'' @ hd ops, ''./'' @ hd ops], ch_fds = t\<rparr>"

lemma simple_two_programs:
  assumes "np_heap w = (\<lambda>_. (0, 0))" "np_forks w = (\<lambda>_. True)" "np_limit w \<le> 65536"
    and "length (np_fds s) + 4 \<le> np_limit w" "environ s = Live ''PATH=bin:.'' # es"
    and "runs_programs [a, b]" "CHR ''>'' \<notin> set a" "CHR ''>'' \<notin> set b"
    and "split_space a = Inr va" "va \<noteq> []" "split_space b = Inr vb" "vb \<noteq> []"
    and "\<forall>j < 1000. pipe_count (slots s ! j) \<noteq> 1" "\<forall>k < 3. fd_get (np_fds s) k \<noteq> None"
  shows "\<exists>s' r wr t1 r2 wr2 t2 x y. simple_do_exec w sock (show_line [a, b]) s = Inr (Goes_On s')
    \<and> np_pipe w (turned 0 s) = Inr ((r, wr), turned 0 s\<lparr>np_fds := t1, np_pipes := Suc (np_pipes s)\<rparr>)
    \<and> np_pipe w x = Inr ((r2, wr2), y) \<and> np_fds (x :: simple) = close_fd 0 t1 \<and> np_fds y = t2
    \<and> np_pipes x = Suc (np_pipes s)
    \<and> kids s' = kids s @ [two_wired va (simple_wire True False 0 False False 0 (int sock) wr t1),
         two_wired vb (simple_wire False True 0 False False (int r) (int sock) wr2 t2)]
    \<and> waits s' = waits s @ [(Some (Suc (length (kids s))), t2)]"
proof -
  let ?p = "np_pipes s" and ?s0 = "turned 0 s"
  obtain r wr t1 where one: "np_pipe w ?s0 = Inr ((r, wr), ?s0\<lparr>np_fds := t1, np_pipes := Suc ?p\<rparr>)"
    "length t1 \<le> length (np_fds s) + 2"
    using np_pipe_works [of ?s0 w] assms(4) by (auto simp: turned_def)
  define ka where "ka = two_wired va (simple_wire True False 0 False False 0 (int sock) wr t1)"
  define s2 where "s2 = ?s0\<lparr>np_fds := close_fd 0 t1, np_pipes := Suc ?p, kids := kids s @ [ka]\<rparr>"
  have run_a: "simple_parser w True False (int sock) 0 True False False 0 a ?s0
      = Inr ((int r, 0), ?s0\<lparr>np_fds := t1, np_pipes := Suc ?p, kids := kids s @ [ka]\<rparr>)"
    using simple_parser_runs [OF assms(9) _ one(1), of es True False "int sock" 0 True False False 0]
      np_pipe_ends(6,7) [OF one(1)] assms(1-3,5) simple_kid_runs [OF assms(7,10)]
    by (simp add: turned_def copied_zero ka_def two_wired_def)
  obtain r2 wr2 t2 where two: "np_pipe w s2 = Inr ((r2, wr2), s2\<lparr>np_fds := t2, np_pipes := Suc (Suc ?p)\<rparr>)"
    using np_pipe_works [of s2 w] assms(4) one(2) by (auto simp: s2_def close_fd_def)
  define kb where "kb = two_wired vb (simple_wire False True 0 False False (int r) (int sock) wr2 t2)"
  define s3 where "s3 = s2\<lparr>np_fds := (if r \<noteq> 0 then close_fd r t2 else t2), np_pipes := Suc (Suc ?p),
      kids := kids s @ [ka, kb], waits := waits s @ [(Some (Suc (length (kids s))), t2)]\<rparr>"
  have run_b: "simple_parser w True False (int sock) (int r) False True False 0 b s2 = Inr ((int r2, 0), s3)"
    using simple_parser_runs [OF assms(11) _ two, of es True False "int sock" "int r" False True False 0]
      np_pipe_ends(6,7) [OF two] assms(1-3,5) simple_kid_runs [OF assms(8,12)]
    by (simp add: s2_def s3_def turned_def copied_zero kb_def two_wired_def)
  have due: "due_slot 0 s = None" using assms(13) by (simp add: due_slot_def find_rev_None)
  have s2: "shut 0 (?s0\<lparr>np_fds := t1, np_pipes := Suc ?p, kids := kids s @ [ka]\<rparr>) = s2"
    by (simp add: shut_def s2_def)
  have "stages (simple_parser w True False (int sock)) 0 0 True 0 [a, b] s = Inr (shut 0 s3)"
    by (simp add: stages.simps due turned_def [symmetric] run_a s2 run_b)
  then have run: "simple_do_exec w sock (show_line [a, b]) s = Inr (Goes_On (shut 0 s3))"
    using do_exec_stages [OF assms(6)] by simp
  have res: "np_fds s2 = close_fd 0 t1" "np_fds (s2\<lparr>np_fds := t2, np_pipes := Suc (Suc ?p)\<rparr>) = t2"
    "np_pipes s2 = Suc ?p" "kids (shut 0 s3) = kids s @ [ka, kb]"
    "waits (shut 0 s3) = waits s @ [(Some (Suc (length (kids s))), t2)]"
    by (simp_all add: s2_def s3_def)
  show ?thesis
    using run one(1) two res unfolding ka_def kb_def by blast
qed

text \<open>
  C24. So every line of two programs deadlocks: the second reads the pipe that the first writes, and
  the shell waits for the second while it holds the writing end itself; the second has that end
  open as well.
\<close>

theorem simple_pipeline_deadlocks:
  assumes "np_heap w = (\<lambda>_. (0, 0))" "np_forks w = (\<lambda>_. True)" "np_limit w \<le> 65536"
    and "length (np_fds s) + 4 \<le> np_limit w" "environ s = Live ''PATH=bin:.'' # es"
    and "runs_programs [a, b]" "CHR ''>'' \<notin> set a" "CHR ''>'' \<notin> set b"
    and "split_space a = Inr va" "va \<noteq> []" "split_space b = Inr vb" "vb \<noteq> []"
    and "\<forall>j < 1000. pipe_count (slots s ! j) \<noteq> 1" "\<forall>k < 3. fd_get (np_fds s) k \<noteq> None"
  shows "\<exists>s' ka kb t. simple_do_exec w sock (show_line [a, b]) s = Inr (Goes_On s')
    \<and> kids s' = kids s @ [Runs ka, Runs kb] \<and> ch_argv ka = va \<and> ch_argv kb = vb
    \<and> fd_get (ch_fds ka) 1 = Some (Pipe_Write (np_pipes s))
    \<and> fd_get (ch_fds kb) 0 = Some (Pipe_Read (np_pipes s)) \<and> writer_open (ch_fds kb) (np_pipes s)
    \<and> waits s' = waits s @ [(Some (Suc (length (kids s))), t)] \<and> writer_open t (np_pipes s)"
proof -
  let ?p = "np_pipes s"
  obtain s' r wr t1 r2 wr2 t2 x y where
    run: "simple_do_exec w sock (show_line [a, b]) s = Inr (Goes_On s')"
    and one: "np_pipe w (turned 0 s) = Inr ((r, wr), turned 0 s\<lparr>np_fds := t1, np_pipes := Suc ?p\<rparr>)"
    and two: "np_pipe w x = Inr ((r2, wr2), y)" "np_fds (x :: simple) = close_fd 0 t1" "np_fds y = t2" "np_pipes x = Suc ?p"
    and res: "kids s' = kids s @ [two_wired va (simple_wire True False 0 False False 0 (int sock) wr t1),
         two_wired vb (simple_wire False True 0 False False (int r) (int sock) wr2 t2)]"
      "waits s' = waits s @ [(Some (Suc (length (kids s))), t2)]"
    using simple_two_programs [OF assms] by blast
  have t1: "t1 = fd_put (fd_put (np_fds s) r (Pipe_Read ?p)) wr (Pipe_Write ?p)"
    and e1: "fd_get (np_fds s) r = None" "wr \<noteq> r" "0 < wr" "fd_get (np_fds s) wr = None"
    using np_pipe_ends [OF one] by simp_all
  have t2: "t2 = fd_put (fd_put (close_fd 0 t1) r2 (Pipe_Read (Suc ?p))) wr2 (Pipe_Write (Suc ?p))"
    and e2: "fd_get (close_fd 0 t1) r2 = None" "fd_get (close_fd 0 t1) wr2 = None"
    using np_pipe_ends [OF two(1)] two(2-4) by simp_all
  have "\<not> r < 3" "\<not> wr < 3" using e1(1,4) assms(14) by blast+
  then have std: "r \<noteq> 0" "wr \<noteq> 1" "wr \<noteq> 2" by simp_all
  then have old: "fd_get t2 r = Some (Pipe_Read ?p)" "fd_get t2 wr = Some (Pipe_Write ?p)"
    using e1 e2 unfolding t1 t2 by (auto split: if_splits)
  let ?ka = "simple_wire True False 0 False False 0 (int sock) wr t1"
    and ?kb = "simple_wire False True 0 False False (int r) (int sock) wr2 t2"
  have "fd_get ?ka 1 = Some (Pipe_Write ?p)"
    using e1(2) by (simp add: simple_wire_def t1 fd_get_dup2)
  moreover have "fd_get ?kb 0 = Some (Pipe_Read ?p)" "fd_get ?kb wr = Some (Pipe_Write ?p)"
    using e1(3) old(2) std fd_get_dup2_open [OF old(1), of 0]
    by (simp_all add: simple_wire_def fd_get_dup2_other)
  moreover have "writer_open ?kb ?p" "writer_open t2 ?p"
    using calculation(3) old(2) e1(3) by (auto simp: writer_open_def)
  ultimately show ?thesis using run res by (auto simp: two_wired_def)
qed

theorem simple_pipeline_deadlocks_witness:
  "\<exists>s' ka kb t. simple_do_exec zero_kernel 4 ''ls| cat'' (simple_init 4) = Inr (Goes_On s')
    \<and> kids s' = [Runs ka, Runs kb] \<and> fd_get (ch_fds kb) 0 = Some (Pipe_Read 0)
    \<and> waits s' = [(Some 1, t)] \<and> writer_open t 0"
proof -
  have "\<forall>k < 3. fd_get (np_fds (simple_init 4)) k \<noteq> None"
    by (auto simp: simple_init_def less_Suc_eq numeral_3_eq_3 fd_get_def)
  then show ?thesis
    using simple_pipeline_deadlocks [of zero_kernel "simple_init 4" "[]" "''ls''" "'' cat''" "[''ls'']" "[''cat'']" 4]
      simple_init_facts ls_facts by (fastforce simp: zero_kernel_def slot_init_def)
qed

lemma simple_parser_kids:
  assumes "simple_parser w waiting err out input first final enter gi c s = Inr (d, s')"
  shows "prefix (kids s) (kids s')"
  using assms by (auto simp: simple_parser_def bind_res_Inr_iff dest!: start_command_Inr)

text \<open>
  When a numbered pipe is due, the first of several stages reads it, but its output does not go to
  the second stage: \<open>parser\<close> has no case for it, and both its output and its errors go to the
  client.
\<close>

theorem simple_first_stage_bypasses_pipe:
  assumes "np_forks w = (\<lambda>_. True)" "environ s = Live ''PATH=bin:.'' # es"
    and "runs_programs (a # b # cs)" "CHR ''>'' \<notin> set a" "split_space a = Inr va" "va \<noteq> []"
    and "due_slot 0 s = Some j" "pipe_in (slots s ! j) = int i" "2 < i" "2 < sock"
    and "pipe_out (slots s ! j) \<noteq> int i" "pipe_out (slots s ! j) \<noteq> int sock"
    and "fd_get (np_fds s) i = Some (Pipe_Read q)" "fd_get (np_fds s) sock = Some (Sock 0)"
    and "simple_do_exec w sock (show_line (a # b # cs)) s = Inr (Goes_On s')"
  shows "\<exists>ka. kids s' ! length (kids s) = Runs ka \<and> ch_argv ka = va
    \<and> fd_get (ch_fds ka) 0 = Some (Pipe_Read q)
    \<and> fd_get (ch_fds ka) 1 = Some (Sock 0) \<and> fd_get (ch_fds ka) 2 = Some (Sock 0)"
proof -
  let ?parse = "simple_parser w True False (int sock)" and ?s1 = "round_state 0 True s"
  have "stages ?parse 0 0 True 0 (a # b # cs) s = Inr s'"
    using assms(15) do_exec_stages [OF assms(3)] by (auto simp: bind_res_Inr_iff)
  then obtain d s3 e where r: "?parse (int i) True False True 0 a ?s1 = Inr (d, s3)"
    "stages ?parse 0 (fst d) False 0 (b # cs) e = Inr s'" "kids e = kids s3"
    unfolding stages_Cons [of _ _ _ _ _ a] by (auto simp: round_input_def round_due_def round_gi_def assms(7,8))
  have fds: "np_fds ?s1 = close_int (pipe_out (slots s ! j)) (np_fds s)" "environ ?s1 = environ s"
    "np_pipes ?s1 = np_pipes s"
    by (simp_all add: round_state_def round_due_def assms(7)) (simp_all add: shut_def turned_def)
  obtain r wr s1 where p: "np_pipe w ?s1 = Inr ((r, wr), s1)"
    using r(1) by (auto simp: simple_parser_def bind_res_Inr_iff dest!: start_command_Inr)
  note ends = np_pipe_ends [OF p]
  have t: "fd_get (np_fds s1) i = Some (Pipe_Read q)" "fd_get (np_fds s1) sock = Some (Sock 0)"
    using assms(11-14) ends(2,3) unfolding ends(1) fds(1)
    by (auto simp: fd_get_close_int_other split: if_splits)
  define ka where "ka = \<lparr>ch_argv = va, ch_paths = [''bin/'' @ hd va, ''./'' @ hd va],
    ch_fds = simple_wire True False 0 True False (int i) (int sock) wr (np_fds s1)\<rparr>"
  have "kids s3 = kids s @ [Runs ka]"
    using r(1) simple_parser_runs [OF assms(5) _ p, of es True False "int sock" "int i" True False True 0]
      simple_kid_runs [OF assms(4,6)] assms(1,2) fds(2) by (auto simp: ka_def)
  moreover have "prefix (kids e) (kids s')"
    by (rule stages_kids [OF _ r(2)]) (rule simple_parser_kids)
  ultimately have "kids s' ! length (kids s) = Runs ka" using r(3) by (auto simp: prefix_def)
  moreover have "fd_get (ch_fds ka) 0 = Some (Pipe_Read q)" "fd_get (ch_fds ka) 1 = Some (Sock 0)"
    "fd_get (ch_fds ka) 2 = Some (Sock 0)"
    using t assms(9,10) by (simp_all add: ka_def simple_wire_def fd_get_dup2)
  ultimately show ?thesis by (auto simp: ka_def)
qed

theorem simple_first_stage_bypasses_pipe_witness:
  "let s = (simple_init 4)\<lparr>np_fds := fd_put (np_fds (simple_init 4)) 5 (Pipe_Read 9),
         slots := (slots (simple_init 4))[0 := \<lparr>pipe_in = 5, pipe_count = 1, pipe_out = 0, pipe_owner = 0\<rparr>]\<rparr>
   in \<exists>s' ka. simple_do_exec zero_kernel 4 ''ls| cat'' s = Inr (Goes_On s') \<and> kids s' ! 0 = Runs ka
     \<and> fd_get (ch_fds ka) 0 = Some (Pipe_Read 9) \<and> fd_get (ch_fds ka) 1 = Some (Sock 0)"
proof -
  let ?s = "(simple_init 4)\<lparr>np_fds := fd_put (np_fds (simple_init 4)) 5 (Pipe_Read 9),
    slots := (slots (simple_init 4))[0 := \<lparr>pipe_in = 5, pipe_count = 1, pipe_out = 0, pipe_owner = 0\<rparr>]\<rparr>"
  have "fd_get (np_fds ?s) 5 = Some (Pipe_Read 9)" "fd_get (np_fds ?s) 4 = Some (Sock 0)"
    by (simp_all add: simple_init_def)
  moreover have "environ ?s = Live ''PATH=bin:.'' # []" "length (np_fds ?s) = 6" "kids ?s = []"
    "slots ?s ! 0 = \<lparr>pipe_in = 5, pipe_count = 1, pipe_out = 0, pipe_owner = 0\<rparr>"
    using simple_init_facts(1,7) by (simp_all add: simple_init_def fd_put_def)
  ultimately have f: "environ ?s = Live ''PATH=bin:.'' # []" "length (np_fds ?s) = 6" "kids ?s = []"
    "fd_get (np_fds ?s) 5 = Some (Pipe_Read 9)" "fd_get (np_fds ?s) 4 = Some (Sock 0)"
    "slots ?s ! 0 = \<lparr>pipe_in = 5, pipe_count = 1, pipe_out = 0, pipe_owner = 0\<rparr>" by simp_all
  have due: "due_slot 0 ?s = Some 0"
    unfolding due_slot_def find_rev_Some by (auto simp: simple_init_def nth_list_update slot_init_def)
  obtain s' where s': "simple_do_exec zero_kernel 4 (show_line [''ls'', '' cat'']) ?s = Inr (Goes_On s')"
    using simple_line_runs(1) [OF ls_facts(2) _ f(1), of zero_kernel 4] f(2) ls_facts(3,4)
    by (auto simp: zero_kernel_def)
  obtain ka where "kids s' ! 0 = Runs ka" "fd_get (ch_fds ka) 0 = Some (Pipe_Read 9)"
    "fd_get (ch_fds ka) 1 = Some (Sock 0)"
    using simple_first_stage_bypasses_pipe [OF _ f(1) ls_facts(2) _ ls_facts(3) _ due, of zero_kernel 5 4 9 s']
      f s' by (auto simp: zero_kernel_def)
  then show ?thesis using s' by (auto simp: Let_def)
qed

lemma putenv_dangles:
  "\<exists>es'. putenv name Dangling (map Live es) = Inr es' \<and> getenv name es' = Inl Dangling_Pointer"
  by (induction es) auto

lemma setenv_tokens:
  assumes "name \<noteq> []" "CHR '' '' \<notin> set name" "val \<noteq> []" "CHR '' '' \<notin> set val"
  shows "split_space (''setenv '' @ name @ '' '' @ val) = Inr [''setenv'', name, val]"
proof -
  have "tokens (is_delim CHR '' '') (''setenv'' @ CHR '' '' # r) = ''setenv'' # tokens (is_delim CHR '' '') r" for r
    by (rule tokens_first) (simp_all add: is_delim_def)
  then have "tokens (is_delim CHR '' '') (''setenv'' @ CHR '' '' # name @ CHR '' '' # val) = [''setenv'', name, val]"
    using assms tokens_first [of name "is_delim CHR '' ''" "CHR '' ''"] tokens_single [of val "is_delim CHR '' ''"]
    by (simp add: delim_facts)
  then show ?thesis by (simp add: split_space_def split_at_def)
qed

text \<open>
  \<open>setenv\<close> leaves a dangling pointer in the environment: the variable cannot be read afterwards,
  and when it is \<open>PATH\<close>, no program can be started any more.
\<close>

theorem simple_setenv_dangles:
  assumes "environ s = map Live es" "CHR ''='' \<notin> set name" "name \<noteq> []" "CHR '' '' \<notin> set name"
    and "val \<noteq> []" "CHR '' '' \<notin> set val" "length name + length val < 511"
    and "line = ''setenv '' @ name @ '' '' @ val" "stage_text line" "find_sub ''printenv'' line = None"
  shows "\<exists>s'. simple_do_exec w sock line s = Inr (Goes_On s')
    \<and> getenv name (environ s') = Inl Dangling_Pointer
    \<and> (\<forall>c v. name = ''PATH'' \<and> runs_programs [c] \<and> split_space c = Inr v \<longrightarrow>
         simple_do_exec w sock c s' = Inl Dangling_Pointer)"
proof -
  have "takeWhile (\<lambda>c. c \<noteq> CHR ''='') name = name" using assms(2) by (auto simp: takeWhile_eq_all_conv)
  then obtain es' where es': "putenv (takeWhile (\<lambda>c. c \<noteq> CHR ''='') name) Dangling (environ s) = Inr es'"
    "getenv name es' = Inl Dangling_Pointer"
    using putenv_dangles [of name es] assms(1) by auto
  then have "simple_builtin line s = Some (Inr (Goes_On (s\<lparr>environ := es'\<rparr>)))"
    using assms(10) setenv_tokens [OF assms(3-6)] assms(7) es'(1) by (simp add: simple_builtin_def assms(8))
  moreover have "stage_list [line]" using assms(8,9) by (simp add: stage_list_def)
  ultimately have "simple_do_exec w sock line s = Inr (Goes_On (s\<lparr>environ := es'\<rparr>))"
    using stage_list_pieces [of "[line]"] by (simp add: simple_do_exec_def Let_def)
  moreover have "simple_do_exec w sock c (s\<lparr>environ := es'\<rparr>) = Inl Dangling_Pointer"
    if c: "name = ''PATH''" "runs_programs [c]" "split_space c = Inr v" for c v
  proof -
    have "simple_parser w True False out i f l e g c t = Inl Dangling_Pointer" if "environ t = es'" for out i f l e g t
      using es'(2) c(1,3) that by (simp add: simple_parser_def start_command_def)
    moreover have "environ (round_state 0 True (s\<lparr>environ := es'\<rparr>)) = es'"
      by (simp add: round_state_def shut_def turned_def split: option.split)
    ultimately have "stages (simple_parser w True False (int sock)) 0 0 True 0 [c] (s\<lparr>environ := es'\<rparr>)
        = Inl Dangling_Pointer"
      by (simp add: stages.simps Let_def shut_def split: option.split)
    then show ?thesis using do_exec_stages [OF c(2)] by simp
  qed
  ultimately show ?thesis using es'(2) by auto
qed

theorem simple_setenv_dangles_witness:
  "\<exists>s'. simple_do_exec zero_kernel 4 ''setenv PATH bin'' (simple_init 4) = Inr (Goes_On s')
    \<and> simple_do_exec zero_kernel 4 ''ls'' s' = Inl Dangling_Pointer"
  using simple_setenv_dangles [of "simple_init 4" "[''PATH=bin:.'']" "''PATH''" "''bin''" "''setenv PATH bin''" zero_kernel 4]
    simple_init_facts(1) ls_facts(1,3) by (force simp: stage_text_def)

text \<open>
  The table has 1024 places and the next place runs up to 1000, but only the first thousand are
  searched and counted down: the pipe that is stored at place 1000 is never read by any later line, and the first
  place is the next.
\<close>

theorem simple_pipe_1000_lost:
  assumes "runs_programs cs" "table_sized s" "pos s = 1000" "Suc n < 2 ^ 31 - 1" "pipe_at 0 s (Suc n) = None"
    and "simple_do_exec w sock (show_line (cs @ [nat_str (Suc n)])) s = Inr (Goes_On s')"
  shows "pos s' = 0 \<and> (\<forall>k. pipe_at 0 s' k = pipe_at 0 s (Suc k))"
proof -
  let ?s1 = "s\<lparr>slots := (slots s)[pos s := (slots s ! pos s)\<lparr>pipe_count := int n + 2, pipe_owner := 0\<rparr>]\<rparr>"
  have ne: "cs \<noteq> []" using assms(1) by (simp add: runs_programs_def stage_list_def)
  have "stages (simple_parser w False False (int sock)) 0 0 True 2 cs ?s1 = Inr s'"
    using assms(6) do_exec_numbered [OF assms(1,4,5), of w sock] by (auto simp: bind_res_Inr_iff add.commute)
  from simple_stages_table [OF this ne] obtain i u where keep: "keeps_table (store_slot i u (turned 0 ?s1)) s'"
    by auto
  have "pipe_at 0 (store_slot i u (turned 0 ?s1)) k = pipe_at 0 (turned 0 s) k" for k
  proof -
    have "slots (store_slot i u (turned 0 ?s1)) ! j = slots (turned 0 s) ! j" if "j < 1000" for j
      using that assms(2,3) by (simp add: store_slot_def turned_def count_down_def nth_append table_sized_def)
    then show ?thesis
      unfolding pipe_at_def by (intro option.map_cong find_rev_cong) (auto simp: find_rev_Some)
  qed
  then show ?thesis
    using keep pipe_at_keeps [OF keep] pipe_at_turned [OF assms(2)] assms(3)
    by (simp add: keeps_table_def store_slot_def)
qed

theorem simple_pipe_1000_lost_witness:
  "\<exists>s'. simple_do_exec zero_kernel 4 ''ls|1'' ((simple_init 4)\<lparr>pos := 1000\<rparr>) = Inr (Goes_On s')
    \<and> pipe_at 0 s' 0 = None"
proof -
  let ?s = "(simple_init 4)\<lparr>pos := 1000\<rparr>"
  have f: "environ ?s = Live ''PATH=bin:.'' # []" "length (np_fds ?s) = 5" "table_sized ?s"
    "pipe_at 0 ?s (Suc k) = None" for k
    using simple_init_facts(1-3,10) by (simp_all add: table_sized_def pipe_at_def)
  have one: "nat_str 1 = ''1''" by code_simp
  obtain s' where s': "simple_do_exec zero_kernel 4 (show_line ([''ls''] @ [nat_str (Suc 0)])) ?s = Inr (Goes_On s')"
    using simple_line_runs(2) [OF ls_facts(1) _ f(1), of zero_kernel "Suc 0" 4] f(2,4) ls_facts(3)
    by (auto simp: zero_kernel_def)
  have "pipe_at 0 s' 0 = None"
    using simple_pipe_1000_lost [OF ls_facts(1) f(3) _ _ f(4) s'] f(4) by simp
  then show ?thesis using s' one by auto
qed

end
