(* ===== verification/Np_Chat.thy ===== *)
theory Np_Chat
  imports Np_Pipes
begin

text \<open>
  The chat half of \<open>project2/np_single_proc.cpp\<close>: the table of users, login and logout, the
  environment each user has, and the built-in commands \<open>who\<close>, \<open>tell\<close>, \<open>yell\<close>, \<open>name\<close>,
  \<open>printenv\<close>, \<open>setenv\<close> and \<open>exit\<close> with the test that recognises them. The global arrays are lists of
  their declared lengths, an index outside them is \<open>Out_Of_Bounds\<close>. Each \<open>printf\<close> to a user is a
  message in \<open>outbox\<close>, in order; the server is taken to have a line-buffered standard output, so that
  a line printed between two \<open>dup2\<close> calls goes to the user meant.
\<close>

section \<open>State\<close>

definition MAX_USER_NUM :: nat where "MAX_USER_NUM = 60"

record env_map =
  env_num :: nat
  env_keys :: "string list"
  env_vals :: "string list"

record chat =
  clients_size :: nat
  clients_fd_set :: "nat list"
  nickname :: "string list"
  clients_env :: "env_map list"
  clients_addr_in :: "(string \<times> nat) list"
  user_pipe_flag :: "nat \<Rightarrow> nat \<Rightarrow> bool"
  outbox :: "(nat \<times> string) list"

definition env_init :: env_map where
  "env_init = \<lparr>env_num = 0, env_keys = replicate 100 [], env_vals = replicate 100 []\<rparr>"

definition chat_init :: chat where
  "chat_init =
     \<lparr>clients_size = 0, clients_fd_set = replicate 60 0, nickname = replicate 60 [],
      clients_env = replicate 60 env_init, clients_addr_in = replicate 60 ([], 0),
      user_pipe_flag = (\<lambda>i j. False), outbox = []\<rparr>"

definition say :: "nat \<Rightarrow> string \<Rightarrow> chat \<Rightarrow> chat" where
  "say fd msg s = s\<lparr>outbox := outbox s @ [(fd, msg)]\<rparr>"

text \<open>The loop that prints the same text to every user that is logged in.\<close>

definition users :: "chat \<Rightarrow> nat list" where
  "users s = filter (\<lambda>i. clients_fd_set s ! i \<noteq> 0) [0..<clients_size s]"

definition broadcast :: "nat list \<Rightarrow> string \<Rightarrow> chat \<Rightarrow> chat" where
  "broadcast ids msg s = fold (\<lambda>i. say (clients_fd_set s ! i) msg) ids s"

text \<open>The search for the place of a descriptor that many routines start with.\<close>

definition find_client :: "nat \<Rightarrow> chat \<Rightarrow> nat option" where
  "find_client fd s = List.find (\<lambda>i. clients_fd_set s ! i = fd) [0..<clients_size s]"

section \<open>Environment\<close>

definition env_label :: "string \<Rightarrow> env_map \<Rightarrow> nat option" where
  "env_label key e = List.find (\<lambda>i. env_keys e ! i = key) [0..<min (env_num e) 100]"

text \<open>
  \<open>load_env\<close>: a new variable goes to the index that the count of the next place gives
  (\<open>env[clientid]\<close>, where \<open>clientid\<close> counts from 1).
\<close>

definition load_env :: "nat \<Rightarrow> string \<Rightarrow> chat \<Rightarrow> chat res" where
  "load_env fd env_str s =
     (case tokens (is_delim CHR ''='') env_str of
        key # val # _ \<Rightarrow>
          (case find_client fd s of
             None \<Rightarrow> Inl Out_Of_Bounds
           | Some c \<Rightarrow>
               (let e = clients_env s ! c in
                case env_label key e of
                  Some i \<Rightarrow>
                    if length val \<ge> 100 then Inl Buffer_Overflow
                    else Inr (s\<lparr>clients_env := (clients_env s)[c := e\<lparr>env_vals := (env_vals e)[i := val]\<rparr>]\<rparr>)
                | None \<Rightarrow>
                    if env_num e > 100 \<or> c + 1 \<ge> MAX_USER_NUM then Inl Out_Of_Bounds
                    else
                      (let k = env_num (clients_env s ! (c + 1)) in
                       if k \<ge> 100 then Inl Out_Of_Bounds
                       else if length key \<ge> 100 \<or> length val \<ge> 100 then Inl Buffer_Overflow
                       else Inr (s\<lparr>clients_env := (clients_env s)[c :=
                              e\<lparr>env_keys := (env_keys e)[k := key], env_vals := (env_vals e)[k := val],
                                env_num := Suc (env_num e)\<rparr>]\<rparr>))))
      | _ \<Rightarrow> Inl Null_Pointer)"

text \<open>
  \<open>do_printenv\<close> returns in the first round of its loop, with \<open>val\<close> uninitialised when the first
  variable is another one; without a round, and for an unknown descriptor, the result is
  undefined too.
\<close>

definition do_printenv :: "nat \<Rightarrow> string \<Rightarrow> chat \<Rightarrow> string res" where
  "do_printenv fd key s =
     (case find_client fd s of
        None \<Rightarrow> Inl Uninitialised_Read
      | Some c \<Rightarrow>
          (let e = clients_env s ! c in
           if env_num e = 0 then Inl Uninitialised_Read
           else if env_keys e ! 0 = key then Inr (env_vals e ! 0)
           else Inl Uninitialised_Read))"

section \<open>Login and logout\<close>

definition entered_line :: "string \<Rightarrow> nat \<Rightarrow> string" where
  "entered_line ip port =
     ''*** User '' @ [CHR 0x27] @ ''(no name)'' @ [CHR 0x27] @ '' entered from '' @ ip @ '':'' @ nat_str port
       @ ''. ***'' @ [newline]"

definition welcome_text :: string where
  "welcome_text = unlines [''****************************************'',
     ''** Welcome to the information server. **'', ''****************************************'']"

text \<open>\<open>handle_new_connection(ssock, fsin)\<close>, before the user is in the table.\<close>

definition greet :: "nat \<Rightarrow> string \<Rightarrow> nat \<Rightarrow> chat \<Rightarrow> chat" where
  "greet fd ip port s =
     broadcast (filter (\<lambda>i. clients_fd_set s ! i \<noteq> fd) (users s)) (entered_line ip port)
       (say fd ''% '' (say fd (entered_line ip port) (say fd welcome_text s)))"

fun register_loop :: "nat list \<Rightarrow> nat \<Rightarrow> string \<times> nat \<Rightarrow> chat \<Rightarrow> chat res" where
  "register_loop [] fd addr s = Inr s"
| "register_loop (i # idxs) fd addr s =
     (if i \<ge> MAX_USER_NUM then Inl Out_Of_Bounds
      else if clients_fd_set s ! i = 0
      then Inr (s\<lparr>clients_fd_set := (clients_fd_set s)[i := fd],
                  clients_addr_in := (clients_addr_in s)[i := addr],
                  nickname := (nickname s)[i := ''(no name)''],
                  clients_size := (if i = clients_size s then Suc (clients_size s) else clients_size s)\<rparr>)
      else register_loop idxs fd addr s)"

definition register :: "nat \<Rightarrow> string \<times> nat \<Rightarrow> chat \<Rightarrow> chat res" where
  "register fd addr s = register_loop [0..<Suc (clients_size s)] fd addr s"

definition login :: "nat \<Rightarrow> string \<Rightarrow> nat \<Rightarrow> chat \<Rightarrow> chat res" where
  "login fd ip port s =
     bind_res (register fd (ip, port) (greet fd ip port s)) (load_env fd ''PATH=bin:.'')"

definition left_line :: "string \<Rightarrow> string" where
  "left_line nick = ''*** User '' @ [CHR 0x27] @ nick @ [CHR 0x27] @ '' left. ***'' @ [newline]"

text \<open>\<open>user_pipe\<close> has 31 rows and columns; \<open>cid\<close> counts from 1.\<close>

definition broadcast_logout :: "nat \<Rightarrow> chat \<Rightarrow> chat res" where
  "broadcast_logout cid s =
     (if cid > 30 then Inl Out_Of_Bounds
      else
        (let s1 = s\<lparr>user_pipe_flag := (\<lambda>i j. if (i = cid \<and> j \<in> {1..30}) \<or> (j = cid \<and> i \<in> {1..30}) then False
                                         else user_pipe_flag s i j)\<rparr>
         in Inr (broadcast (filter (\<lambda>i. i \<noteq> cid - 1) (users s1)) (left_line (nickname s ! (cid - 1))) s1)))"

definition free_place :: "nat \<Rightarrow> chat \<Rightarrow> chat" where
  "free_place i s = s\<lparr>clients_fd_set := (clients_fd_set s)[i := 0]\<rparr>"

fun logout_loop :: "nat list \<Rightarrow> nat \<Rightarrow> chat \<Rightarrow> chat res" where
  "logout_loop [] fd s = Inr s"
| "logout_loop (i # idxs) fd s =
     (if i \<ge> MAX_USER_NUM then Inl Out_Of_Bounds
      else if clients_fd_set s ! i = fd then broadcast_logout (i + 1) (free_place i s)
      else logout_loop idxs fd s)"

definition logout :: "nat \<Rightarrow> chat \<Rightarrow> chat res" where
  "logout fd s = logout_loop [0..<Suc (clients_size s)] fd s"

section \<open>Built-in commands\<close>

definition addr_str :: "string \<times> nat \<Rightarrow> string" where
  "addr_str a = fst a @ '':'' @ nat_str (snd a)"

definition tab :: char where "tab = CHR 0x09"

definition who_header :: string where
  "who_header = ''<ID>'' @ [tab] @ ''<nickname>'' @ [tab] @ ''<IP:port>'' @ [tab] @ ''<indicate me>'' @ [newline]"

definition who_line :: "nat \<Rightarrow> nat \<Rightarrow> chat \<Rightarrow> string" where
  "who_line fd i s =
     nat_str (i + 1) @ [tab] @ nickname s ! i @ [tab] @ addr_str (clients_addr_in s ! i)
       @ (if clients_fd_set s ! i = fd then [tab] @ ''<-me'' else []) @ [newline]"

text \<open>The loop of \<open>who\<close> runs up to and including \<open>size\<close>.\<close>

definition execute_who :: "nat \<Rightarrow> chat \<Rightarrow> chat res" where
  "execute_who fd s =
     (if clients_size s \<ge> MAX_USER_NUM then Inl Out_Of_Bounds
      else Inr (fold (\<lambda>i. say fd (who_line fd i s))
                  (filter (\<lambda>i. clients_fd_set s ! i \<noteq> 0) [0..<Suc (clients_size s)]) (say fd who_header s)))"

text \<open>The words of a message, joined by blanks in a buffer of \<open>n\<close> bytes.\<close>

fun join_words :: "string list \<Rightarrow> string" where
  "join_words [] = []"
| "join_words [w] = w"
| "join_words (w # ws) = w @ '' '' @ join_words ws"

definition no_user_line :: "int \<Rightarrow> string" where
  "no_user_line i = ''*** Error: user #'' @ int_str i @ '' does not exist yet. ***'' @ [newline]"

definition tell_line :: "string \<Rightarrow> string \<Rightarrow> string" where
  "tell_line nick msg = ''*** '' @ nick @ '' told you ***: '' @ msg @ [newline]"

definition execute_tell :: "nat \<Rightarrow> string list \<Rightarrow> chat \<Rightarrow> chat res" where
  "execute_tell fd operand s =
     (case operand of
        _ # who # rest \<Rightarrow>
          (let receid = atoi who - 1 in
           if receid < 0 \<or> int MAX_USER_NUM \<le> receid then Inl Out_Of_Bounds
           else if clients_fd_set s ! nat receid = 0 then Inr (say fd (no_user_line (receid + 1)) s)
           else if rest = [] then Inl Null_Pointer
           else if length (join_words rest) \<ge> 512 then Inl Buffer_Overflow
           else (case find_client fd s of
                   None \<Rightarrow> Inl Uninitialised_Read
                 | Some c \<Rightarrow> Inr (say (clients_fd_set s ! nat receid)
                                    (tell_line (nickname s ! c) (join_words rest)) s)))
      | _ \<Rightarrow> Inl Null_Pointer)"

definition yell_line :: "string \<Rightarrow> string \<Rightarrow> string" where
  "yell_line nick msg = ''*** '' @ nick @ '' yelled ***: '' @ msg @ [newline]"

definition execute_yell :: "nat \<Rightarrow> string list \<Rightarrow> chat \<Rightarrow> chat res" where
  "execute_yell fd operand s =
     (if length operand < 2 then Inl Null_Pointer
      else if length (join_words (tl operand)) + 1 \<ge> 1024 then Inl Buffer_Overflow
      else (case find_client fd s of
              None \<Rightarrow> Inl Uninitialised_Read
            | Some c \<Rightarrow> Inr (broadcast (users s) (yell_line (nickname s ! c) (join_words (tl operand))) s)))"

definition taken_line :: "string \<Rightarrow> string" where
  "taken_line nick = ''*** User '' @ [CHR 0x27] @ nick @ [CHR 0x27] @ '' already exists. ***'' @ [newline]"

definition named_line :: "string \<times> nat \<Rightarrow> string \<Rightarrow> string" where
  "named_line a nick = ''*** User from '' @ addr_str a @ '' is named '' @ [CHR 0x27] @ nick @ [CHR 0x27]
     @ ''. ***'' @ [newline]"

definition execute_name :: "nat \<Rightarrow> string list \<Rightarrow> chat \<Rightarrow> chat res" where
  "execute_name fd operand s =
     (case operand of
        _ # nick # _ \<Rightarrow>
          if length nick \<ge> 100 then Inl Buffer_Overflow
          else if \<exists>i \<in> set (users s). clients_fd_set s ! i \<noteq> fd \<and> nickname s ! i = nick
          then Inr (say fd (taken_line nick) s)
          else (case List.find (\<lambda>i. clients_fd_set s ! i = fd) (rev [0..<clients_size s]) of
                  None \<Rightarrow> Inl Uninitialised_Read
                | Some c \<Rightarrow>
                    (let s1 = s\<lparr>nickname := (nickname s)[c := nick]\<rparr>
                     in Inr (broadcast (users s1) (named_line (clients_addr_in s ! c) nick) s1)))
      | _ \<Rightarrow> Inl Null_Pointer)"

section \<open>Recognising a command\<close>

text \<open>The tests of \<open>do_exec\<close>, in their order, on a line without pipes.\<close>

datatype builtin = Printenv | Setenv | Exit | Who | Tell | Yell | Name | External

definition contains :: "string \<Rightarrow> string \<Rightarrow> bool" where
  "contains cmd w \<longleftrightarrow> find_sub w cmd \<noteq> None"

definition builtin_of :: "string \<Rightarrow> builtin" where
  "builtin_of cmd =
     (if contains cmd ''printenv'' then Printenv
      else if contains cmd ''setenv'' then Setenv
      else if contains cmd ''exit'' then Exit
      else if contains cmd ''who'' then Who
      else if contains cmd ''tell'' then Tell
      else if contains cmd ''yell'' then Yell
      else if contains cmd ''name'' then Name
      else External)"

text \<open>\<open>Elsewhere\<close>: the line goes on to the code that runs programs and pipes, which is not here.\<close>

datatype outcome =
    Stay chat
  | Logged_Out chat
  | Elsewhere

definition plain_line :: "string \<Rightarrow> bool" where
  "plain_line cmd \<longleftrightarrow> set cmd \<inter> set ''|!<>'' = {}"

definition stay :: "nat \<Rightarrow> chat res \<Rightarrow> outcome res" where
  "stay fd r = bind_res r (\<lambda>s. Inr (Stay (say fd ''% '' s)))"

text \<open>
  The built-in commands of \<open>do_exec\<close>, on the text of a single stage, with the prompt that follows and, for \<open>exit\<close>,
  what \<open>main\<close> does then.
\<close>

definition run_builtin :: "nat \<Rightarrow> string \<Rightarrow> chat \<Rightarrow> outcome res" where
  "run_builtin fd cmd s =
     (case builtin_of cmd of
        Printenv \<Rightarrow> bind_res (split_space cmd) (\<lambda>operand.
          if length operand < 2 then Inl Null_Pointer
          else stay fd (bind_res (do_printenv fd (operand ! 1) s) (\<lambda>v. Inr (say fd (v @ [newline]) s))))
      | Setenv \<Rightarrow> bind_res (split_space cmd) (\<lambda>operand.
          if length operand < 3 then Inl Null_Pointer
          else if length (operand ! 1) + 1 + length (operand ! 2) \<ge> 512 then Inl Buffer_Overflow
          else stay fd (load_env fd (operand ! 1 @ ''='' @ operand ! 2) s))
      | Exit \<Rightarrow> bind_res (logout fd s) (\<lambda>s'. Inr (Logged_Out s'))
      | Who \<Rightarrow> stay fd (execute_who fd s)
      | Tell \<Rightarrow> bind_res (split_space cmd) (\<lambda>operand. stay fd (execute_tell fd operand s))
      | Yell \<Rightarrow> bind_res (split_space cmd) (\<lambda>operand. stay fd (execute_yell fd operand s))
      | Name \<Rightarrow> bind_res (split_space cmd) (\<lambda>operand. stay fd (execute_name fd operand s))
      | External \<Rightarrow> Inr Elsewhere)"

text \<open>
  \<open>do_exec\<close> on a line without pipes and redirections. A line that is empty or starts with a blank is
  not looked at.
\<close>

definition chat_line :: "nat \<Rightarrow> string \<Rightarrow> chat \<Rightarrow> outcome res" where
  "chat_line fd cmd s =
     (if cmd = [] \<or> hd cmd = CHR '' '' then stay fd (Inr s)
      else if \<not> plain_line cmd then Inr Elsewhere
      else run_builtin fd cmd s)"

text \<open>
  \<open>handle_new_connection(fd)\<close>: one \<open>read\<close> into a buffer of 20000 bytes, whose last character is cut
  off. A read without a character, as at the end of the connection, makes it write in front of
  the buffer; a full buffer is not terminated.
\<close>

definition handle_input :: "nat \<Rightarrow> string \<Rightarrow> chat \<Rightarrow> outcome res" where
  "handle_input fd bytes s =
     (let line = takeWhile (\<lambda>c. c \<noteq> nul) bytes in
      if line = [] \<or> length line \<ge> 20000 then Inl Out_Of_Bounds
      else chat_line fd (butlast line) s)"

section \<open>The table\<close>

definition table_ok :: "chat \<Rightarrow> bool" where
  "table_ok s \<longleftrightarrow> length (clients_fd_set s) = 60 \<and> length (nickname s) = 60 \<and> length (clients_env s) = 60
     \<and> length (clients_addr_in s) = 60 \<and> clients_size s \<le> 60
     \<and> (\<forall>i < 60. clients_size s \<le> i \<longrightarrow> clients_fd_set s ! i = 0)"

definition holder_of :: "chat \<Rightarrow> nat \<Rightarrow> nat" where
  "holder_of s i = (if i < length (clients_fd_set s) then clients_fd_set s ! i else 0)"

text \<open>The user \<open>fd\<close> is entered at the first free place, \<open>i\<close>.\<close>

definition enters_at :: "nat \<Rightarrow> chat \<Rightarrow> nat \<Rightarrow> chat \<Rightarrow> bool" where
  "enters_at fd s i s' \<longleftrightarrow> table_ok s \<and> i < 60 \<and> List.find (\<lambda>i. clients_fd_set s ! i = 0) [0..<Suc (clients_size s)] = Some i
     \<and> (\<exists>addr. register fd addr s = Inr s')"

definition placed :: "nat \<Rightarrow> nat \<Rightarrow> string \<times> nat \<Rightarrow> chat \<Rightarrow> chat" where
  "placed i fd addr s =
     s\<lparr>clients_fd_set := (clients_fd_set s)[i := fd], clients_addr_in := (clients_addr_in s)[i := addr],
       nickname := (nickname s)[i := ''(no name)''],
       clients_size := (if i = clients_size s then Suc (clients_size s) else clients_size s)\<rparr>"

lemma find_Some_nth:
  "List.find P [0..<n] = Some i \<longleftrightarrow> i < n \<and> P i \<and> (\<forall>j < i. \<not> P j)"
  by (auto simp: find_Some_iff)

lemma find_none: "List.find P [0..<n] = None \<longleftrightarrow> (\<forall>i < n. \<not> P i)"
  by (simp add: find_None_iff)

lemma register_loop_eq:
  "register_loop idxs fd addr s =
     (case List.find (\<lambda>i. i \<ge> 60 \<or> clients_fd_set s ! i = 0) idxs of
        None \<Rightarrow> Inr s
      | Some i \<Rightarrow> if i \<ge> 60 then Inl Out_Of_Bounds else Inr (placed i fd addr s))"
  by (induction idxs) (auto simp: placed_def MAX_USER_NUM_def)

lemma holder_free: "table_ok s \<Longrightarrow> clients_size s \<le> i \<Longrightarrow> holder_of s i = 0"
  by (auto simp: table_ok_def holder_of_def)

text \<open>With a lowest free place \<open>i\<close> below 60, \<open>register\<close> takes it.\<close>

lemma register_lowest:
  assumes "table_ok s" "i < 60" "holder_of s i = 0" "\<forall>j < i. holder_of s j \<noteq> 0"
  shows "register fd addr s = Inr (placed i fd addr s) \<and> i \<le> clients_size s
    \<and> List.find (\<lambda>i. clients_fd_set s ! i = 0) [0..<Suc (clients_size s)] = Some i"
proof -
  have len: "length (clients_fd_set s) = 60" using assms(1) by (simp add: table_ok_def)
  have i: "i \<le> clients_size s" using holder_free [OF assms(1), of "clients_size s"] assms(4) by (meson le_refl not_le)
  have low: "clients_fd_set s ! i = 0" "\<forall>j < i. clients_fd_set s ! j \<noteq> 0"
    using assms(2-4) len by (auto simp: holder_of_def)
  then have "List.find (\<lambda>i. i \<ge> 60 \<or> clients_fd_set s ! i = 0) [0..<Suc (clients_size s)] = Some i"
    "List.find (\<lambda>i. clients_fd_set s ! i = 0) [0..<Suc (clients_size s)] = Some i"
    using i assms(2) by (auto simp only: find_Some_nth)
  then show ?thesis using i assms(2) by (simp add: register_def register_loop_eq del: upt_Suc)
qed

lemma placed_table:
  assumes "table_ok s" "i < 60" "i \<le> clients_size s"
  shows "table_ok (placed i fd addr s) \<and> holder_of (placed i fd addr s) = (holder_of s)(i := fd)"
  using assms by (auto simp: table_ok_def placed_def holder_of_def nth_list_update fun_eq_iff)

lemma enters_at_placed:
  assumes "enters_at fd s i s'"
  shows "\<exists>addr. s' = placed i fd addr s" "table_ok s" "i < 60" "i \<le> clients_size s"
    "holder_of s i = 0" "\<forall>j < i. holder_of s j \<noteq> 0"
proof -
  have f: "table_ok s" "i < 60" "i < Suc (clients_size s)" "clients_fd_set s ! i = 0"
    "\<forall>j < i. clients_fd_set s ! j \<noteq> 0"
    using assms by (auto simp only: enters_at_def find_Some_nth)
  then show "table_ok s" "i < 60" "i \<le> clients_size s" by simp_all
  have len: "length (clients_fd_set s) = 60" using f(1) by (simp add: table_ok_def)
  then show low: "holder_of s i = 0" "\<forall>j < i. holder_of s j \<noteq> 0" using f by (auto simp: holder_of_def)
  from assms obtain addr where "register fd addr s = Inr s'" by (auto simp: enters_at_def)
  with register_lowest [OF f(1,2) low, of fd addr] have "s' = placed i fd addr s" by simp
  then show "\<exists>addr. s' = placed i fd addr s" by blast
qed

interpretation chat_table: slot_table holder_of enters_at free_place
proof unfold_locales
  fix x s i s'
  assume e: "enters_at x s i s'"
  note p = enters_at_placed [OF e]
  show "holder_of s i = 0 \<and> (\<forall>j < i. holder_of s j \<noteq> 0)" using p(5,6) by blast
  show "holder_of s' = (holder_of s)(i := x)" using p(1) placed_table [OF p(2-4)] by auto
next
  fix i s
  show "holder_of (free_place i s) = (holder_of s)(i := 0)"
    by (auto simp: holder_of_def free_place_def nth_list_update fun_eq_iff)
qed

text \<open>Messages do not change the table.\<close>

lemma say_fields [simp]:
  "clients_fd_set (say fd m s) = clients_fd_set s" "nickname (say fd m s) = nickname s"
  "clients_size (say fd m s) = clients_size s" "clients_env (say fd m s) = clients_env s"
  "clients_addr_in (say fd m s) = clients_addr_in s" "user_pipe_flag (say fd m s) = user_pipe_flag s"
  "outbox (say fd m s) = outbox s @ [(fd, m)]" "table_ok (say fd m s) = table_ok s"
  "holder_of (say fd m s) = holder_of s" "users (say fd m s) = users s" "find_client g (say fd m s) = find_client g s"
  by (simp_all add: say_def table_ok_def holder_of_def users_def find_client_def fun_eq_iff)

lemma broadcast_box:
  "broadcast ids m s = s\<lparr>outbox := outbox s @ map (\<lambda>i. (clients_fd_set s ! i, m)) ids\<rparr>"
proof -
  have "fold (\<lambda>i. say (f i) m) ids s = s\<lparr>outbox := outbox s @ map (\<lambda>i. (f i, m)) ids\<rparr>" for f
    by (induction ids arbitrary: s) (simp_all add: say_def)
  then show ?thesis by (simp add: broadcast_def)
qed

lemma box_fields [simp]:
  "table_ok (s\<lparr>outbox := b\<rparr>) = table_ok s" "holder_of (s\<lparr>outbox := b\<rparr>) = holder_of s"
  "users (s\<lparr>outbox := b\<rparr>) = users s" "find_client g (s\<lparr>outbox := b\<rparr>) = find_client g s"
  by (simp_all add: table_ok_def holder_of_def users_def find_client_def fun_eq_iff)

lemma find_client_holder:
  assumes "table_ok s" "one_each (holder_of s)" "holder_of s i = fd" "fd \<noteq> 0"
  shows "find_client fd s = Some i \<and> i < clients_size s"
proof -
  have i: "i < clients_size s" using holder_free [OF assms(1)] assms(3,4) by (metis not_le)
  have len: "length (clients_fd_set s) = 60" "clients_size s \<le> 60" using assms(1) by (simp_all add: table_ok_def)
  have only: "clients_fd_set s ! j \<noteq> fd" if "j < i" for j
  proof
    assume "clients_fd_set s ! j = fd"
    then have "holder_of s j = holder_of s i" using that i len assms(3) by (simp add: holder_of_def)
    then have "j = i" using one_eachD [OF assms(2), of j i] assms(3,4) by simp
    then show False using that by simp
  qed
  have "clients_fd_set s ! i = fd" using assms(3,4) by (simp add: holder_of_def split: if_splits)
  then show ?thesis unfolding find_client_def find_Some_nth using i only by blast
qed

lemma users_iff: "table_ok s \<Longrightarrow> i \<in> set (users s) \<longleftrightarrow> holder_of s i \<noteq> 0"
  using holder_free [of s i] by (auto simp: users_def table_ok_def holder_of_def)

lemma greet_fields [simp]:
  "table_ok (greet fd ip port s) = table_ok s" "holder_of (greet fd ip port s) = holder_of s"
  "clients_env (greet fd ip port s) = clients_env s" "nickname (greet fd ip port s) = nickname s"
  "clients_size (greet fd ip port s) = clients_size s" "users (greet fd ip port s) = users s"
  by (simp_all add: greet_def broadcast_box)

lemma placed_fields [simp]:
  "outbox (placed i fd addr s) = outbox s" "clients_env (placed i fd addr s) = clients_env s"
  by (simp_all add: placed_def)

lemma load_env_fields:
  "load_env fd str s = Inr t \<Longrightarrow> table_ok s \<Longrightarrow>
     table_ok t \<and> holder_of t = holder_of s \<and> nickname t = nickname s \<and> users t = users s
     \<and> outbox t = outbox s \<and> find_client fd t = find_client fd s"
  by (auto simp: load_env_def table_ok_def holder_of_def users_def find_client_def Let_def fun_eq_iff
      split: list.splits option.splits if_splits)

text \<open>A login leaves the pipes between users as they are.\<close>

lemma load_env_flags: "load_env fd str s = Inr t \<Longrightarrow> user_pipe_flag t = user_pipe_flag s"
  by (auto simp: load_env_def Let_def split: list.splits option.splits if_splits)

lemma login_flags:
  assumes "login fd ip port s = Inr t"
  shows "user_pipe_flag t = user_pipe_flag s"
proof -
  obtain u where u: "register fd (ip, port) (greet fd ip port s) = Inr u" "load_env fd ''PATH=bin:.'' u = Inr t"
    using assms by (auto simp: login_def bind_res_Inr_iff)
  have "user_pipe_flag u = user_pipe_flag (greet fd ip port s)"
    using u(1) by (auto simp: register_def register_loop_eq placed_def simp del: upt_Suc split: option.splits if_splits)
  then show ?thesis using load_env_flags [OF u(2)] by (simp add: greet_def broadcast_box)
qed

lemma logout_loop_eq:
  "logout_loop idxs fd s =
     (case List.find (\<lambda>i. i \<ge> 60 \<or> clients_fd_set s ! i = fd) idxs of
        None \<Rightarrow> Inr s
      | Some i \<Rightarrow> if i \<ge> 60 then Inl Out_Of_Bounds else broadcast_logout (i + 1) (free_place i s))"
  by (induction idxs) (auto simp: MAX_USER_NUM_def)

lemma logout_place:
  assumes "table_ok s" "one_each (holder_of s)" "holder_of s i = fd" "fd \<noteq> 0"
  shows "logout fd s = broadcast_logout (i + 1) (free_place i s)"
proof -
  have len: "length (clients_fd_set s) = 60" "clients_size s \<le> 60" using assms(1) by (simp_all add: table_ok_def)
  have i: "i < clients_size s" "find_client fd s = Some i" using find_client_holder [OF assms] by simp_all
  then have "List.find (\<lambda>i. i \<ge> 60 \<or> clients_fd_set s ! i = fd) [0..<Suc (clients_size s)] = Some i"
    using len unfolding find_client_def by (auto simp only: find_Some_nth)
  with i len show ?thesis by (simp add: logout_def logout_loop_eq del: upt_Suc)
qed

lemma free_place_fields [simp]:
  "table_ok s \<Longrightarrow> table_ok (free_place i s)" "nickname (free_place i s) = nickname s"
  "outbox (free_place i s) = outbox s" "clients_env (free_place i s) = clients_env s"
proof -
  have "xs[i := 0] ! j = 0" if "xs ! j = 0" "j < length xs" for xs :: "nat list" and j
    using that by (cases "j = i") simp_all
  then show "table_ok s \<Longrightarrow> table_ok (free_place i s)" by (simp add: table_ok_def free_place_def)
qed (simp_all add: free_place_def)

lemma pipe_flag_fields [simp]:
  "table_ok (s\<lparr>user_pipe_flag := f\<rparr>) = table_ok s" "holder_of (s\<lparr>user_pipe_flag := f\<rparr>) = holder_of s"
  "users (s\<lparr>user_pipe_flag := f\<rparr>) = users s"
  by (simp_all add: table_ok_def holder_of_def users_def fun_eq_iff)

lemma users_after_leave: "table_ok s \<Longrightarrow> set (users (free_place i s)) = set (users s) - {i}"
  using users_iff [of "free_place i s"] users_iff [of s] chat_table.leave_holder [of i s]
  by (auto split: if_splits)

lemma holder_fd: "table_ok s \<Longrightarrow> i \<in> set (users s) \<Longrightarrow> clients_fd_set s ! i = holder_of s i"
  by (auto simp: holder_of_def users_def table_ok_def)

text \<open>A login that succeeds has found a free place.\<close>

lemma register_Inr:
  assumes "table_ok s" "register fd addr s = Inr t"
  shows "\<exists>i < 60. t = placed i fd addr s \<and> i \<le> clients_size s \<and> holder_of s i = 0"
proof -
  have free: "clients_size s \<ge> 60 \<or> clients_fd_set s ! clients_size s = 0"
    using assms(1) unfolding table_ok_def by (meson le_refl not_le)
  have len: "length (clients_fd_set s) = 60" using assms(1) by (simp add: table_ok_def)
  show ?thesis
  proof (cases "List.find (\<lambda>i. i \<ge> 60 \<or> clients_fd_set s ! i = 0) [0..<Suc (clients_size s)]")
    case None
    then have "\<forall>i < Suc (clients_size s). \<not> (i \<ge> 60 \<or> clients_fd_set s ! i = 0)" by (simp only: find_none)
    with free show ?thesis by blast
  next
    case (Some i)
    then have "i < Suc (clients_size s)" "i \<ge> 60 \<or> clients_fd_set s ! i = 0" by (simp_all only: find_Some_nth)
    moreover have t: "i < 60" "t = placed i fd addr s"
      using assms(2) Some by (simp_all add: register_def register_loop_eq del: upt_Suc split: if_splits)
    ultimately have "i \<le> clients_size s" "holder_of s i = 0" using len by (simp_all add: holder_of_def)
    with t show ?thesis by blast
  qed
qed

section \<open>What the server keeps true\<close>

text \<open>Names other than \<open>(no name)\<close> belong to one user.\<close>

definition unique_names :: "chat \<Rightarrow> bool" where
  "unique_names s \<longleftrightarrow>
     (\<forall>i j. holder_of s i \<noteq> 0 \<and> holder_of s j \<noteq> 0 \<and> i \<noteq> j \<and> nickname s ! i = nickname s ! j
        \<longrightarrow> nickname s ! i = ''(no name)'')"

definition chat_ok :: "chat \<Rightarrow> bool" where
  "chat_ok s \<longleftrightarrow> table_ok s \<and> one_each (holder_of s) \<and> unique_names s"

text \<open>
  One step of the server on its users: somebody enters, somebody who is in gives a built-in command,
  or a line that runs programs changes user pipes and prints.
\<close>

inductive chat_step :: "chat \<Rightarrow> chat \<Rightarrow> bool" where
  enters: "login fd ip port s = Inr t \<Longrightarrow> fd \<noteq> 0 \<Longrightarrow> \<forall>j. holder_of s j \<noteq> fd \<Longrightarrow> chat_step s t"
| stays: "run_builtin fd cmd s = Inr (Stay t) \<Longrightarrow> fd \<noteq> 0 \<Longrightarrow> holder_of s c = fd \<Longrightarrow> chat_step s t"
| leaves: "run_builtin fd cmd s = Inr (Logged_Out t) \<Longrightarrow> fd \<noteq> 0 \<Longrightarrow> holder_of s c = fd \<Longrightarrow> chat_step s t"
| programs: "prefix (outbox s) b \<Longrightarrow> chat_step s (s\<lparr>user_pipe_flag := f, outbox := b\<rparr>)"

inductive_cases chat_stepE: "chat_step s t"

lemma chat_ok_same:
  "chat_ok s \<Longrightarrow> table_ok t \<Longrightarrow> holder_of t = holder_of s \<Longrightarrow> nickname t = nickname s \<Longrightarrow> chat_ok t"
  by (simp add: chat_ok_def unique_names_def)

lemma chat_ok_say [simp]: "chat_ok (say fd m s) = chat_ok s"
  by (simp add: chat_ok_def unique_names_def)

lemma chat_ok_box [simp]: "chat_ok (s\<lparr>outbox := b\<rparr>) = chat_ok s"
  by (simp add: chat_ok_def unique_names_def)

lemma unique_names_enter:
  assumes "unique_names s" "table_ok s" "i < 60"
  shows "unique_names (placed i fd addr s)"
proof -
  have "length (nickname s) = 60" using assms(2) by (simp add: table_ok_def)
  moreover have "holder_of (placed i fd addr s) j = holder_of s j" if "j \<noteq> i" for j
    using that by (auto simp: placed_def holder_of_def)
  ultimately show ?thesis
    using assms(1,3) unfolding unique_names_def
    by (auto simp: placed_def nth_list_update split: if_splits)
qed

lemma chat_ok_login:
  assumes "chat_ok s" "login fd ip port s = Inr t" "\<forall>j. holder_of s j \<noteq> fd"
  shows "chat_ok t"
proof -
  let ?g = "greet fd ip port s"
  have g: "chat_ok ?g" "table_ok ?g" using assms(1) by (simp_all add: chat_ok_def unique_names_def)
  obtain u where reg: "register fd (ip, port) ?g = Inr u" "load_env fd ''PATH=bin:.'' u = Inr t"
    using assms(2) by (auto simp: login_def bind_res_Inr_iff)
  obtain i where i: "i < 60" "u = placed i fd (ip, port) ?g" "i \<le> clients_size ?g" "holder_of ?g i = 0"
    using register_Inr [OF g(2) reg(1)] by blast
  have tab: "table_ok u" "holder_of u = (holder_of ?g)(i := fd)"
    using placed_table [OF g(2) i(1,3)] i(2) by simp_all
  have "one_each (holder_of u)"
    unfolding tab(2) using g(1) assms(3) by (auto simp: chat_ok_def intro: one_each_upd)
  moreover have "unique_names u"
    unfolding i(2) using g i(1) by (auto simp: chat_ok_def intro: unique_names_enter)
  ultimately have "chat_ok u" using tab(1) by (simp add: chat_ok_def)
  then show ?thesis using chat_ok_same load_env_fields [OF reg(2) tab(1)] by blast
qed

lemma chat_ok_logout:
  assumes "chat_ok s" "logout fd s = Inr t"
  shows "chat_ok t"
proof -
  have free: "chat_ok (free_place i s)" for i
    using assms(1) chat_table.one_each_leave [of s i] chat_table.leave_holder [of i s]
    by (auto simp: chat_ok_def unique_names_def)
  have "chat_ok u" if "broadcast_logout c (free_place i s) = Inr u" for c i u
  proof -
    have "table_ok u = table_ok (free_place i s)" "holder_of u = holder_of (free_place i s)"
      "nickname u = nickname (free_place i s)"
      using that by (auto simp: broadcast_logout_def broadcast_box Let_def split: if_splits)
    then show ?thesis using free [of i] by (simp add: chat_ok_def unique_names_def)
  qed
  then show ?thesis
    using assms by (auto simp: logout_def logout_loop_eq simp del: upt_Suc split: option.splits if_splits)
qed

text \<open>\<open>name\<close> refuses a name that somebody else has.\<close>

lemma unique_names_rename:
  assumes "unique_names s" "table_ok s" "c < 60"
    and "\<forall>j. j \<noteq> c \<and> holder_of s j \<noteq> 0 \<longrightarrow> nickname s ! j \<noteq> nick"
  shows "unique_names (s\<lparr>nickname := (nickname s)[c := nick]\<rparr>)"
proof -
  have other: "nickname s ! j \<noteq> nick" if "c \<noteq> j" "0 < holder_of s j" for j
    using assms(4) that by auto
  have "length (nickname s) = 60" using assms(2) by (simp add: table_ok_def)
  moreover have "holder_of (s\<lparr>nickname := n\<rparr>) = holder_of s" for n by (simp add: holder_of_def fun_eq_iff)
  ultimately show ?thesis
    using assms(1,3) other unfolding unique_names_def by (auto simp: nth_list_update split: if_splits)
qed

lemma last_client:
  assumes "table_ok s" "one_each (holder_of s)" "holder_of s i = fd" "fd \<noteq> 0"
  shows "List.find (\<lambda>i. clients_fd_set s ! i = fd) (rev [0..<clients_size s]) = Some i"
proof -
  have i: "i < clients_size s" "clients_fd_set s ! i = fd"
    using find_client_holder [OF assms] by (auto simp: find_client_def find_Some_nth)
  have len: "length (clients_fd_set s) = 60" "clients_size s \<le> 60" using assms(1) by (simp_all add: table_ok_def)
  have only: "j = i" if "j < clients_size s" "clients_fd_set s ! j = fd" for j
  proof -
    have "holder_of s j = holder_of s i" using that len assms(3) by (simp add: holder_of_def)
    then show ?thesis using one_eachD [OF assms(2), of j i] assms(3,4) by simp
  qed
  obtain k where "List.find (\<lambda>i. clients_fd_set s ! i = fd) (rev [0..<clients_size s]) = Some k"
    using i by (cases "List.find (\<lambda>i. clients_fd_set s ! i = fd) (rev [0..<clients_size s])")
      (auto simp: find_None_iff)
  moreover have "k = i"
    using calculation only [of k] by (auto simp: find_Some_iff rev_nth)
  ultimately show ?thesis by simp
qed

lemma say_box: "say fd m s = s\<lparr>outbox := outbox s @ [(fd, m)]\<rparr>"
  by (simp add: say_def)

lemma fold_say_box:
  "fold (\<lambda>i. say fd (f i)) ids s = s\<lparr>outbox := outbox s @ map (\<lambda>i. (fd, f i)) ids\<rparr>"
  by (induction ids arbitrary: s) (simp_all add: say_def)

text \<open>\<open>who\<close>, \<open>tell\<close> and \<open>yell\<close> only print.\<close>

lemma talk_ok:
  "execute_who fd s = Inr t \<Longrightarrow> chat_ok t = chat_ok s"
  "execute_tell fd ops s = Inr t \<Longrightarrow> chat_ok t = chat_ok s"
  "execute_yell fd ops s = Inr t \<Longrightarrow> chat_ok t = chat_ok s"
  by (auto simp: execute_who_def execute_tell_def execute_yell_def broadcast_box fold_say_box say_box Let_def
      simp del: upt_Suc split: list.splits option.splits if_splits)

lemma chat_ok_load_env: "load_env fd str s = Inr t \<Longrightarrow> chat_ok s \<Longrightarrow> chat_ok t"
  using load_env_fields [of fd str s t] by (simp add: chat_ok_def unique_names_def)

lemma rename_table: "table_ok s \<Longrightarrow> table_ok (s\<lparr>nickname := (nickname s)[c := n]\<rparr>)"
  "holder_of (s\<lparr>nickname := ns\<rparr>) = holder_of s" "users (s\<lparr>nickname := ns\<rparr>) = users s"
  by (simp_all add: table_ok_def holder_of_def users_def fun_eq_iff)

definition other_has :: "nat \<Rightarrow> string \<Rightarrow> chat \<Rightarrow> bool" where
  "other_has c nick s \<longleftrightarrow> (\<exists>j. j \<noteq> c \<and> holder_of s j \<noteq> 0 \<and> nickname s ! j = nick)"

lemma execute_name_cases:
  assumes "chat_ok s" "holder_of s c = fd" "fd \<noteq> 0" "length nick < 100"
  shows "execute_name fd (cmd # nick # rest) s =
    (if other_has c nick s then Inr (say fd (taken_line nick) s)
     else Inr (broadcast (users s) (named_line (clients_addr_in s ! c) nick)
                (s\<lparr>nickname := (nickname s)[c := nick]\<rparr>)))"
proof -
  have ok: "table_ok s" "one_each (holder_of s)" using assms(1) by (simp_all add: chat_ok_def)
  have here: "j \<in> set (users s) \<and> clients_fd_set s ! j \<noteq> fd \<longleftrightarrow> holder_of s j \<noteq> 0 \<and> j \<noteq> c" for j
    using users_iff [OF ok(1), of j] holder_fd [OF ok(1), of j] one_eachD [OF ok(2), of j c] assms(2,3) by auto
  then have "(\<exists>i \<in> set (users s). clients_fd_set s ! i \<noteq> fd \<and> nickname s ! i = nick)
      \<longleftrightarrow> other_has c nick s" unfolding other_has_def by blast
  moreover have "\<not> length nick \<ge> 100" using assms(4) by simp
  ultimately show ?thesis
    using last_client [OF ok assms(2,3)] by (simp add: execute_name_def rename_table(3) del: upt_Suc)
qed

lemma chat_ok_name:
  assumes "chat_ok s" "holder_of s c = fd" "fd \<noteq> 0" "execute_name fd ops s = Inr t"
  shows "chat_ok t"
proof -
  obtain cmd nick rest where ops: "ops = cmd # nick # rest" "length nick < 100"
    using assms(4) by (auto simp: execute_name_def split: list.splits if_splits)
  have ok: "table_ok s" "one_each (holder_of s)" "unique_names s" using assms(1) by (simp_all add: chat_ok_def)
  have c: "c < 60" using assms(2,3) ok(1) by (auto simp: holder_of_def table_ok_def split: if_splits)
  note cases = assms(4) [unfolded ops(1) execute_name_cases [OF assms(1-3) ops(2)]]
  show ?thesis
  proof (cases "other_has c nick s")
    case True
    then have "t = say fd (taken_line nick) s" using cases by simp
    then show ?thesis using assms(1) by simp
  next
    case False
    then have t: "t = broadcast (users s) (named_line (clients_addr_in s ! c) nick)
        (s\<lparr>nickname := (nickname s)[c := nick]\<rparr>)" using cases by simp
    have "unique_names (s\<lparr>nickname := (nickname s)[c := nick]\<rparr>)"
      by (rule unique_names_rename [OF ok(3,1) c]) (use False in \<open>auto simp: other_has_def\<close>)
    then have "chat_ok (s\<lparr>nickname := (nickname s)[c := nick]\<rparr>)"
      using ok rename_table(1) [of s] by (simp add: chat_ok_def rename_table(2))
    then show ?thesis by (simp add: t broadcast_box)
  qed
qed

lemma stay_Inr: "stay fd r = Inr q \<longleftrightarrow> (\<exists>u. r = Inr u \<and> q = Stay (say fd ''% '' u))"
  by (auto simp: stay_def bind_res_Inr_iff)

text \<open>What a command can lead to.\<close>

lemma run_builtin_cases:
  assumes "run_builtin fd cmd s = Inr r"
  shows "r = Elsewhere \<or> (\<exists>t. logout fd s = Inr t \<and> r = Logged_Out t)
    \<or> (\<exists>t ops str m. r = Stay (say fd ''% '' t) \<and>
        (t = s \<or> t = say fd m s \<or> load_env fd str s = Inr t \<or> execute_who fd s = Inr t
         \<or> execute_tell fd ops s = Inr t \<or> execute_yell fd ops s = Inr t \<or> execute_name fd ops s = Inr t))"
  using assms
  by (cases "builtin_of cmd") (auto simp: run_builtin_def stay_Inr bind_res_Inr_iff split: if_splits)

lemma chat_ok_builtin:
  assumes "chat_ok s" "holder_of s c = fd" "fd \<noteq> 0" "run_builtin fd cmd s = Inr r"
  shows "r = Stay t \<Longrightarrow> chat_ok t" "r = Logged_Out t \<Longrightarrow> chat_ok t"
  using run_builtin_cases [OF assms(4)] assms(1)
  by (auto simp: talk_ok dest: chat_ok_load_env chat_ok_logout chat_ok_name [OF assms(1-3)])

lemma chat_ok_flags [simp]: "chat_ok (s\<lparr>user_pipe_flag := f\<rparr>) = chat_ok s"
  by (simp add: chat_ok_def unique_names_def)

lemma chat_step_ok: "chat_step s t \<Longrightarrow> chat_ok s \<Longrightarrow> chat_ok t"
  by (erule chat_stepE) (auto dest: chat_ok_login chat_ok_builtin)

lemma chat_steps_ok: "chat_step\<^sup>*\<^sup>* s t \<Longrightarrow> chat_ok s \<Longrightarrow> chat_ok t"
  by (induction rule: rtranclp_induct) (auto dest: chat_step_ok)

lemma chat_ok_init: "chat_ok chat_init"
  by (auto simp: chat_ok_def table_ok_def chat_init_def unique_names_def holder_of_def one_each_def)

text \<open>A line without pipes is a step, or none.\<close>

lemma handle_input_step:
  assumes "handle_input fd bytes s = Inr r" "fd \<noteq> 0" "holder_of s c = fd" "r = Stay t \<or> r = Logged_Out t"
  shows "chat_step s t"
proof -
  obtain cmd where "chat_line fd cmd s = Inr r"
    using assms(1) by (auto simp: handle_input_def Let_def split: if_splits)
  then consider "r = Stay (say fd ''% '' s)" | "run_builtin fd cmd s = Inr r"
    using assms(4) by (auto simp: chat_line_def stay_def split: if_splits)
  then show ?thesis
  proof cases
    case 1
    then have eq: "t = s\<lparr>user_pipe_flag := user_pipe_flag s, outbox := outbox s @ [(fd, ''% '')]\<rparr>"
      using assms(4) by (cases s) (simp add: say_def)
    show ?thesis unfolding eq by (rule chat_step.programs) simp
  next
    case 2
    then show ?thesis using assms(2-4) chat_step.stays chat_step.leaves by blast
  qed
qed

section \<open>Properties\<close>


text \<open>The user who comes is put at the lowest free place.\<close>

lemma register_greeted:
  assumes "table_ok s" "one_each (holder_of s)" "fd \<noteq> 0" "\<forall>j. holder_of s j \<noteq> fd"
    and "i < 60" "holder_of s i = 0" "\<forall>j < i. holder_of s j \<noteq> 0"
    and t: "t = placed i fd addr (greet fd ip port s)"
  shows "register fd addr (greet fd ip port s) = Inr t" "table_ok t"
    "holder_of t = (holder_of s)(i := fd)" "one_each (holder_of t)" "find_client fd t = Some i"
proof -
  let ?g = "greet fd ip port s"
  have reg: "register fd addr ?g = Inr t" "i \<le> clients_size ?g"
    "List.find (\<lambda>i. clients_fd_set ?g ! i = 0) [0..<Suc (clients_size ?g)] = Some i"
    using register_lowest [of ?g i fd addr] assms by (simp_all add: t)
  then show "register fd addr ?g = Inr t" by simp
  show tab: "table_ok t" "holder_of t = (holder_of s)(i := fd)"
    using placed_table [of ?g i fd addr] reg(2) assms(1,5) by (simp_all add: t)
  have "\<exists>a. register fd a ?g = Inr t" using reg(1) by blast
  then have "enters_at fd ?g i t" using reg(3) assms(1,5) by (simp add: enters_at_def del: upt_Suc split_paired_Ex)
  then show one: "one_each (holder_of t)"
    using chat_table.one_each_enter [of ?g fd i t] assms(2,4) by simp
  show "find_client fd t = Some i" using find_client_holder [OF tab(1) one, of i fd] tab(2) assms(3) by simp
qed

text \<open>
  C31. A login takes the lowest free place of the table, as long as one of the sixty is free: the
  user has it under the name \<open>(no name)\<close>, nobody else moves, no descriptor is entered twice, and
  every other user is told exactly once. The environment of the place stays that of the user who
  had it before.
\<close>

theorem login_takes_lowest_place:
  assumes "table_ok s" "one_each (holder_of s)" "fd \<noteq> 0" "\<forall>j. holder_of s j \<noteq> fd"
    and "i < 60" "holder_of s i = 0" "\<forall>j < i. holder_of s j \<noteq> 0"
  shows "\<exists>t. register fd (ip, port) (greet fd ip port s) = Inr t \<and> table_ok t
    \<and> holder_of t = (holder_of s)(i := fd) \<and> one_each (holder_of t) \<and> nickname t ! i = ''(no name)''
    \<and> clients_env t = clients_env s \<and> find_client fd t = Some i
    \<and> outbox t = outbox s @ [(fd, welcome_text), (fd, entered_line ip port), (fd, ''% '')]
        @ map (\<lambda>j. (holder_of s j, entered_line ip port)) (users s)"
proof -
  let ?t = "placed i fd (ip, port) (greet fd ip port s)"
  note reg = register_greeted [OF assms refl, of "(ip, port)" ip port]
  have all: "filter (\<lambda>j. clients_fd_set s ! j \<noteq> fd) (users s) = users s"
    using holder_fd [OF assms(1)] assms(4) by (simp add: filter_id_conv)
  have box: "outbox ?t = outbox s @ [(fd, welcome_text), (fd, entered_line ip port), (fd, ''% '')]
        @ map (\<lambda>j. (holder_of s j, entered_line ip port)) (users s)"
    using holder_fd [OF assms(1)] by (simp add: greet_def broadcast_box all)
  have "length (nickname s) = 60" using assms(1) by (simp add: table_ok_def)
  then have "nickname ?t ! i = ''(no name)''" using assms(5) by (simp add: placed_def)
  then show ?thesis using reg box assms(1) by (intro exI [of _ ?t] conjI) (simp_all del: placed_fields(1))
qed

theorem login_takes_lowest_place_witness:
  "\<exists>t. register 7 (''1.2.3.4'', 5) (greet 7 ''1.2.3.4'' 5 chat_init) = Inr t \<and> find_client 7 t = Some 0"
proof -
  have "table_ok chat_init" "holder_of chat_init = (\<lambda>j. 0)" "one_each (\<lambda>j. 0)"
    by (auto simp: table_ok_def chat_init_def holder_of_def one_each_def fun_eq_iff)
  with login_takes_lowest_place [of chat_init 7 0 "''1.2.3.4''" 5] show ?thesis by auto
qed

text \<open>
  C32. A logout frees the user's place and nothing else: no pipe from or to the place is left, every
  other user is told once, and the user not at all. It works for the first thirty places only; for
  a user above, \<open>broadcast_logout\<close> writes outside \<open>user_pipe\<close>.
\<close>

theorem logout_frees_place:
  assumes "table_ok s" "one_each (holder_of s)" "holder_of s i = fd" "fd \<noteq> 0"
  shows "if i \<ge> 30 then logout fd s = Inl Out_Of_Bounds
    else \<exists>t. logout fd s = Inr t \<and> table_ok t \<and> holder_of t = (holder_of s)(i := 0)
      \<and> one_each (holder_of t) \<and> (\<forall>j \<in> {1..30}. \<not> user_pipe_flag t (i + 1) j \<and> \<not> user_pipe_flag t j (i + 1))
      \<and> (\<exists>told. outbox t = outbox s @ map (\<lambda>j. (holder_of s j, left_line (nickname s ! i))) told
           \<and> set told = set (users s) - {i} \<and> distinct told)"
proof -
  let ?f = "free_place i s"
  have out: "logout fd s = broadcast_logout (i + 1) ?f" by (rule logout_place [OF assms])
  have told: "filter (\<lambda>j. j \<noteq> i) (users ?f) = users ?f"
    using users_after_leave [OF assms(1), of i] by (auto simp: filter_id_conv)
  have fds: "clients_fd_set ?f ! j = holder_of s j" if "j \<in> set (users ?f)" for j
    using that users_after_leave [OF assms(1), of i] holder_fd [OF assms(1), of j]
    by (simp add: free_place_def nth_list_update)
  have "distinct (users ?f)" by (simp add: users_def)
  moreover have "one_each (holder_of ?f)" by (rule chat_table.one_each_leave [OF assms(2)])
  ultimately show ?thesis
    using assms(1) users_after_leave [OF assms(1), of i] fds
    by (auto simp: out broadcast_logout_def broadcast_box told chat_table.leave_holder Let_def
        intro!: exI [of _ "users ?f"])
qed

text \<open>One user, who has just come.\<close>

lemma one_user:
  "chat_ok (placed 0 7 (''1.2.3.4'', 5) chat_init)"
  "holder_of (placed 0 7 (''1.2.3.4'', 5) chat_init) = (\<lambda>j. 0)(0 := 7)"
proof -
  have init: "table_ok chat_init" "holder_of chat_init = (\<lambda>j. 0)"
    by (auto simp: table_ok_def chat_init_def holder_of_def fun_eq_iff)
  have "clients_size chat_init = 0" by (simp add: chat_init_def)
  then have p: "table_ok (placed 0 7 (''1.2.3.4'', 5) chat_init)"
    "holder_of (placed 0 7 (''1.2.3.4'', 5) chat_init) = (\<lambda>j. 0)(0 := 7)"
    using placed_table [OF init(1), of 0 7] init(2) by simp_all
  then show "holder_of (placed 0 7 (''1.2.3.4'', 5) chat_init) = (\<lambda>j. 0)(0 := 7)" by simp
  show "chat_ok (placed 0 7 (''1.2.3.4'', 5) chat_init)"
    using p by (auto simp: chat_ok_def one_each_def unique_names_def split: if_splits)
qed

theorem logout_frees_place_witness:
  "\<exists>t. logout 7 (placed 0 7 (''1.2.3.4'', 5) chat_init) = Inr t \<and> holder_of t = (\<lambda>j. 0)(0 := 0)"
  using logout_frees_place [of "placed 0 7 (''1.2.3.4'', 5) chat_init" 0 7] one_user
  by (auto simp: chat_ok_def)

text \<open>A word that is in the middle of a line is found.\<close>

lemma contains_mid: "contains (a @ w @ b) w"
proof -
  have "take (length w) (w @ b) = w" by simp
  then have "find_sub w (w @ b) \<noteq> None" by (cases "w @ b") auto
  then show ?thesis unfolding contains_def by (induction a) auto
qed

lemma yell_tokens: "tokens (is_delim CHR '' '') (''yell '' @ msg) = ''yell'' # tokens (is_delim CHR '' '') msg"
  using tokens_first [of "''yell''" "is_delim CHR '' ''" "CHR '' ''" msg] by (simp add: is_delim_def)

lemma join_words_length: "\<forall>w \<in> set ws. w \<noteq> [] \<Longrightarrow> length ws \<le> length (join_words ws)"
  by (induction ws rule: join_words.induct) (auto simp: Suc_le_eq)

lemma split_yell:
  assumes "length (join_words (tokens (is_delim CHR '' '') msg)) < 1023"
  shows "split_space (''yell '' @ msg) = Inr (''yell'' # tokens (is_delim CHR '' '') msg)"
proof -
  have "length (tokens (is_delim CHR '' '') msg) \<le> length (join_words (tokens (is_delim CHR '' '') msg))"
    by (rule join_words_length) (use tokens_clean in blast)
  then show ?thesis using assms unfolding split_space_def split_at_def yell_tokens by simp
qed

lemma plain_yell: "plain_line (''yell '' @ msg) = plain_line msg"
  by (auto simp: plain_line_def)

text \<open>
  C33. A \<open>yell\<close> reaches every user who is logged in, the speaker too, once, with the speaker's name and
  the words of the message set apart by single blanks; then the speaker is prompted. But built-ins
  are looked for anywhere in the line: a message with \<open>exit\<close> in it is not said, it logs the
  speaker out.
\<close>

theorem yell_reaches_everybody:
  assumes "chat_ok s" "holder_of s c = fd" "fd \<noteq> 0" "plain_line msg"
    and "ws = tokens (is_delim CHR '' '') msg" "ws \<noteq> []" "length (join_words ws) < 1023"
  shows "(builtin_of (''yell '' @ msg) = Yell \<longrightarrow>
      chat_line fd (''yell '' @ msg) s =
        Inr (Stay (s\<lparr>outbox := outbox s
          @ map (\<lambda>j. (holder_of s j, yell_line (nickname s ! c) (join_words ws))) (users s) @ [(fd, ''% '')]\<rparr>))
      \<and> set (users s) = {j. holder_of s j \<noteq> 0} \<and> distinct (users s))
    \<and> (\<forall>a b. msg = a @ ''exit'' @ b \<and> \<not> contains (''yell '' @ msg) ''printenv''
        \<and> \<not> contains (''yell '' @ msg) ''setenv'' \<longrightarrow>
      chat_line fd (''yell '' @ msg) s = bind_res (logout fd s) (\<lambda>s'. Inr (Logged_Out s')))"
proof -
  have ok: "table_ok s" "one_each (holder_of s)" using assms(1) by (simp_all add: chat_ok_def)
  note line = plain_yell [of msg] split_yell [OF assms(7) [unfolded assms(5)]]
  have "find_client fd s = Some c" using find_client_holder [OF ok assms(2,3)] by simp
  then have yell: "execute_yell fd (''yell'' # ws) s
      = Inr (broadcast (users s) (yell_line (nickname s ! c) (join_words ws)) s)"
    using assms(6,7) by (simp add: execute_yell_def Suc_le_eq)
  have told: "map (\<lambda>i. (clients_fd_set s ! i, m)) (users s) = map (\<lambda>j. (holder_of s j, m)) (users s)" for m
    using holder_fd [OF ok(1)] by simp
  have A: "chat_line fd (''yell '' @ msg) s =
      Inr (Stay (s\<lparr>outbox := outbox s
        @ map (\<lambda>j. (holder_of s j, yell_line (nickname s ! c) (join_words ws))) (users s) @ [(fd, ''% '')]\<rparr>))"
    if "builtin_of (''yell '' @ msg) = Yell"
    using that line assms(4,5) yell
    by (simp add: chat_line_def run_builtin_def stay_def broadcast_box say_box told)
  have B: "set (users s) = {j. holder_of s j \<noteq> 0}" "distinct (users s)"
    using users_iff [OF ok(1)] by (auto simp: users_def)
  have C: "chat_line fd (''yell '' @ msg) s = bind_res (logout fd s) (\<lambda>s'. Inr (Logged_Out s'))"
    if "msg = a @ ''exit'' @ b" "\<not> contains (''yell '' @ msg) ''printenv''"
      "\<not> contains (''yell '' @ msg) ''setenv''" for a b
  proof -
    have "builtin_of (''yell '' @ msg) = Exit"
      using that contains_mid [of "''yell '' @ a" "''exit''" b] by (simp add: builtin_of_def)
    then show ?thesis using line assms(4) by (simp add: chat_line_def run_builtin_def)
  qed
  show ?thesis using A B C by blast
qed

theorem yell_reaches_everybody_witness:
  "let s = placed 0 7 (''1.2.3.4'', 5) chat_init
   in chat_line 7 ''yell hi all'' s =
       Inr (Stay (s\<lparr>outbox := [(7, yell_line ''(no name)'' ''hi all''), (7, ''% '')]\<rparr>))
     \<and> chat_line 7 ''yell no exit'' s = bind_res (logout 7 s) (\<lambda>s'. Inr (Logged_Out s'))"
proof -
  let ?s = "placed 0 7 (''1.2.3.4'', 5) chat_init"
  have s: "chat_ok ?s" "holder_of ?s 0 = 7" using one_user by simp_all
  have vals: "builtin_of (''yell '' @ ''hi all'') = Yell" "plain_line ''hi all''" "plain_line ''no exit''"
    "tokens (is_delim CHR '' '') ''hi all'' = [''hi'', ''all'']"
    "tokens (is_delim CHR '' '') ''no exit'' = [''no'', ''exit'']"
    "\<not> contains (''yell '' @ ''no exit'') ''printenv''" "\<not> contains (''yell '' @ ''no exit'') ''setenv''"
    by (simp_all add: builtin_of_def contains_def plain_line_def tokens_eval)
  have p: "(7::nat) \<noteq> 0" "[''no'', ''exit''] \<noteq> []" "length (join_words [''no'', ''exit'']) < 1023"
    by simp_all
  have out: "nickname ?s ! 0 = ''(no name)''" "outbox ?s = []" "users ?s = [0]"
    by (simp_all add: placed_def chat_init_def users_def)
  have "chat_line 7 (''yell '' @ ''hi all'') ?s =
      Inr (Stay (?s\<lparr>outbox := [(7, yell_line ''(no name)'' ''hi all''), (7, ''% '')]\<rparr>))"
    using yell_reaches_everybody [OF s _ vals(2) vals(4) [symmetric]] vals(1) s(2) out by simp
  moreover have "chat_line 7 (''yell '' @ ''no exit'') ?s = bind_res (logout 7 ?s) (\<lambda>s'. Inr (Logged_Out s'))"
    using yell_reaches_everybody [OF s p(1) vals(3) vals(5) [symmetric] p(2,3), THEN conjunct2,
        THEN spec [of _ "''no ''"], THEN spec [of _ "[]"]] vals(6,7) by simp
  ultimately show ?thesis by (simp add: Let_def)
qed

text \<open>A variable that is not known goes to the index the next place's count gives.\<close>

lemma load_env_new:
  assumes "tokens (is_delim CHR ''='') str = [key, val]" "find_client fd s = Some c" "c + 1 < 60"
    and "env_label key (clients_env s ! c) = None" "env_num (clients_env s ! c) \<le> 100"
    and "env_num (clients_env s ! (c + 1)) = 0" "length key < 100" "length val < 100"
    and "e = clients_env s ! c"
  shows "load_env fd str s = Inr (s\<lparr>clients_env := (clients_env s)[c :=
    e\<lparr>env_keys := (env_keys e)[0 := key], env_vals := (env_vals e)[0 := val], env_num := Suc (env_num e)\<rparr>]\<rparr>)"
  using assms by (simp add: load_env_def MAX_USER_NUM_def Let_def)

lemma find_client_env [simp]: "find_client fd (s\<lparr>clients_env := es\<rparr>) = find_client fd s"
  by (simp add: find_client_def)

lemma assignment_tokens:
  assumes "key \<noteq> []" "CHR ''='' \<notin> set key" "val \<noteq> []" "CHR ''='' \<notin> set val"
  shows "tokens (is_delim CHR ''='') (key @ CHR ''='' # val) = [key, val]"
proof -
  have "\<forall>c \<in> set w. \<not> is_delim CHR ''='' c" if "CHR ''='' \<notin> set w" for w
    using that by (auto simp: is_delim_def)
  then show ?thesis
    using tokens_first [of key "is_delim CHR ''=''" "CHR ''=''" val] tokens_single [of val "is_delim CHR ''=''"] assms
    by (simp add: is_delim_def)
qed

text \<open>The login at a place that has not been used sets \<open>PATH\<close>.\<close>

definition path_env :: env_map where
  "path_env = env_init\<lparr>env_keys := (env_keys env_init)[0 := ''PATH''],
     env_vals := (env_vals env_init)[0 := ''bin:.''], env_num := Suc 0\<rparr>"

lemma path_env [simp]: "env_num path_env = 1" "env_keys path_env ! 0 = ''PATH''" "env_vals path_env ! 0 = ''bin:.''"
  "length (env_keys path_env) = 100" "length (env_vals path_env) = 100"
  by (simp_all add: path_env_def env_init_def)

lemma env_table:
  "table_ok s \<Longrightarrow> length es = 60 \<Longrightarrow> table_ok (s\<lparr>clients_env := es\<rparr>)" "holder_of (s\<lparr>clients_env := es\<rparr>) = holder_of s"
  by (simp_all add: table_ok_def holder_of_def fun_eq_iff)

lemma login_unused:
  assumes "table_ok s" "one_each (holder_of s)" "fd \<noteq> 0" "\<forall>j. holder_of s j \<noteq> fd"
    and "i < 59" "holder_of s i = 0" "\<forall>j < i. holder_of s j \<noteq> 0"
    and "clients_env s ! i = env_init" "clients_env s ! (i + 1) = env_init"
  shows "\<exists>t. login fd ip port s = Inr t \<and> find_client fd t = Some i \<and> clients_env t = (clients_env s)[i := path_env]
    \<and> table_ok t \<and> holder_of t = (holder_of s)(i := fd)"
proof -
  have i: "i < 60" using assms(5) by simp
  let ?p = "placed i fd (ip, port) (greet fd ip port s)"
  note reg = register_greeted [OF assms(1-4) i assms(6,7) refl, of "(ip, port)" ip port]
  have "load_env fd ''PATH=bin:.'' ?p = Inr (?p\<lparr>clients_env := (clients_env s)[i := path_env]\<rparr>)"
    using load_env_new [of "''PATH=bin:.''" "''PATH''" "''bin:.''" fd ?p i env_init] reg(5) assms(5,8,9)
    by (simp add: tokens_eval env_label_def env_init_def path_env_def)
  then have log: "login fd ip port s = Inr (?p\<lparr>clients_env := (clients_env s)[i := path_env]\<rparr>)"
    using reg(1) by (simp add: login_def)
  have "table_ok (?p\<lparr>clients_env := (clients_env s)[i := path_env]\<rparr>)"
    "holder_of (?p\<lparr>clients_env := (clients_env s)[i := path_env]\<rparr>) = (holder_of s)(i := fd)"
    using reg(2,3) env_table(1) [OF reg(2)] assms(1) by (simp_all add: env_table(2) table_ok_def)
  with log reg(5) show ?thesis by simp
qed

text \<open>
  A user whose place and the next one have not been used before has \<open>PATH\<close> set to \<open>bin:.\<close> by the
  login. The first \<open>setenv\<close> of another variable takes the index from the next place, 0, and
  overwrites \<open>PATH\<close>: the new variable can be printed, \<open>PATH\<close> cannot.
\<close>

theorem setenv_overwrites_path:
  assumes "table_ok s" "one_each (holder_of s)" "fd \<noteq> 0" "\<forall>j. holder_of s j \<noteq> fd"
    and "i < 59" "holder_of s i = 0" "\<forall>j < i. holder_of s j \<noteq> 0"
    and "clients_env s ! i = env_init" "clients_env s ! (i + 1) = env_init"
    and "key \<noteq> []" "CHR ''='' \<notin> set key" "key \<noteq> ''PATH''" "length key < 100"
    and "val \<noteq> []" "CHR ''='' \<notin> set val" "length val < 100"
  shows "\<exists>t u. login fd ip port s = Inr t \<and> do_printenv fd ''PATH'' t = Inr ''bin:.''
    \<and> load_env fd (key @ ''='' @ val) t = Inr u \<and> do_printenv fd key u = Inr val
    \<and> do_printenv fd ''PATH'' u = Inl Uninitialised_Read"
proof -
  have len: "length (clients_env s) = 60" using assms(1) by (simp add: table_ok_def)
  obtain t where t: "login fd ip port s = Inr t" "find_client fd t = Some i"
    "clients_env t = (clients_env s)[i := path_env]"
    using login_unused [OF assms(1-9)] by blast
  have path: "do_printenv fd ''PATH'' t = Inr ''bin:.''" using t len assms(5) by (simp add: do_printenv_def)
  define e where "e = path_env\<lparr>env_keys := (env_keys path_env)[0 := key],
    env_vals := (env_vals path_env)[0 := val], env_num := Suc (env_num path_env)\<rparr>"
  let ?u = "t\<lparr>clients_env := (clients_env t)[i := e]\<rparr>"
  have "env_label key path_env = None" using assms(12) by (simp add: env_label_def)
  then have u: "load_env fd (key @ ''='' @ val) t = Inr ?u"
    using load_env_new [of "key @ ''='' @ val" key val fd t i path_env] t len assms(5,9-16)
    by (simp add: assignment_tokens e_def env_init_def)
  have "env_num e = 2" "env_keys e ! 0 = key" "env_vals e ! 0 = val" by (simp_all add: e_def)
  then have "do_printenv fd key ?u = Inr val" "do_printenv fd ''PATH'' ?u = Inl Uninitialised_Read"
    using t len assms(5,12) by (simp_all add: do_printenv_def)
  with t(1) path u show ?thesis by blast
qed

theorem setenv_overwrites_path_witness:
  "\<exists>t u. login 7 ''1.2.3.4'' 5 chat_init = Inr t \<and> do_printenv 7 ''PATH'' t = Inr ''bin:.''
    \<and> load_env 7 (''LANG'' @ ''='' @ ''C'') t = Inr u \<and> do_printenv 7 ''LANG'' u = Inr ''C''
    \<and> do_printenv 7 ''PATH'' u = Inl Uninitialised_Read"
proof -
  have "table_ok chat_init" "holder_of chat_init = (\<lambda>j. 0)" "one_each (\<lambda>j. 0)"
    by (auto simp: table_ok_def chat_init_def holder_of_def one_each_def fun_eq_iff)
  moreover have "clients_env chat_init ! 0 = env_init" "clients_env chat_init ! 1 = env_init"
    by (simp_all add: chat_init_def)
  ultimately show ?thesis
    using setenv_overwrites_path [of chat_init 7 0 "''LANG''" "''C''" "''1.2.3.4''" 5] by simp
qed


end
