(* ===== verification/Np_Single.thy ===== *)
theory Np_Single
  imports Np_Chat
begin

text \<open>
  \<open>project2/np_single_proc.cpp\<close> as a whole: \<open>do_exec\<close> and \<open>parser\<close> with numbered pipes and the
  pipes between users, on top of the users and built-in commands of \<open>Np_Chat\<close>, and the events of
  \<open>main\<close>. The state is that of \<open>Np_Pipes\<close> with the chat and the descriptors in \<open>user_pipe\<close>. Around
  each message the program saves its standard output with \<open>dup\<close> and puts it back; this leaves the
  descriptors as they were and is left out, a free descriptor for it is taken for granted.
\<close>

section \<open>State\<close>

record single = np +
  chat_of :: chat
  user_pipe_fd :: "nat \<Rightarrow> nat \<Rightarrow> int"

text \<open>The server after \<open>create_socket\<close>: descriptor 3 accepts connections.\<close>

definition single_init :: single where
  "single_init =
     \<lparr>np_fds = [Some (Std 0), Some (Std 1), Some (Std 2), Some (Sock 3)], np_pipes = 0,
      slots = replicate 2048 slot_init, pos = 0, kids = [], waits = [],
      chat_of = chat_init, user_pipe_fd = (\<lambda>i j. 0)\<rparr>"

definition on_chat :: "(chat \<Rightarrow> chat) \<Rightarrow> single \<Rightarrow> single" where
  "on_chat f s = s\<lparr>chat_of := f (chat_of s)\<rparr>"

definition set_flag :: "nat \<Rightarrow> nat \<Rightarrow> bool \<Rightarrow> chat \<Rightarrow> chat" where
  "set_flag i j b c = c\<lparr>user_pipe_flag := (user_pipe_flag c)(i := (user_pipe_flag c i)(j := b))\<rparr>"

section \<open>Pipes between users\<close>

text \<open>\<open>strchr(s, c)\<close>, empty when there is no such character.\<close>

definition strchr :: "char \<Rightarrow> string \<Rightarrow> string" where
  "strchr c s = dropWhile (\<lambda>x. x \<noteq> c) s"

text \<open>A \<open><\<close> is always a pipe from a user, a \<open>>\<close> only when no blank follows the first one.\<close>

definition from_user :: "string \<Rightarrow> bool" where
  "from_user s \<longleftrightarrow> CHR ''<'' \<in> set s"

definition to_file :: "string \<Rightarrow> bool" where
  "to_file s \<longleftrightarrow> take 2 (strchr CHR ''>'' s) = ''> ''"

definition to_user :: "string \<Rightarrow> bool" where
  "to_user s \<longleftrightarrow> CHR ''>'' \<in> set s \<and> \<not> to_file s"

text \<open>The number behind the first token that \<open>c\<close> ends; \<open>atoi\<close> of a null pointer when there is none.\<close>

definition user_number :: "char \<Rightarrow> string \<Rightarrow> int res" where
  "user_number c s =
     (case tokens (is_delim c) s of
        _ # t # _ \<Rightarrow> (case tokens (is_delim CHR '' '') t of
                         n # _ \<Rightarrow> Inr (atoi n)
                       | [] \<Rightarrow> Inl Null_Pointer)
      | _ \<Rightarrow> Inl Null_Pointer)"

definition known_user :: "int \<Rightarrow> chat \<Rightarrow> bool" where
  "known_user n c \<longleftrightarrow> 0 < n \<and> n \<le> 30 \<and> clients_fd_set c ! nat (n - 1) \<noteq> 0"

definition own_id :: "nat \<Rightarrow> chat \<Rightarrow> nat res" where
  "own_id fd c = (case find_client fd c of None \<Rightarrow> Inl Uninitialised_Read | Some i \<Rightarrow> Inr (i + 1))"

definition pipe_flag :: "nat \<Rightarrow> nat \<Rightarrow> chat \<Rightarrow> bool res" where
  "pipe_flag i j c = (if i > 30 \<or> j > 30 then Inl Out_Of_Bounds else Inr (user_pipe_flag c i j))"

definition user_at :: "nat \<Rightarrow> chat \<Rightarrow> string" where
  "user_at i c = nickname c ! (i - 1) @ '' (#'' @ nat_str i @ '')''"

definition quoted :: "string \<Rightarrow> string" where
  "quoted line = [CHR 0x27] @ line @ [CHR 0x27]"

definition no_pipe_line :: "nat \<Rightarrow> nat \<Rightarrow> string" where
  "no_pipe_line i j = ''*** Error: the pipe #'' @ nat_str i @ ''->#'' @ nat_str j @ '' does not exist yet. ***'' @ [newline]"

definition pipe_exists_line :: "nat \<Rightarrow> nat \<Rightarrow> string" where
  "pipe_exists_line i j = ''*** Error: the pipe #'' @ nat_str i @ ''->#'' @ nat_str j @ '' already exists. ***'' @ [newline]"

definition received_line :: "nat \<Rightarrow> nat \<Rightarrow> string \<Rightarrow> chat \<Rightarrow> string" where
  "received_line me from line c =
     ''*** '' @ user_at me c @ '' just received from '' @ user_at from c @ '' by '' @ quoted line @ '' ***'' @ [newline]"

definition piped_line :: "nat \<Rightarrow> nat \<Rightarrow> string \<Rightarrow> chat \<Rightarrow> string" where
  "piped_line me to line c =
     ''*** '' @ user_at me c @ '' just piped '' @ quoted line @ '' to '' @ user_at to c @ '' ***'' @ [newline]"

text \<open>
  The two blocks of \<open>do_exec\<close>. The result of the first is the input of the line, \<open>None\<close> when \<open>do_exec\<close>
  returns; that of the second is whether it goes on.
\<close>

definition receive_pipe :: "nat \<Rightarrow> string \<Rightarrow> single \<Rightarrow> (int option \<times> single) res" where
  "receive_pipe sock line s =
     (let c = chat_of s in
      if \<not> from_user line then Inr (Some 0, s)
      else bind_res (user_number CHR ''<'' line) (\<lambda>sendid.
        if \<not> known_user sendid c then Inr (None, on_chat (say sock (no_user_line sendid)) s)
        else bind_res (own_id sock c) (\<lambda>recvid.
             bind_res (pipe_flag (nat sendid) recvid c) (\<lambda>flag.
               if \<not> flag then Inr (None, on_chat (say sock (no_pipe_line (nat sendid) recvid)) s)
               else Inr (Some (user_pipe_fd s (nat sendid) recvid),
                         on_chat (set_flag (nat sendid) recvid False)
                           (on_chat (broadcast (users c) (received_line recvid (nat sendid) line c)) s))))))"

definition send_pipe :: "nat \<Rightarrow> string \<Rightarrow> single \<Rightarrow> (bool \<times> single) res" where
  "send_pipe sock line s =
     (let c = chat_of s in
      if \<not> to_user line then Inr (True, s)
      else bind_res (user_number CHR ''>'' line) (\<lambda>recvid.
        if \<not> known_user recvid c then Inr (False, on_chat (say sock (no_user_line recvid)) s)
        else bind_res (own_id sock c) (\<lambda>sendid.
             bind_res (pipe_flag sendid (nat recvid) c) (\<lambda>flag.
               if flag then Inr (False, on_chat (say sock (pipe_exists_line sendid (nat recvid))) s)
               else Inr (True, on_chat (broadcast (users c) (piped_line sendid (nat recvid) line c)) s)))))"

section \<open>The child\<close>

text \<open>The redirection of the child's streams, in the order of the calls.\<close>

definition single_wire ::
    "nat \<Rightarrow> bool \<Rightarrow> bool \<Rightarrow> nat \<Rightarrow> bool \<Rightarrow> bool \<Rightarrow> int \<Rightarrow> int \<Rightarrow> nat \<Rightarrow> fd_table \<Rightarrow> fd_table" where
  "single_wire sock first final get_input enter n_pipe_err input out wr t =
     (let t0 = dup2 sock 1 t;
          t1 = (if first \<and> \<not> final \<and> input = 0 then dup2 sock 2 (dup2 wr 1 t0)
                else if \<not> first \<and> \<not> final \<and> input \<noteq> 0 then dup2 sock 2 (dup2 wr 1 (dup2_int input 0 t0))
                else if first \<and> final \<and> get_input = 4 \<and> input = 0 then dup2 sock 2 (dup2 wr 1 t0)
                else if first \<and> final \<and> get_input = 4 \<and> input \<noteq> 0 then dup2 sock 2 (dup2 wr 1 (dup2_int input 0 t0))
                else if first \<and> \<not> final \<and> input \<noteq> 0 then dup2 sock 2 (dup2 wr 1 (dup2_int input 0 t0))
                else dup2_int out 2 (dup2_int out 1 (dup2_int input 0 t0)));
          t2 = (if n_pipe_err \<and> get_input \<noteq> 3 then dup2 wr 2 t1
                else if n_pipe_err \<and> get_input = 3 then dup2_int out 2 t1 else t1);
          t3 = (if enter then dup2_int input 0 t2 else t2)
      in if final \<and> get_input = 4 then dup2 wr 1 t3
         else if final \<and> get_input = 3 then dup2_int out 1 t3 else t3)"

text \<open>
  The loop that cuts the operands at the first with a character in it; \<open>strchr\<close> of a null pointer is a
  fault. The list is the operands with the null pointer at their end.
\<close>

fun cut_at :: "char \<Rightarrow> string option list \<Rightarrow> string option list res" where
  "cut_at c [] = Inr []"
| "cut_at c (None # ops) = Inl Null_Pointer"
| "cut_at c (Some w # ops) =
     (if c \<in> set w then Inr (None # ops) else bind_res (cut_at c ops) (\<lambda>ops'. Inr (Some w # ops')))"

text \<open>\<open>order\<close>: a pipe to a user stands behind a pipe from a user.\<close>

definition input_first :: "string \<Rightarrow> bool" where
  "input_first cmd \<longleftrightarrow> to_user cmd \<and> from_user cmd
     \<and> length (strchr CHR ''>'' cmd) \<le> length (strchr CHR ''<'' cmd)"

text \<open>
  The block for \<open>>\<close>: a file, or the pipe to a user. A pipe that is refused makes the child return from
  \<open>parser\<close> with a null pointer, which \<open>do_exec\<close> then reads.
\<close>

definition child_output ::
    "np_kernel \<Rightarrow> nat \<Rightarrow> string \<Rightarrow> chat \<Rightarrow> nat \<Rightarrow> string option list \<times> fd_table \<Rightarrow> (string option list \<times> fd_table) res" where
  "child_output w sock cmd c wr = (\<lambda>(ops, t).
     if CHR ''>'' \<notin> set cmd then Inr (ops, t)
     else if to_file cmd
     then bind_res (cut_at CHR ''>'' ops) (\<lambda>ops'.
            Inr (ops', case last (butlast ops) of None \<Rightarrow> t | Some name \<Rightarrow> redirect_to w name t))
     else bind_res (user_number CHR ''>'' cmd) (\<lambda>recvid.
            if \<not> known_user recvid c then Inl Null_Pointer
            else bind_res (own_id sock c) (\<lambda>sendid.
                 bind_res (pipe_flag sendid (nat recvid) c) (\<lambda>flag.
                   if flag then Inl Null_Pointer
                   else bind_res (cut_at CHR ''>'' ops) (\<lambda>ops'. Inr (ops', dup2 wr 1 t))))))"

text \<open>The block for \<open><\<close>, which is in the program twice.\<close>

definition child_input :: "string \<Rightarrow> string option list \<times> fd_table \<Rightarrow> (string option list \<times> fd_table) res" where
  "child_input cmd = (\<lambda>(ops, t).
     if from_user cmd \<and> \<not> input_first cmd
     then bind_res (cut_at CHR ''<'' ops) (\<lambda>ops'. Inr (ops', t)) else Inr (ops, t))"

text \<open>
  The paths are copied to an array of 20 bytes. \<open>ch_paths\<close> are those that fit, up to the first that does not.
\<close>

definition single_exec :: "string option list \<Rightarrow> string list \<Rightarrow> fd_table \<Rightarrow> np_kid" where
  "single_exec ops dirs t =
     (case ops of
        Some prog # _ \<Rightarrow>
          (let paths = takeWhile (\<lambda>p. length p < 20) (map (\<lambda>d. d @ ''/'' @ prog) dirs) in
           if dirs = [] then Dies Null_Pointer
           else if paths = [] then Dies Buffer_Overflow
           else Runs \<lparr>ch_argv = map the (takeWhile (\<lambda>x. x \<noteq> None) ops), ch_paths = paths, ch_fds = t\<rparr>)
      | _ \<Rightarrow> Dies Null_Pointer)"

definition single_kid ::
    "np_kernel \<Rightarrow> nat \<Rightarrow> chat \<Rightarrow> string \<Rightarrow> bool \<Rightarrow> bool \<Rightarrow> nat \<Rightarrow> bool \<Rightarrow> bool \<Rightarrow> int \<Rightarrow> int \<Rightarrow>
     nat \<times> nat \<Rightarrow> string list \<Rightarrow> string list \<Rightarrow> fd_table \<Rightarrow> np_kid" where
  "single_kid w sock c cmd first final get_input enter n_pipe_err input out pipefd ops dirs t =
     (let t' = single_wire sock first final get_input enter n_pipe_err input out (snd pipefd) t in
      case bind_res (child_input cmd (map Some ops @ [None], t'))
             (\<lambda>a. bind_res (child_output w sock cmd c (snd pipefd) a) (child_input cmd)) of
        Inl e \<Rightarrow> Dies e
      | Inr (ops', t'') \<Rightarrow> single_exec ops' dirs t'')"

section \<open>\<open>parser\<close>\<close>

text \<open>
  What the parent does after the \<open>fork\<close>: the reading end of a pipe to a user is entered in \<open>user_pipe\<close>,
  a pipe from a user whose flag is still set is closed.
\<close>

definition mark_output :: "nat \<Rightarrow> string \<Rightarrow> nat \<Rightarrow> single \<Rightarrow> single res" where
  "mark_output sock cmd rd s =
     (let c = chat_of s in
      if \<not> to_user cmd then Inr s
      else bind_res (user_number CHR ''>'' cmd) (\<lambda>recvid.
           bind_res (own_id sock c) (\<lambda>sendid.
             if recvid < 0 then Inl Out_Of_Bounds
             else bind_res (pipe_flag sendid (nat recvid) c) (\<lambda>flag.
               if known_user recvid c \<and> \<not> flag
               then Inr (s\<lparr>chat_of := set_flag sendid (nat recvid) True c,
                          user_pipe_fd := (user_pipe_fd s)(sendid := (user_pipe_fd s sendid)(nat recvid := int rd))\<rparr>)
               else Inr s))))"

definition mark_input :: "nat \<Rightarrow> string \<Rightarrow> single \<Rightarrow> single res" where
  "mark_input sock cmd s =
     (let c = chat_of s in
      if \<not> from_user cmd then Inr s
      else bind_res (user_number CHR ''<'' cmd) (\<lambda>sendid.
        if \<not> known_user sendid c then Inr s
        else bind_res (own_id sock c) (\<lambda>recvid.
             bind_res (pipe_flag (nat sendid) recvid c) (\<lambda>flag.
               if flag then Inr (shut (user_pipe_fd s (nat sendid) recvid) (on_chat (set_flag (nat sendid) recvid False) s))
               else Inr s))))"

definition path_of :: "nat \<Rightarrow> chat \<Rightarrow> string option res" where
  "path_of sock c = bind_res (do_printenv sock ''PATH'' c) (\<lambda>v. Inr (Some v))"

definition single_parser ::
    "np_kernel \<Rightarrow> nat \<Rightarrow> bool \<Rightarrow> bool \<Rightarrow> int \<Rightarrow> int \<Rightarrow> bool \<Rightarrow> bool \<Rightarrow> bool \<Rightarrow> nat \<Rightarrow> string \<Rightarrow> single \<Rightarrow>
     ((int \<times> int) \<times> single) res" where
  "single_parser w sock waiting n_pipe_err out input first final enter get_input cmd s =
     bind_res (start_command w (path_of sock (chat_of s))
         (single_kid w sock (chat_of s) cmd first final get_input enter n_pipe_err input out) False 0 cmd s)
       (\<lambda>((r, d), s1).
     bind_res (mark_output sock cmd r s1) (\<lambda>s2.
     bind_res (mark_input sock cmd s2) (\<lambda>s3.
       let child = (if np_forks w (np_pipes s) then Some (length (kids s)) else None);
           s4 = (if waiting \<and> final then s3\<lparr>waits := waits s3 @ [(child, np_fds s3)]\<rparr> else s3)
       in Inr (d, if input \<noteq> 0 then shut input s4 else s4))))"

section \<open>A line\<close>

text \<open>The last piece is cut at \<open>!\<close> only when a character other than a blank follows the first one.\<close>

definition error_mark :: "string \<Rightarrow> bool" where
  "error_mark f \<longleftrightarrow> 2 \<le> length (strchr CHR ''!'' f) \<and> strchr CHR ''!'' f ! 1 \<noteq> CHR '' ''"

definition prompt :: "nat \<Rightarrow> single \<Rightarrow> single" where
  "prompt sock s = on_chat (say sock ''% '') s"

text \<open>
  The loop of \<open>do_exec\<close> with the prompt that \<open>handle_new_connection\<close> prints after it: a built-in command, if
  there is one stage, with what \<open>main\<close> does after an \<open>exit\<close>; or the stages.
\<close>

definition single_commands ::
    "np_kernel \<Rightarrow> nat \<Rightarrow> bool \<Rightarrow> nat \<Rightarrow> int \<Rightarrow> int \<Rightarrow> string list \<Rightarrow> single \<Rightarrow> single progress res" where
  "single_commands w sock n_pipe_err get_input out input stage_texts s =
     bind_res (if length stage_texts = 1 then run_builtin sock (hd stage_texts) (chat_of s) else Inr Elsewhere)
       (\<lambda>r. case r of
          Stay c \<Rightarrow> Inr (Goes_On (s\<lparr>chat_of := c\<rparr>))
        | Logged_Out c \<Rightarrow> Inr (Exits (shut (int sock) (s\<lparr>chat_of := c\<rparr>)))
        | Elsewhere \<Rightarrow>
            bind_res (stages (single_parser w sock (get_input = 0) n_pipe_err out) sock input True get_input stage_texts s)
              (\<lambda>s'. Inr (Goes_On (prompt sock s'))))"

text \<open>The pipes from and to users come before the loop.\<close>

definition single_redirected ::
    "np_kernel \<Rightarrow> nat \<Rightarrow> string \<Rightarrow> bool \<Rightarrow> nat \<Rightarrow> int \<Rightarrow> string list \<Rightarrow> single \<Rightarrow> single progress res" where
  "single_redirected w sock cmd n_pipe_err get_input out stage_texts s =
     bind_res (receive_pipe sock cmd s) (\<lambda>(received, s1).
       case received of
         None \<Rightarrow> Inr (Goes_On (prompt sock s1))
       | Some input \<Rightarrow>
           bind_res (send_pipe sock cmd s1) (\<lambda>(goes_on, s2).
             if goes_on then single_commands w sock n_pipe_err get_input out input stage_texts s2
             else Inr (Goes_On (prompt sock s2))))"

text \<open>
  \<open>do_exec\<close>. The number at the end of the line is entered before the pipes from and to users are
  looked at.
\<close>

definition single_do_exec :: "np_kernel \<Rightarrow> nat \<Rightarrow> string \<Rightarrow> single \<Rightarrow> single progress res" where
  "single_do_exec w sock cmd s =
     bind_res (split_pipe cmd) (\<lambda>files.
     if files = [] \<or> hd (hd files) = CHR '' '' then Inr (Goes_On (prompt sock s))
     else bind_res (if error_mark (last files) then error_pieces files else Inr (files, False)) (\<lambda>(files, n_pipe_err).
     bind_res (case pipe_number files of
                 None \<Rightarrow> Inr ((0, None), s)
               | Some n \<Rightarrow> plan_number 2047 sock n s) (\<lambda>((get_input, joined), s1).
       single_redirected w sock cmd n_pipe_err get_input
         (case joined of None \<Rightarrow> int sock | Some u \<Rightarrow> u)
         (if get_input = 0 then files else butlast files) s1)))"

definition single_input :: "np_kernel \<Rightarrow> nat \<Rightarrow> string \<Rightarrow> single \<Rightarrow> single progress res" where
  "single_input w sock bytes s =
     (let line = takeWhile (\<lambda>c. c \<noteq> nul) bytes in
      if line = [] \<or> length line \<ge> 20000 then Inl Out_Of_Bounds
      else single_do_exec w sock (butlast line) s)"

section \<open>\<open>main\<close>\<close>

text \<open>\<open>accept\<close> is called until it works; then the user is entered.\<close>

definition single_login :: "np_kernel \<Rightarrow> string \<Rightarrow> nat \<Rightarrow> single \<Rightarrow> (nat \<times> single) res" where
  "single_login w ip port s =
     (let fd = lowest_free (np_fds s) in
      if fd \<ge> np_limit w then Inl Unbounded_Loop
      else bind_res (login fd ip port (chat_of s)) (\<lambda>c.
             Inr (fd, s\<lparr>np_fds := fd_put (np_fds s) fd (Sock fd), chat_of := c\<rparr>)))"

text \<open>
  What \<open>select\<close> reports, in the order in which it is dealt with: a new connection, or what a
  connection that is in the set can read.
\<close>

datatype event =
    Connects string nat
  | Says nat string

definition single_event :: "np_kernel \<Rightarrow> event \<Rightarrow> single \<Rightarrow> single res" where
  "single_event w e s =
     (case e of
        Connects ip port \<Rightarrow> bind_res (single_login w ip port s) (\<lambda>(fd, s'). Inr s')
      | Says fd bytes \<Rightarrow> bind_res (single_input w fd bytes s) (\<lambda>p. Inr (case p of Goes_On s' \<Rightarrow> s' | Exits s' \<Rightarrow> s')))"

fun single_run :: "np_kernel \<Rightarrow> event list \<Rightarrow> single \<Rightarrow> single res" where
  "single_run w [] s = Inr s"
| "single_run w (e # es) s = bind_res (single_event w e s) (single_run w es)"

section \<open>What a line does to the chat\<close>

text \<open>Programs and user pipes only say things and move flags.\<close>

definition only_talks :: "chat \<Rightarrow> chat \<Rightarrow> bool" where
  "only_talks c c' \<longleftrightarrow> clients_size c' = clients_size c \<and> clients_fd_set c' = clients_fd_set c
     \<and> nickname c' = nickname c \<and> clients_env c' = clients_env c \<and> clients_addr_in c' = clients_addr_in c
     \<and> prefix (outbox c) (outbox c')"

lemma only_talks_refl [simp]: "only_talks c c"
  by (simp add: only_talks_def)

lemma only_talks_say: "only_talks c c' \<Longrightarrow> only_talks c (say fd m c')"
  by (simp add: only_talks_def)

lemma only_talks_broadcast: "only_talks c c' \<Longrightarrow> only_talks c (broadcast ids m c')"
  by (simp add: only_talks_def broadcast_box)

lemma only_talks_flag: "only_talks c c' \<Longrightarrow> only_talks c (set_flag i j b c')"
  by (simp add: only_talks_def set_flag_def)

lemmas only_talks_rules = only_talks_say only_talks_broadcast only_talks_flag

lemma only_talks_trans: "only_talks c c' \<Longrightarrow> only_talks c' c'' \<Longrightarrow> only_talks c c''"
  by (auto simp: only_talks_def intro: prefix_order.trans)

lemma only_talks_step:
  assumes "only_talks c c'"
  shows "chat_step c c'"
proof -
  have eq: "c' = c\<lparr>user_pipe_flag := user_pipe_flag c', outbox := outbox c'\<rparr>"
    using assms by (cases c; cases c') (simp add: only_talks_def)
  have "prefix (outbox c) (outbox c')" using assms by (simp add: only_talks_def)
  then show ?thesis by (subst eq) (rule chat_step.programs)
qed

lemma only_talks_same:
  assumes "only_talks c c'"
  shows "holder_of c' = holder_of c" "find_client fd c' = find_client fd c" "clients_env c' = clients_env c"
    "clients_fd_set c' = clients_fd_set c" "users c' = users c"
  using assms by (simp_all add: only_talks_def holder_of_def find_client_def users_def fun_eq_iff)

lemma chat_of_more: "np.more s = np.more t \<Longrightarrow> chat_of (s :: single) = chat_of t"
  by (cases s; cases t) simp

lemma on_chat_fields [simp]:
  "chat_of (on_chat f s) = f (chat_of s)" "slots (on_chat f s) = slots s" "pos (on_chat f s) = pos s"
  "np_fds (on_chat f s) = np_fds s" "kids (on_chat f s) = kids s" "waits (on_chat f s) = waits s"
  "np_pipes (on_chat f s) = np_pipes s" "user_pipe_fd (on_chat f s) = user_pipe_fd s"
  by (simp_all add: on_chat_def)

lemma chat_of_shut [simp]: "chat_of (shut k s) = chat_of s"
  by (simp add: shut_def)

lemma truncate_fields:
  "np.truncate s' = np.truncate s \<longleftrightarrow> slots s' = slots s \<and> pos s' = pos s \<and> np_fds s' = np_fds s
     \<and> kids s' = kids s \<and> waits s' = waits s \<and> np_pipes s' = np_pipes s"
  by (auto simp: np.truncate_def)

lemma mark_output_talks:
  "mark_output sock cmd rd s = Inr s' \<Longrightarrow> only_talks (chat_of s) (chat_of s') \<and> np.truncate s' = np.truncate s"
  by (auto simp: mark_output_def bind_res_Inr_iff Let_def truncate_fields only_talks_rules split: if_splits)

lemma mark_input_talks:
  "mark_input sock cmd s = Inr s' \<Longrightarrow> only_talks (chat_of s) (chat_of s') \<and> keeps_table s s' \<and> kids s' = kids s
     \<and> waits s' = waits s \<and> np_pipes s' = np_pipes s"
  by (auto simp: mark_input_def bind_res_Inr_iff Let_def keeps_table_def only_talks_rules split: if_splits)

lemma receive_pipe_cases:
  assumes "receive_pipe sock line s = Inr (r, s')"
  shows "s' = s \<or> (\<exists>m. s' = on_chat (say sock m) s)
    \<or> (\<exists>i j ids m. s' = on_chat (set_flag i j False) (on_chat (broadcast ids m) s))"
proof (cases "from_user line")
  case True
  then obtain i where i: "user_number CHR ''<'' line = Inr i"
    using assms by (cases "user_number CHR ''<'' line") (simp_all add: receive_pipe_def)
  show ?thesis
  proof (cases "known_user i (chat_of s)")
    case known: True
    then obtain j where j: "own_id sock (chat_of s) = Inr j"
      using assms True i by (cases "own_id sock (chat_of s)") (simp_all add: receive_pipe_def)
    then obtain flag where "pipe_flag (nat i) j (chat_of s) = Inr flag"
      using assms True i known by (cases "pipe_flag (nat i) j (chat_of s)") (simp_all add: receive_pipe_def)
    then have "s' = on_chat (say sock (no_pipe_line (nat i) j)) s
        \<or> s' = on_chat (set_flag (nat i) j False)
            (on_chat (broadcast (users (chat_of s)) (received_line j (nat i) line (chat_of s))) s)"
      using assms True i known j by (cases flag) (simp_all add: receive_pipe_def Let_def)
    then show ?thesis by blast
  qed (use assms True i in \<open>auto simp: receive_pipe_def\<close>)
qed (use assms in \<open>simp add: receive_pipe_def\<close>)

lemma send_pipe_cases:
  assumes "send_pipe sock line s = Inr (r, s')"
  shows "s' = s \<or> (\<exists>m. s' = on_chat (say sock m) s) \<or> (\<exists>ids m. s' = on_chat (broadcast ids m) s)"
proof (cases "to_user line")
  case True
  then obtain i where i: "user_number CHR ''>'' line = Inr i"
    using assms by (cases "user_number CHR ''>'' line") (simp_all add: send_pipe_def)
  show ?thesis
  proof (cases "known_user i (chat_of s)")
    case known: True
    then obtain j where j: "own_id sock (chat_of s) = Inr j"
      using assms True i by (cases "own_id sock (chat_of s)") (simp_all add: send_pipe_def)
    then obtain flag where "pipe_flag j (nat i) (chat_of s) = Inr flag"
      using assms True i known by (cases "pipe_flag j (nat i) (chat_of s)") (simp_all add: send_pipe_def)
    then have "s' = on_chat (say sock (pipe_exists_line j (nat i))) s
        \<or> s' = on_chat (broadcast (users (chat_of s)) (piped_line j (nat i) line (chat_of s))) s"
      using assms True i known j by (cases flag) (simp_all add: send_pipe_def Let_def)
    then show ?thesis by blast
  qed (use assms True i in \<open>auto simp: send_pipe_def\<close>)
qed (use assms in \<open>simp add: send_pipe_def\<close>)

lemma user_pipe_talks:
  "receive_pipe sock line s = Inr (r, s') \<Longrightarrow> only_talks (chat_of s) (chat_of s') \<and> np.truncate s' = np.truncate s"
  "send_pipe sock line s = Inr (q, s') \<Longrightarrow> only_talks (chat_of s) (chat_of s') \<and> np.truncate s' = np.truncate s"
  by (auto dest!: receive_pipe_cases send_pipe_cases simp: only_talks_rules truncate_fields)

lemma plan_number_more: "plan_number bound own n s = Inr (x, s') \<Longrightarrow> np.more s' = np.more s"
  by (auto simp: plan_number_def split: if_splits option.splits)

text \<open>A call of \<open>parser\<close>, in one equation.\<close>

lemma single_parser_Inr:
  assumes "single_parser w sock waiting err out input first final enter gi cmd s = Inr (d, s')"
  shows "\<exists>r s1 s2 s3. start_command w (path_of sock (chat_of s))
         (single_kid w sock (chat_of s) cmd first final gi enter err input out) False 0 cmd s = Inr ((r, d), s1)
    \<and> mark_output sock cmd r s1 = Inr s2 \<and> mark_input sock cmd s2 = Inr s3
    \<and> s' = (let s4 = (if waiting \<and> final
               then s3\<lparr>waits := waits s3 @ [(if np_forks w (np_pipes s) then Some (length (kids s)) else None, np_fds s3)]\<rparr>
               else s3)
            in if input \<noteq> 0 then shut input s4 else s4)"
  using assms unfolding single_parser_def Let_def by (fastforce simp: bind_res_Inr_iff)

lemma single_parser_keeps:
  assumes "single_parser w sock waiting err out input first final enter gi cmd s = Inr (d, s')"
  shows "only_talks (chat_of s) (chat_of s')" "keeps_table s s'" "prefix (kids s) (kids s')"
proof -
  obtain r s1 s2 s3 where p: "start_command w (path_of sock (chat_of s))
         (single_kid w sock (chat_of s) cmd first final gi enter err input out) False 0 cmd s = Inr ((r, d), s1)"
    "mark_output sock cmd r s1 = Inr s2" "mark_input sock cmd s2 = Inr s3"
    "chat_of s' = chat_of s3" "slots s' = slots s3" "pos s' = pos s3" "kids s' = kids s3"
    using single_parser_Inr [OF assms] by (auto simp: Let_def)
  have one: "chat_of s1 = chat_of s" "keeps_table s s1" "prefix (kids s) (kids s1)"
    using start_command_Inr [OF p(1)] chat_of_more [OF start_command_more [OF p(1)]] by auto
  note two = mark_output_talks [OF p(2)] and three = mark_input_talks [OF p(3)]
  show "only_talks (chat_of s) (chat_of s')"
    using one(1) two three p(4) only_talks_trans by metis
  show "keeps_table s s'" "prefix (kids s) (kids s')"
    using one(2,3) truncate_fields [of s2 s1] two three p(5-7) by (simp_all add: keeps_table_def)
qed

lemma single_stages_talk:
  assumes "stages (single_parser w sock waiting err out) own input first gi cs s = Inr s'"
  shows "only_talks (chat_of s) (chat_of s')"
  by (rule stages_keeps [OF _ _ _ _ assms, where P = "\<lambda>t. only_talks (chat_of s) (chat_of t)"])
    (auto simp: turned_def store_slot_def dest: single_parser_keeps(1) intro: only_talks_trans)

text \<open>
  What a line can lead to: nothing but talk; or a built-in command, after the talk of the user pipes.
\<close>

definition line_effect :: "nat \<Rightarrow> chat \<Rightarrow> single progress \<Rightarrow> bool" where
  "line_effect sock c p \<longleftrightarrow> (case p of
     Goes_On s' \<Rightarrow> only_talks c (chat_of s')
       \<or> (\<exists>c1 cmd. only_talks c c1 \<and> run_builtin sock cmd c1 = Inr (Stay (chat_of s')))
   | Exits s' \<Rightarrow> \<exists>c1 cmd. only_talks c c1 \<and> run_builtin sock cmd c1 = Inr (Logged_Out (chat_of s')))"

lemma line_effect_prompt: "only_talks c (chat_of s) \<Longrightarrow> line_effect sock c (Goes_On (prompt sock s))"
  by (simp add: line_effect_def prompt_def only_talks_say)

lemma single_commands_effect:
  assumes "single_commands w sock err gi out input cs s = Inr p" "only_talks c (chat_of s)"
  shows "line_effect sock c p"
proof -
  obtain r where r: "(if length cs = 1 then run_builtin sock (hd cs) (chat_of s) else Inr Elsewhere) = Inr r"
    using assms(1) unfolding single_commands_def bind_res_Inr_iff by blast
  note p = assms(1) [unfolded single_commands_def r bind_res_simps]
  show ?thesis
  proof (cases r)
    case (Stay d)
    then show ?thesis using p r assms(2) by (auto simp: line_effect_def split: if_splits)
  next
    case (Logged_Out d)
    then have "run_builtin sock (hd cs) (chat_of s) = Inr (Logged_Out d)" "p = Exits (shut (int sock) (s\<lparr>chat_of := d\<rparr>))"
      using p r by (simp_all split: if_splits)
    then show ?thesis using assms(2) unfolding line_effect_def by fastforce
  next
    case Elsewhere
    then obtain s' where "p = Goes_On (prompt sock s')"
      "stages (single_parser w sock (gi = 0) err out) sock input True gi cs s = Inr s'"
      using p by (auto simp: bind_res_Inr_iff)
    then show ?thesis using only_talks_trans [OF assms(2) single_stages_talk] line_effect_prompt by blast
  qed
qed

lemma single_redirected_effect:
  assumes "single_redirected w sock cmd err gi out cs s = Inr p"
  shows "line_effect sock (chat_of s) p"
proof -
  obtain a s1 where a: "receive_pipe sock cmd s = Inr (a, s1)"
    using assms unfolding single_redirected_def bind_res_Inr_iff by force
  have one: "only_talks (chat_of s) (chat_of s1)" using user_pipe_talks(1) [OF a] by simp
  show ?thesis
  proof (cases a)
    case None
    then show ?thesis using assms a line_effect_prompt [OF one] by (auto simp: single_redirected_def)
  next
    case (Some input)
    then obtain b s2 where b: "send_pipe sock cmd s1 = Inr (b, s2)"
      using assms a unfolding single_redirected_def by (cases "send_pipe sock cmd s1") auto
    have two: "only_talks (chat_of s) (chat_of s2)"
      using user_pipe_talks(2) [OF b] only_talks_trans [OF one] by simp
    show ?thesis
      using assms a Some b line_effect_prompt [OF two] single_commands_effect [OF _ two]
      by (auto simp: single_redirected_def split: if_splits)
  qed
qed

lemma single_do_exec_effect:
  assumes "single_do_exec w sock cmd s = Inr p"
  shows "line_effect sock (chat_of s) p"
proof -
  obtain files where files: "split_pipe cmd = Inr files"
    using assms unfolding single_do_exec_def bind_res_Inr_iff by blast
  show ?thesis
  proof (cases "files = [] \<or> hd (hd files) = CHR '' ''")
    case True
    then show ?thesis using assms files line_effect_prompt [of "chat_of s" s] by (auto simp: single_do_exec_def)
  next
    case False
    note rest = assms [unfolded single_do_exec_def files bind_res_simps if_not_P [OF False]]
    obtain files' err where pieces: "(if error_mark (last files) then error_pieces files else Inr (files, False)) = Inr (files', err)"
      using rest by (auto simp only: bind_res_Inr_iff split_paired_Ex)
    obtain gi joined s1 where plan: "(case pipe_number files' of None \<Rightarrow> Inr ((0, None), s)
        | Some n \<Rightarrow> plan_number 2047 sock n s) = Inr ((gi, joined), s1)"
      using rest [unfolded pieces bind_res_simps prod.case] by (auto simp only: bind_res_Inr_iff split_paired_Ex)
    have "np.more s1 = np.more s" using plan plan_number_more by (auto split: option.splits)
    then have "chat_of s1 = chat_of s" by (rule chat_of_more)
    then show ?thesis
      using single_redirected_effect rest [unfolded pieces bind_res_simps prod.case plan] by metis
  qed
qed

lemma line_effect_steps:
  assumes "line_effect fd c p" "holder_of c i = fd" "fd \<noteq> 0" "p = Goes_On s \<or> p = Exits s"
  shows "chat_step\<^sup>*\<^sup>* c (chat_of s)"
proof -
  have two: "chat_step\<^sup>*\<^sup>* c (chat_of s)" if "only_talks c c1" "chat_step c1 (chat_of s)" for c1
    using only_talks_step [OF that(1)] that(2) by (meson converse_rtranclp_into_rtranclp r_into_rtranclp)
  have here: "holder_of c1 i = fd" if "only_talks c c1" for c1 using only_talks_same(1) [OF that] assms(2) by simp
  consider "only_talks c (chat_of s)"
    | c1 cmd where "only_talks c c1"
        "run_builtin fd cmd c1 = Inr (Stay (chat_of s)) \<or> run_builtin fd cmd c1 = Inr (Logged_Out (chat_of s))"
    using assms(1,4) by (elim disjE, simp_all add: line_effect_def, blast+)
  then show ?thesis
  proof cases
    case 1
    then show ?thesis using only_talks_step by blast
  next
    case 2
    then have "chat_step c1 (chat_of s)" using here [OF 2(1)] assms(3) chat_step.stays chat_step.leaves by blast
    then show ?thesis using two [OF 2(1)] by blast
  qed
qed

text \<open>
  A step of the server: a user comes, on a descriptor that nobody in the table has; or a user in the
  table sends a line.
\<close>

inductive single_step :: "np_kernel \<Rightarrow> single \<Rightarrow> single \<Rightarrow> bool" for w where
  connects: "single_login w ip port s = Inr (fd, s') \<Longrightarrow> fd \<noteq> 0 \<Longrightarrow> \<forall>j. holder_of (chat_of s) j \<noteq> fd
    \<Longrightarrow> single_step w s s'"
| goes_on: "single_input w fd bytes s = Inr (Goes_On s') \<Longrightarrow> fd \<noteq> 0 \<Longrightarrow> holder_of (chat_of s) i = fd
    \<Longrightarrow> single_step w s s'"
| exits: "single_input w fd bytes s = Inr (Exits s') \<Longrightarrow> fd \<noteq> 0 \<Longrightarrow> holder_of (chat_of s) i = fd
    \<Longrightarrow> single_step w s s'"

inductive_cases single_stepE: "single_step w s s'"

lemma single_input_effect: "single_input w fd bytes s = Inr p \<Longrightarrow> line_effect fd (chat_of s) p"
  by (auto simp: single_input_def Let_def split: if_splits dest: single_do_exec_effect)

lemma single_step_chat:
  assumes "single_step w s s'"
  shows "chat_step\<^sup>*\<^sup>* (chat_of s) (chat_of s')"
  using assms
proof (cases rule: single_step.cases)
  case (connects ip port fd)
  then have "login fd ip port (chat_of s) = Inr (chat_of s')"
    by (auto simp: single_login_def Let_def bind_res_Inr_iff split: if_splits)
  then show ?thesis using connects chat_step.enters by blast
qed (blast intro: line_effect_steps single_input_effect)+

section \<open>Lines of programs\<close>

text \<open>A line without pipes from and to users.\<close>

lemma no_user_pipes:
  assumes "CHR ''<'' \<notin> set line" "CHR ''>'' \<notin> set line"
  shows "receive_pipe sock line s = Inr (Some 0, s)" "send_pipe sock line s = Inr (True, s)"
    "mark_output sock line r s = Inr s" "mark_input sock line s = Inr s"
  using assms
  by (simp_all add: receive_pipe_def send_pipe_def mark_output_def mark_input_def from_user_def to_user_def Let_def)

lemma redirected_plain:
  assumes "CHR ''<'' \<notin> set line" "CHR ''>'' \<notin> set line"
  shows "single_redirected w sock line err gi out cs s = single_commands w sock err gi out 0 cs s"
  using assms by (simp add: single_redirected_def no_user_pipes)

lemma no_error_mark: "CHR ''!'' \<notin> set f \<Longrightarrow> \<not> error_mark f"
proof -
  assume "CHR ''!'' \<notin> set f"
  then have "strchr CHR ''!'' f = []" by (auto simp: strchr_def)
  then show ?thesis by (simp add: error_mark_def)
qed

lemma set_show_line: "set (show_line cs) \<subseteq> insert CHR ''|'' (\<Union> (set ` set cs))"
  by (induction cs rule: show_line.induct) auto

definition chat_stages :: "string list \<Rightarrow> bool" where
  "chat_stages cs \<longleftrightarrow> stage_list cs \<and> (\<forall>c \<in> set cs. CHR ''<'' \<notin> set c \<and> CHR ''>'' \<notin> set c)
     \<and> (length cs = 1 \<longrightarrow> builtin_of (hd cs) = External)"

lemma nat_str_chars: "c \<in> set (nat_str n) \<Longrightarrow> is_digit c"
  using nat_str_digits by blast

lemma chat_stages_text:
  assumes "chat_stages cs"
  shows "CHR ''<'' \<notin> set (show_line cs)" "CHR ''>'' \<notin> set (show_line cs)"
    "CHR ''<'' \<notin> set (show_line (cs @ [nat_str n]))" "CHR ''>'' \<notin> set (show_line (cs @ [nat_str n]))"
proof -
  have digits: "\<not> is_digit CHR ''<''" "\<not> is_digit CHR ''>''" by (simp_all add: is_digit_def code_of_def)
  show "CHR ''<'' \<notin> set (show_line cs)" "CHR ''>'' \<notin> set (show_line cs)"
    using assms set_show_line [of cs] by (auto simp: chat_stages_def)
  show "CHR ''<'' \<notin> set (show_line (cs @ [nat_str n]))" "CHR ''>'' \<notin> set (show_line (cs @ [nat_str n]))"
    using assms set_show_line [of "cs @ [nat_str n]"] digits nat_str_chars [of _ n] by (auto simp: chat_stages_def)
qed

lemma single_commands_stages:
  assumes "chat_stages cs"
  shows "single_commands w sock err gi out 0 cs s =
    bind_res (stages (single_parser w sock (gi = 0) err out) sock 0 True gi cs s) (\<lambda>s'. Inr (Goes_On (prompt sock s')))"
proof -
  have "(if length cs = 1 then run_builtin sock (hd cs) (chat_of s) else Inr Elsewhere) = Inr Elsewhere"
    using assms by (simp add: chat_stages_def run_builtin_def)
  then show ?thesis by (simp add: single_commands_def)
qed

lemma single_exec_stages:
  assumes "chat_stages cs"
  shows "single_do_exec w sock (show_line cs) s =
    bind_res (stages (single_parser w sock True False (int sock)) sock 0 True 0 cs s)
      (\<lambda>s'. Inr (Goes_On (prompt sock s')))"
proof -
  have l: "stage_list cs" using assms by (simp add: chat_stages_def)
  then have "cs \<noteq> []" "\<forall>c \<in> set cs. CHR ''!'' \<notin> set c" by (simp_all add: stage_list_def stage_text_def)
  then have "\<not> error_mark (last cs)" by (simp add: no_error_mark)
  then show ?thesis
    using stage_list_pieces [OF l] redirected_plain [OF chat_stages_text(1,2) [OF assms]] single_commands_stages [OF assms]
    by (simp add: single_do_exec_def)
qed

text \<open>A count that the user has at no place.\<close>

definition count_free :: "nat \<Rightarrow> nat \<Rightarrow> single \<Rightarrow> bool" where
  "count_free sock n s \<longleftrightarrow> (\<forall>j < 2047. pipe_count (slots s ! j) = int n + 1 \<longrightarrow> pipe_owner (slots s ! j) \<noteq> sock)"

lemma single_exec_numbered:
  assumes "chat_stages cs" "n < 2 ^ 31 - 1" "count_free sock n s"
  shows "single_do_exec w sock (show_line (cs @ [nat_str n])) s =
    bind_res (stages (single_parser w sock False False (int sock)) sock 0 True 2 cs
        (s\<lparr>slots := (slots s)[pos s := (slots s ! pos s)\<lparr>pipe_count := int n + 1, pipe_owner := sock\<rparr>]\<rparr>))
      (\<lambda>s'. Inr (Goes_On (prompt sock s')))"
proof -
  have l: "stage_list cs" using assms(1) by (simp add: chat_stages_def)
  then have h: "hd (cs @ [nat_str n]) = hd cs" "hd (hd cs) \<noteq> CHR '' ''" by (auto simp: stage_list_def)
  have "\<not> error_mark (nat_str n)" using stage_text_nat [of n] by (simp add: stage_text_def no_error_mark)
  moreover have "same_slot 2047 sock (int n + 1) s = None"
    using assms(3) by (simp add: same_slot_def count_free_def find_None_iff)
  then have "plan_number 2047 sock (int n) s = Inr ((2, None), s\<lparr>slots := (slots s)[pos s :=
      (slots s ! pos s)\<lparr>pipe_count := int n + 1, pipe_owner := sock\<rparr>]\<rparr>)"
    using assms(2) by (simp add: plan_number_def)
  ultimately show ?thesis
    using numbered_pieces [OF l, of n] h assms(2) redirected_plain [OF chat_stages_text(3,4) [OF assms(1)]]
      single_commands_stages [OF assms(1)]
    by (simp add: single_do_exec_def)
qed

lemma single_stages_table:
  "stages (single_parser w sock waiting err out) own input first gi cs s = Inr s' \<Longrightarrow> cs \<noteq> [] \<Longrightarrow>
     \<exists>i u. keeps_table (if gi \<in> {2, 4} then store_slot i u (round_turned own first s)
       else round_turned own first s) s'"
  by (erule stages_table [rotated]) (auto dest: single_parser_keeps(2))

text \<open>A call of \<open>parser\<close> on a stage without pipes from and to users.\<close>

lemma path_of_same:
  "clients_env c' = clients_env c \<Longrightarrow> find_client sock c' = find_client sock c \<Longrightarrow> path_of sock c' = path_of sock c"
  by (cases "find_client sock c") (simp_all add: path_of_def do_printenv_def)

lemma split_env_PATH: "split_env ''bin:.'' = Inr [''bin'', ''.'']"
  by (simp add: split_env_def split_at_def tokens_eval)

lemma single_parser_runs:
  assumes "CHR ''<'' \<notin> set c" "CHR ''>'' \<notin> set c" "split_space c = Inr ops"
    and "path_of sock (chat_of s) = Inr (Some ''bin:.'')"
    and "np_pipe w s = Inr ((r, wr), s1)" "np_forks w (np_pipes s)"
  shows "single_parser w sock waiting err out input first final enter gi c s =
    Inr (copied (np_heap w (np_pipes s)) r,
      s1\<lparr>np_fds := (if input \<noteq> 0 then close_int input (np_fds s1) else np_fds s1),
         kids := kids s @ [single_kid w sock (chat_of s) c first final gi enter err input out (r, wr) ops [''bin'', ''.''] (np_fds s1)],
         waits := waits s @ (if waiting \<and> final then [(Some (length (kids s)), np_fds s1)] else [])\<rparr>)"
  using start_command_runs [OF assms(3,4) split_env_PATH assms(5,6)] assms(6)
  by (simp add: single_parser_def no_user_pipes assms(1,2) shut_def Let_def)

lemma single_parser_succeeds:
  assumes "CHR ''<'' \<notin> set c" "CHR ''>'' \<notin> set c" "split_space c = Inr ops"
    and "path_of sock (chat_of s) = Inr (Some ''bin:.'')" "length (np_fds s) + 2 \<le> np_limit w"
  shows "\<exists>d s'. single_parser w sock waiting err out input first final enter gi c s = Inr (d, s')
    \<and> chat_of s' = chat_of s \<and> length (np_fds s') \<le> length (np_fds s) + 2 \<and> np_pipes s' = Suc (np_pipes s)"
proof -
  obtain r wr t where "np_pipe w s = Inr ((r, wr), s\<lparr>np_fds := t, np_pipes := Suc (np_pipes s)\<rparr>)"
    "length t \<le> length (np_fds s) + 2"
    using np_pipe_works [OF assms(5)] by blast
  then show ?thesis
    using assms(3,4) split_env_PATH
    by (simp add: single_parser_def start_command_def no_user_pipes assms(1,2) shut_def Let_def)
qed

lemma single_stages_run:
  assumes "chat_stages cs" "\<forall>c \<in> set cs. \<exists>v. split_space c = Inr v" "path_of sock (chat_of s) = Inr (Some ''bin:.'')"
    and "length (np_fds s) + 2 * length cs \<le> np_limit w"
  shows "\<exists>s'. stages (single_parser w sock waiting err out) own input first gi cs s = Inr s'
    \<and> np_pipes s' = np_pipes s + length cs"
proof (rule stages_run [where P = "\<lambda>t. path_of sock (chat_of t) = Inr (Some ''bin:.'')", OF _ _ _ _ assms(3,4)])
  fix i f l e g c and t :: single
  assume "c \<in> set cs" "path_of sock (chat_of t) = Inr (Some ''bin:.'')" "length (np_fds t) + 2 \<le> np_limit w"
  then show "\<exists>d t'. single_parser w sock waiting err out i f l e g c t = Inr (d, t')
      \<and> path_of sock (chat_of t') = Inr (Some ''bin:.'')
      \<and> length (np_fds t') \<le> length (np_fds t) + 2 \<and> np_pipes t' = Suc (np_pipes t)"
    using assms(1,2) single_parser_succeeds [of c _ sock t w] unfolding chat_stages_def by fastforce
qed (simp_all add: shut_def turned_def store_slot_def)

lemma single_line_runs:
  assumes "chat_stages cs" "\<forall>c \<in> set cs. \<exists>v. split_space c = Inr v" "path_of sock (chat_of s) = Inr (Some ''bin:.'')"
    and "length (np_fds s) + 2 * length cs \<le> np_limit w"
  shows "\<exists>s'. single_do_exec w sock (show_line cs) s = Inr (Goes_On s')"
    and "n < 2 ^ 31 - 1 \<Longrightarrow> count_free sock n s \<Longrightarrow>
      \<exists>s'. single_do_exec w sock (show_line (cs @ [nat_str n])) s = Inr (Goes_On s')"
proof -
  show "\<exists>s'. single_do_exec w sock (show_line cs) s = Inr (Goes_On s')"
    using single_stages_run [OF assms, of True False "int sock" sock 0 True 0] single_exec_stages [OF assms(1)] by auto
  assume n: "n < 2 ^ 31 - 1" "count_free sock n s"
  let ?t = "s\<lparr>slots := (slots s)[pos s := (slots s ! pos s)\<lparr>pipe_count := int n + 1, pipe_owner := sock\<rparr>]\<rparr>"
  have "path_of sock (chat_of ?t) = Inr (Some ''bin:.'')" "length (np_fds ?t) + 2 * length cs \<le> np_limit w"
    using assms(3,4) by simp_all
  from single_stages_run [OF assms(1,2) this, of False False "int sock" sock 0 True 2]
  show "\<exists>s'. single_do_exec w sock (show_line (cs @ [nat_str n])) s = Inr (Goes_On s')"
    using single_exec_numbered [OF assms(1) n, of w] by auto
qed

lemma prompt_fields [simp]:
  "slots (prompt sock s) = slots s" "pos (prompt sock s) = pos s" "kids (prompt sock s) = kids s"
  "np_fds (prompt sock s) = np_fds s" "np_pipes (prompt sock s) = np_pipes s" "waits (prompt sock s) = waits s"
  "pipe_at own (prompt sock s) k = pipe_at own s k" "user_pipe_fd (prompt sock s) = user_pipe_fd s"
  "chat_of (prompt sock s) = say sock ''% '' (chat_of s)"
  by (simp_all add: prompt_def pipe_at_def)

section \<open>Properties\<close>


lemma chat_init_facts:
  "table_ok chat_init" "holder_of chat_init = (\<lambda>j. 0)" "one_each (\<lambda>j. 0)"
  "clients_env chat_init ! 0 = env_init" "clients_env chat_init ! 1 = env_init" "length (clients_env chat_init) = 60"
  "clients_env chat_init ! 2 = env_init"
  by (auto simp: table_ok_def chat_init_def holder_of_def one_each_def fun_eq_iff)

text \<open>The first user, who gets descriptor 4 and the first place.\<close>

lemma first_user:
  "\<exists>s c. single_login zero_kernel ''1.2.3.4'' 5 single_init = Inr (4, s)
     \<and> s = single_init\<lparr>np_fds := [Some (Std 0), Some (Std 1), Some (Std 2), Some (Sock 3), Some (Sock 4)], chat_of := c\<rparr>
     \<and> find_client 4 c = Some 0 \<and> clients_env c ! 0 = path_env \<and> single_step zero_kernel single_init s
     \<and> (\<forall>i j. \<not> user_pipe_flag c i j) \<and> table_ok c \<and> holder_of c = (\<lambda>j. 0)(0 := 4)
     \<and> clients_env c ! 1 = env_init \<and> clients_env c ! 2 = env_init"
proof -
  obtain c where c: "login 4 ''1.2.3.4'' 5 chat_init = Inr c" "find_client 4 c = Some 0" "clients_env c ! 0 = path_env"
    "table_ok c" "holder_of c = (\<lambda>j. 0)(0 := 4)" "clients_env c ! 1 = env_init" "clients_env c ! 2 = env_init"
    using login_unused [of chat_init 4 0 "''1.2.3.4''" 5] chat_init_facts by auto
  let ?s = "single_init\<lparr>np_fds := [Some (Std 0), Some (Std 1), Some (Std 2), Some (Sock 3), Some (Sock 4)], chat_of := c\<rparr>"
  have "lowest_free (np_fds single_init) = 4" by (simp add: single_init_def eval_nat_numeral)
  moreover have "fd_put (np_fds single_init) 4 (Sock 4)
      = [Some (Std 0), Some (Std 1), Some (Std 2), Some (Sock 3), Some (Sock 4)]"
    by (simp add: single_init_def fd_put_def eval_nat_numeral)
  moreover have "chat_of single_init = chat_init" by (simp add: single_init_def)
  ultimately have log: "single_login zero_kernel ''1.2.3.4'' 5 single_init = Inr (4, ?s)"
    using c(1) by (simp add: single_login_def zero_kernel_def)
  have "single_step zero_kernel single_init ?s"
    by (rule single_step.connects [OF log]) (simp_all add: single_init_def chat_init_facts)
  moreover have "\<forall>i j. \<not> user_pipe_flag c i j" using login_flags [OF c(1)] by (simp add: chat_init_def)
  ultimately show ?thesis using log c(2-7) by blast
qed



lemma ls_stages: "chat_stages [''ls'']" "split_space ''ls'' = Inr [''ls'']"
  by (simp_all add: chat_stages_def stage_list_def stage_text_def builtin_of_def contains_def
      split_space_def split_at_def tokens_eval)

lemma first_user_facts:
  assumes "s = single_init\<lparr>np_fds := [Some (Std 0), Some (Std 1), Some (Std 2), Some (Sock 3), Some (Sock 4)], chat_of := c\<rparr>"
    and "find_client 4 c = Some 0" "clients_env c ! 0 = path_env"
  shows "path_of 4 (chat_of s) = Inr (Some ''bin:.'')" "table_sized s" "pos s = 0" "length (np_fds s) = 5"
    "\<forall>j < 2048. slots s ! j = slot_init" "count_free 4 n s" "kids s = []" "np_pipes s = 0" "due_slot 4 s = None"
  using assms
  by (simp_all add: path_of_def do_printenv_def single_init_def table_sized_def count_free_def slot_init_def
      due_slot_def find_rev_None)


end
