(* ===== verification/Np_Single_Pipes.thy ===== *)
theory Np_Single_Pipes
  imports Np_Single
begin

text \<open>
  What the lines of \<open>np_single_proc.cpp\<close> with pipes between users do, where the whole of \<open>do_exec\<close> and the
  built-in commands of \<open>Np_Chat\<close> agree, and lines that bring the server down.
\<close>

section \<open>Lines without pipes\<close>

lemma tokens_whole: "s \<noteq> [] \<Longrightarrow> d \<notin> set s \<Longrightarrow> tokens (is_delim d) s = [s]"
  using tokens_single [of s "is_delim d"] by (simp add: delim_facts)

lemma plain_pieces:
  assumes "cmd \<noteq> []" "CHR ''|'' \<notin> set cmd" "CHR ''!'' \<notin> set cmd"
  shows "split_pipe cmd = Inr [cmd]" "\<not> error_mark (last [cmd])" "pipe_number [cmd] = None"
  using assms by (simp_all add: split_pipe_def split_at_def tokens_whole no_error_mark pipe_number_def)

text \<open>A line of one piece goes through the pipes of users to the loop.\<close>

lemma single_exec_piece:
  assumes "cmd \<noteq> []" "hd cmd \<noteq> CHR '' ''" "CHR ''|'' \<notin> set cmd" "CHR ''!'' \<notin> set cmd"
  shows "single_do_exec w sock cmd s = single_redirected w sock cmd False 0 (int sock) [cmd] s"
  using plain_pieces [OF assms(1,3,4)] assms(2) by (simp add: single_do_exec_def)

text \<open>
  On a line without pipes, redirections and \<open>!\<close>, \<open>do_exec\<close> as a whole is the \<open>chat_line\<close> of the chat:
  the same replies, faults and logouts; only a line that is not a built-in command goes on to
  \<open>parser\<close>, as one stage.
\<close>

theorem plain_line_is_chat:
  assumes "plain_line cmd"
  shows "single_do_exec w sock cmd s =
    bind_res (chat_line sock cmd (chat_of s)) (\<lambda>r. case r of
      Stay c \<Rightarrow> Inr (Goes_On (s\<lparr>chat_of := c\<rparr>))
    | Logged_Out c \<Rightarrow> Inr (Exits (shut (int sock) (s\<lparr>chat_of := c\<rparr>)))
    | Elsewhere \<Rightarrow> bind_res (stages (single_parser w sock True False (int sock)) sock 0 True 0 [cmd] s)
                    (\<lambda>s'. Inr (Goes_On (prompt sock s'))))"
proof (cases "cmd = [] \<or> hd cmd = CHR '' ''")
  case True
  have "\<exists>files. split_pipe cmd = Inr files \<and> (files = [] \<or> hd (hd files) = CHR '' '')"
  proof (cases "cmd = []")
    case True
    then show ?thesis by (simp add: split_pipe_def split_at_def)
  next
    case False
    then show ?thesis using True assms plain_pieces(1) [of cmd] by (auto simp: plain_line_def)
  qed
  moreover have "chat_line sock cmd (chat_of s) = Inr (Stay (say sock ''% '' (chat_of s)))"
    using True by (simp add: chat_line_def stay_def)
  ultimately show ?thesis by (auto simp: single_do_exec_def prompt_def on_chat_def)
next
  case False
  have c: "CHR ''|'' \<notin> set cmd" "CHR ''!'' \<notin> set cmd" "CHR ''<'' \<notin> set cmd" "CHR ''>'' \<notin> set cmd"
    using assms by (auto simp: plain_line_def)
  have "single_do_exec w sock cmd s = single_commands w sock False 0 (int sock) 0 [cmd] s"
    using False c single_exec_piece [of cmd w sock s] redirected_plain [OF c(3,4)] by simp
  moreover have "chat_line sock cmd (chat_of s) = run_builtin sock cmd (chat_of s)"
    using False assms by (simp add: chat_line_def)
  ultimately show ?thesis
    by (cases "run_builtin sock cmd (chat_of s)") (auto simp: single_commands_def split: outcome.split)
qed

theorem plain_line_is_chat_witness:
  "single_do_exec zero_kernel 4 ''exit'' single_init =
     bind_res (chat_line 4 ''exit'' chat_init) (\<lambda>r. case r of
       Logged_Out c \<Rightarrow> Inr (Exits (shut 4 (single_init\<lparr>chat_of := c\<rparr>))) | _ \<Rightarrow> Inl Null_Pointer)"
proof -
  have "plain_line ''exit''" by (simp add: plain_line_def)
  moreover have "builtin_of ''exit'' = Exit" by (simp add: builtin_of_def contains_def)
  then have "chat_line 4 ''exit'' chat_init = bind_res (logout 4 chat_init) (\<lambda>s'. Inr (Logged_Out s'))"
    by (simp add: chat_line_def plain_line_def run_builtin_def)
  moreover have "chat_of single_init = chat_init" by (simp add: single_init_def)
  ultimately show ?thesis
    using plain_line_is_chat [of "''exit''" zero_kernel 4 single_init] by (cases "logout 4 chat_init") auto
qed

section \<open>Lines that bring the server down\<close>

text \<open>
  C21. Any user can bring the server down with one line: when a line ends in its first \<open><\<close> or in its
  first \<open>>\<close>, also in the text of a message, \<open>do_exec\<close> converts the null pointer that \<open>strtok\<close> gives
  there to a number, in the process that serves everybody.
\<close>

theorem arrow_at_end_crashes:
  assumes "a \<noteq> []" "hd a \<noteq> CHR '' ''" "set a \<inter> set ''|!<>'' = {}"
  shows "single_do_exec w sock (a @ ''<'') s = Inl Null_Pointer \<and> single_do_exec w sock (a @ ''>'') s = Inl Null_Pointer"
proof -
  have tok: "tokens (is_delim d) (a @ [d]) = [a]" if "d \<notin> set a" for d
    using tokens_first [of a "is_delim d" d "[]"] that assms(1) by (simp add: delim_facts)
  have "user_number d (a @ [d]) = Inl Null_Pointer" if "d \<notin> set a" for d
    using tok [OF that] by (simp add: user_number_def)
  then have num: "user_number CHR ''<'' (a @ ''<'') = Inl Null_Pointer" "user_number CHR ''>'' (a @ ''>'') = Inl Null_Pointer"
    using assms(3) by auto
  have piece: "a @ [d] \<noteq> []" "hd (a @ [d]) \<noteq> CHR '' ''" for d using assms(1,2) by simp_all
  have "single_do_exec w sock (a @ ''<'') s = Inl Null_Pointer"
    using single_exec_piece [OF piece, of "CHR ''<''" w sock s] assms(3) num(1)
    by (auto simp: single_redirected_def receive_pipe_def from_user_def Let_def)
  moreover have "strchr CHR ''>'' (a @ ''>'') = ''>''"
    using assms(3) by (simp add: strchr_def dropWhile_append3 disjoint_iff)
  then have "to_user (a @ ''>'')" by (simp add: to_user_def to_file_def)
  then have "single_do_exec w sock (a @ ''>'') s = Inl Null_Pointer"
    using single_exec_piece [OF piece, of "CHR ''>''" w sock s] assms(3) num(2)
    by (auto simp: single_redirected_def send_pipe_def receive_pipe_def from_user_def Let_def)
  ultimately show ?thesis ..
qed

theorem arrow_at_end_crashes_witness:
  "single_input zero_kernel 4 (''yell see you :>'' @ [newline]) single_init = Inl Null_Pointer"
proof -
  have "single_do_exec zero_kernel 4 (''yell see you :'' @ ''>'') single_init = Inl Null_Pointer"
    using arrow_at_end_crashes [of "''yell see you :''" zero_kernel 4 single_init] by simp
  then show ?thesis by (simp add: single_input_def newline_def nul_def)
qed

section \<open>The child of a line with a pipe from a user\<close>

text \<open>The cut leaves a null pointer in the operands, the second cut runs into it.\<close>

lemma cut_at_again: "cut_at c (map Some ops @ [None]) = Inr ops' \<Longrightarrow> cut_at c ops' = Inl Null_Pointer"
  by (induction ops arbitrary: ops') (auto simp: bind_res_Inr_iff split: if_splits)

lemma cut_at_none: "\<forall>x \<in> set ops. c \<notin> set x \<Longrightarrow> cut_at c (map Some ops @ rest) =
    bind_res (cut_at c rest) (\<lambda>r. Inr (map Some ops @ r))"
  by (induction ops) (auto simp: bind_res_def split: sum.split)

lemma cut_at_between:
  "cut_at c (map Some ops @ [None]) = Inr ops' \<Longrightarrow> cut_at d ops' = Inr ops'' \<Longrightarrow> cut_at c ops'' = Inl Null_Pointer"
proof (induction ops arbitrary: ops' ops'')
  case (Cons x ops)
  show ?case
  proof (cases "c \<in> set x")
    case True
    then show ?thesis using Cons.prems by auto
  next
    case False
    then obtain r where r: "cut_at c (map Some ops @ [None]) = Inr r" "ops' = Some x # r"
      using Cons.prems(1) by (auto simp: bind_res_Inr_iff)
    show ?thesis
    proof (cases "d \<in> set x")
      case True
      then have "ops'' = None # r" using Cons.prems(2) r(2) by simp
      then show ?thesis by simp
    next
      case dx: False
      then obtain q where "cut_at d r = Inr q" "ops'' = Some x # q"
        using Cons.prems(2) r(2) by (auto simp: bind_res_Inr_iff)
      then show ?thesis using Cons.IH [OF r(1)] False by simp
    qed
  qed
qed simp

lemma reader_kid_dies:
  assumes "from_user cmd" "\<not> input_first cmd"
  shows "\<exists>e. single_kid w sock c cmd first final gi enter err input out pipefd ops dirs t = Dies e
    \<and> (CHR ''>'' \<notin> set cmd \<longrightarrow> e = Null_Pointer)"
proof -
  let ?t = "single_wire sock first final gi enter err input out (snd pipefd) t"
  let ?ops = "map Some ops @ [None]"
  have child: "child_input cmd (os, t') = bind_res (cut_at CHR ''<'' os) (\<lambda>os'. Inr (os', t'))" for os t'
    using assms by (simp add: child_input_def)
  let ?run = "bind_res (child_input cmd (?ops, ?t)) (\<lambda>a. bind_res (child_output w sock cmd c (snd pipefd) a) (child_input cmd))"
  have "\<exists>e. ?run = Inl e \<and> (CHR ''>'' \<notin> set cmd \<longrightarrow> e = Null_Pointer)"
  proof (cases "cut_at CHR ''<'' ?ops")
    case (Inl e)
    have "e = Null_Pointer" using Inl
      by (induction ops) (auto simp: bind_res_def split: sum.splits if_splits)
    then show ?thesis using Inl by (simp add: child)
  next
    case (Inr ops1)
    then have one: "?run = bind_res (child_output w sock cmd c (snd pipefd) (ops1, ?t)) (child_input cmd)" by (simp add: child)
    show ?thesis
    proof (cases "child_output w sock cmd c (snd pipefd) (ops1, ?t)")
      case out: (Inr p)
      obtain ops2 t2 where p: "p = (ops2, t2)" by (cases p)
      have "ops2 = ops1 \<or> cut_at CHR ''>'' ops1 = Inr ops2"
        using out p by (auto simp: child_output_def bind_res_Inr_iff split: if_splits)
      then have "cut_at CHR ''<'' ops2 = Inl Null_Pointer"
        using cut_at_again [OF Inr] cut_at_between [OF Inr] by auto
      then have "?run = Inl Null_Pointer" using one out p child [of ops2 t2] by simp
      then show ?thesis by blast
    next
      case (Inl e)
      then have "?run = Inl e" using one by simp
      moreover have "CHR ''>'' \<in> set cmd" using Inl by (simp add: child_output_def split: if_splits)
      ultimately show ?thesis by blast
    qed
  qed
  then obtain e where "?run = Inl e" "CHR ''>'' \<notin> set cmd \<longrightarrow> e = Null_Pointer" by blast
  then show ?thesis by (simp add: single_kid_def)
qed

text \<open>
  No program ever reads a pipe from another user: whatever the line, the operands and the state, a child
  whose command has a \<open><\<close> dies before it executes anything, unless a pipe to a user stands
  behind the \<open><\<close>. Without a \<open>>\<close> it dies of a null pointer, because the block that removes the operand is in the
  program twice.
\<close>

theorem user_pipe_reader_dies:
  assumes "from_user cmd" "\<not> input_first cmd"
  shows "\<exists>e. single_kid w sock c cmd first final gi enter err input out pipefd ops dirs t = Dies e
    \<and> (CHR ''>'' \<notin> set cmd \<longrightarrow> e = Null_Pointer)"
  by (rule reader_kid_dies [OF assms])

theorem user_pipe_reader_dies_witness:
  "single_kid zero_kernel 5 chat_init ''cat <1'' True True 0 False False 6 5 (7, 8) [''cat'', ''<1''] [''bin''] [] = Dies Null_Pointer"
proof -
  have "from_user ''cat <1''" "\<not> input_first ''cat <1''"
    by (simp_all add: from_user_def input_first_def to_user_def)
  from user_pipe_reader_dies [OF this] show ?thesis by fastforce
qed

section \<open>Pipes between users\<close>

text \<open>A single program.\<close>

lemma commands_piece:
  assumes "builtin_of cmd = External" "due_slot sock s = None"
  shows "single_commands w sock False 0 (int sock) i [cmd] s =
    bind_res (single_parser w sock True False (int sock) i True True False 0 cmd (turned sock s))
      (\<lambda>((d0, d1), s'). Inr (Goes_On (prompt sock (shut d1 s'))))"
proof -
  have "stages (single_parser w sock True False (int sock)) sock i True 0 [cmd] s =
      bind_res (single_parser w sock True False (int sock) i True True False 0 cmd (turned sock s))
        (\<lambda>((d0, d1), s'). Inr (shut d1 s'))"
    using assms(2) by (simp add: stages.simps turned_def)
  then show ?thesis
    using assms(1) by (simp add: single_commands_def run_builtin_def bind_res_def split: sum.split prod.split)
qed

lemma due_slot_same: "slots s' = slots s \<Longrightarrow> due_slot own s' = due_slot own s"
  by (simp add: due_slot_def)

lemma chat_of_turned [simp]: "chat_of (turned own s) = chat_of s" "user_pipe_fd (turned own s) = user_pipe_fd s"
  "user_pipe_fd (shut k s) = user_pipe_fd s"
  by (simp_all add: turned_def shut_def)

text \<open>
  The situation of a line with a pipe to or from a user: a program that is found in \<open>bin\<close> or \<open>.\<close>, no
  other redirection, standard input, output and errors open, and enough descriptors.
\<close>

definition lone_line :: "np_kernel \<Rightarrow> nat \<Rightarrow> string \<Rightarrow> single \<Rightarrow> bool" where
  "lone_line w sock cmd s \<longleftrightarrow> cmd \<noteq> [] \<and> hd cmd \<noteq> CHR '' '' \<and> CHR ''|'' \<notin> set cmd \<and> CHR ''!'' \<notin> set cmd
     \<and> builtin_of cmd = External \<and> due_slot sock s = None
     \<and> path_of sock (chat_of s) = Inr (Some ''bin:.'') \<and> np_forks w (np_pipes s)
     \<and> np_heap w (np_pipes s) = (0, 0) \<and> np_limit w \<le> 65536 \<and> length (np_fds s) + 2 \<le> np_limit w
     \<and> (\<forall>k < 3. fd_get (np_fds s) k \<noteq> None)"

text \<open>The situation in the chat: the user at place \<open>i\<close> and the user with number \<open>n\<close>, who is in.\<close>

lemma known_user_nat: "known_user (int n) c \<Longrightarrow> 0 < n \<and> n \<le> 30"
  by (simp add: known_user_def)

lemma send_pipe_new:
  assumes "to_user cmd" "user_number CHR ''>'' cmd = Inr (int n)" "known_user (int n) (chat_of s)"
    and "find_client sock (chat_of s) = Some i" "i < 30" "\<not> user_pipe_flag (chat_of s) (i + 1) n"
  shows "send_pipe sock cmd s = Inr (True, on_chat (broadcast (users (chat_of s)) (piped_line (i + 1) n cmd (chat_of s))) s)"
  using assms known_user_nat [OF assms(3)] by (simp add: send_pipe_def own_id_def pipe_flag_def Let_def)

lemma mark_output_new:
  assumes "to_user cmd" "user_number CHR ''>'' cmd = Inr (int n)" "known_user (int n) (chat_of s)"
    and "find_client sock (chat_of s) = Some i" "i < 30" "\<not> user_pipe_flag (chat_of s) (i + 1) n"
  shows "mark_output sock cmd rd s = Inr (s\<lparr>chat_of := set_flag (i + 1) n True (chat_of s),
    user_pipe_fd := (user_pipe_fd s)(i + 1 := (user_pipe_fd s (i + 1))(n := int rd))\<rparr>)"
  using assms known_user_nat [OF assms(3)] by (simp add: mark_output_def own_id_def pipe_flag_def Let_def)

text \<open>The child of a line that only sends.\<close>

lemma takeWhile_Some: "takeWhile (\<lambda>x. x \<noteq> None) (map Some xs @ None # ys) = map Some xs"
  by (induction xs) simp_all

lemma map_the_Some: "map the (map Some xs) = xs"
  by (induction xs) simp_all

lemma single_exec_args:
  assumes "length prog < 16"
  shows "single_exec (map Some (prog # args) @ None # rest) [''bin'', ''.''] t =
    Runs \<lparr>ch_argv = prog # args, ch_paths = [''bin/'' @ prog, ''./'' @ prog], ch_fds = t\<rparr>"
  using assms takeWhile_Some [of "prog # args" rest] map_the_Some [of args] by (simp add: single_exec_def)

lemma sender_kid:
  assumes "to_user cmd" "\<not> from_user cmd" "user_number CHR ''>'' cmd = Inr (int n)" "known_user (int n) c"
    and "find_client sock c = Some i" "i < 30" "\<not> user_pipe_flag c (i + 1) n"
    and "\<forall>x \<in> set (prog # args). CHR ''>'' \<notin> set x" "CHR ''>'' \<in> set x" "length prog < 16"
  shows "single_kid w sock c cmd first final gi enter err input out pipefd ((prog # args) @ x # rest) [''bin'', ''.''] t =
    Runs \<lparr>ch_argv = prog # args, ch_paths = [''bin/'' @ prog, ''./'' @ prog],
      ch_fds = dup2 (snd pipefd) 1 (single_wire sock first final gi enter err input out (snd pipefd) t)\<rparr>"
proof -
  let ?t = "single_wire sock first final gi enter err input out (snd pipefd) t"
  let ?ops = "map Some ((prog # args) @ x # rest) @ [None]"
  let ?cut = "map Some (prog # args) @ None # map Some rest @ [None]"
  have "cut_at CHR ''>'' ?ops = Inr ?cut"
    using cut_at_none [OF assms(8), of "map Some (x # rest) @ [None]"] assms(9) by simp
  then have "child_output w sock cmd c (snd pipefd) (?ops, ?t) = Inr (?cut, dup2 (snd pipefd) 1 ?t)"
    using assms(1,3-7) known_user_nat [OF assms(4)]
    by (simp only: child_output_def to_user_def own_id_def pipe_flag_def prod.case if_True if_False not_False_eq_True
        bind_res_simps option.case) simp
  moreover have "child_input cmd a = Inr a" for a using assms(2) by (cases a) (simp add: child_input_def)
  ultimately show ?thesis
    unfolding single_kid_def Let_def using single_exec_args [OF assms(10)] by (simp only: bind_res_simps sum.case prod.case)
qed

lemma single_wire_other: "2 < k \<Longrightarrow> fd_get (single_wire sock first final gi enter err input out wr t) k = fd_get t k"
  unfolding single_wire_def Let_def by (simp add: fd_get_dup2_other fd_get_dup2_int_other)

text \<open>The call of \<open>parser\<close> on a line of one program, up to what the parent notes.\<close>

lemma lone_start:
  assumes "lone_line w sock cmd s" "split_space cmd = Inr ops" "np_fds s1 = np_fds s" "np_pipes s1 = np_pipes s"
    and "kids s1 = kids s" "path_of sock c = Inr (Some ''bin:.'')"
  shows "\<exists>r wr t. start_command w (path_of sock c) kid False 0 cmd s1 = Inr ((r, (int r, 0)),
       (s1 :: single)\<lparr>np_fds := t, np_pipes := Suc (np_pipes s), kids := kids s @ [kid (r, wr) ops [''bin'', ''.''] t]\<rparr>)
     \<and> t = fd_put (fd_put (np_fds s) r (Pipe_Read (np_pipes s))) wr (Pipe_Write (np_pipes s))
     \<and> fd_get (np_fds s) r = None \<and> fd_get (np_fds s) wr = None \<and> wr \<noteq> r \<and> 2 < r \<and> 2 < wr"
proof -
  have l: "length (np_fds s) + 2 \<le> np_limit w" "np_forks w (np_pipes s)" "np_heap w (np_pipes s) = (0, 0)"
    "np_limit w \<le> 65536" "\<forall>k < 3. fd_get (np_fds s) k \<noteq> None"
    using assms(1) unfolding lone_line_def by blast+
  obtain r wr t where p: "np_pipe w s1 = Inr ((r, wr), s1\<lparr>np_fds := t, np_pipes := Suc (np_pipes s1)\<rparr>)"
    using np_pipe_works [of s1 w] l(1) assms(3) by auto
  note e = np_pipe_ends [OF p]
  have t: "t = fd_put (fd_put (np_fds s) r (Pipe_Read (np_pipes s))) wr (Pipe_Write (np_pipes s))"
    using e(1) assms(3,4) by simp
  have std: "\<not> r < 3" "\<not> wr < 3" using e(2,3) assms(3) l(5) by auto
  have "r < 65536" using e(6,7) l(4) by simp
  then have "copied (np_heap w (np_pipes s)) r = (int r, 0)" using l(3) by (simp add: copied_zero)
  then have "start_command w (path_of sock c) kid False 0 cmd s1 = Inr ((r, (int r, 0)),
       s1\<lparr>np_fds := t, np_pipes := Suc (np_pipes s), kids := kids s @ [kid (r, wr) ops [''bin'', ''.''] t]\<rparr>)"
    using start_command_runs [OF assms(2,6) split_env_PATH p, of kid False 0] l(2) assms(4,5) by simp
  then show ?thesis using t e(2-4) assms(3) std by (intro exI [of _ r] exI [of _ wr] exI [of _ t]) simp
qed

lemma broadcast_fields [simp]:
  "clients_env (broadcast ids m c) = clients_env c" "find_client fd (broadcast ids m c) = find_client fd c"
  "clients_fd_set (broadcast ids m c) = clients_fd_set c" "user_pipe_flag (broadcast ids m c) = user_pipe_flag c"
  "known_user k (broadcast ids m c) = known_user k c"
  "outbox (broadcast ids m c) = outbox c @ map (\<lambda>i. (clients_fd_set c ! i, m)) ids"
  by (simp_all add: broadcast_box known_user_def find_client_def)

lemma set_flag_fields [simp]:
  "clients_env (set_flag i j b c) = clients_env c" "find_client fd (set_flag i j b c) = find_client fd c"
  "clients_fd_set (set_flag i j b c) = clients_fd_set c" "outbox (set_flag i j b c) = outbox c"
  "known_user k (set_flag i j b c) = known_user k c"
  "user_pipe_flag (set_flag i j b c) a d = (if a = i \<and> d = j then b else user_pipe_flag c a d)"
  by (simp_all add: set_flag_def known_user_def find_client_def)

lemma path_fields [simp]:
  "path_of fd (broadcast ids m c) = path_of fd c" "path_of fd (set_flag i j b c) = path_of fd c"
  by (rule path_of_same; simp)+

text \<open>
  C19. A line \<open>program >n\<close> sends to user \<open>n\<close>: the program runs without the operand and writes to a new
  pipe, whose reading end, open in the server, is the one that the table of user pipes gives for
  the two users; every user is told once.
\<close>

theorem user_pipe_sent:
  assumes "lone_line w sock cmd s" "to_user cmd" "\<not> from_user cmd" "user_number CHR ''>'' cmd = Inr (int n)"
    and "split_space cmd = Inr ((prog # args) @ x # rest)" "\<forall>y \<in> set (prog # args). CHR ''>'' \<notin> set y"
    and "CHR ''>'' \<in> set x" "length prog < 16"
    and "known_user (int n) (chat_of s)" "find_client sock (chat_of s) = Some i" "i < 30"
    and "\<not> user_pipe_flag (chat_of s) (i + 1) n"
  shows "\<exists>s' k r. single_do_exec w sock cmd s = Inr (Goes_On s') \<and> kids s' = kids s @ [Runs k]
    \<and> ch_argv k = prog # args \<and> fd_get (ch_fds k) 1 = Some (Pipe_Write (np_pipes s))
    \<and> user_pipe_flag (chat_of s') (i + 1) n \<and> user_pipe_fd s' (i + 1) n = int r
    \<and> fd_get (np_fds s') r = Some (Pipe_Read (np_pipes s))
    \<and> outbox (chat_of s') = outbox (chat_of s)
        @ map (\<lambda>j. (clients_fd_set (chat_of s) ! j, piped_line (i + 1) n cmd (chat_of s))) (users (chat_of s)) @ [(sock, ''% '')]"
proof -
  let ?c = "broadcast (users (chat_of s)) (piped_line (i + 1) n cmd (chat_of s)) (chat_of s)"
  let ?s1 = "turned sock (on_chat (broadcast (users (chat_of s)) (piped_line (i + 1) n cmd (chat_of s))) s)"
  have l: "cmd \<noteq> []" "hd cmd \<noteq> CHR '' ''" "CHR ''|'' \<notin> set cmd" "CHR ''!'' \<notin> set cmd"
    "builtin_of cmd = External" "due_slot sock s = None" "path_of sock (chat_of s) = Inr (Some ''bin:.'')"
    using assms(1) unfolding lone_line_def by blast+
  have c: "chat_of ?s1 = ?c" by simp
  let ?kid = "single_kid w sock ?c cmd True True 0 False False 0 (int sock)"
  have "path_of sock ?c = Inr (Some ''bin:.'')" using l(7) by simp
  from lone_start [OF assms(1,5) _ _ _ this, of ?s1 ?kid] obtain r wr t where
    st: "start_command w (path_of sock ?c) ?kid False 0 cmd ?s1 = Inr ((r, (int r, 0)),
       ?s1\<lparr>np_fds := t, np_pipes := Suc (np_pipes s), kids := kids s @ [?kid (r, wr) ((prog # args) @ x # rest) [''bin'', ''.''] t]\<rparr>)"
    and t: "t = fd_put (fd_put (np_fds s) r (Pipe_Read (np_pipes s))) wr (Pipe_Write (np_pipes s))"
    and f: "wr \<noteq> r" "2 < r" "2 < wr" by auto
  have kid: "?kid (r, wr) ((prog # args) @ x # rest) [''bin'', ''.''] t = Runs \<lparr>ch_argv = prog # args,
      ch_paths = [''bin/'' @ prog, ''./'' @ prog],
      ch_fds = dup2 wr 1 (single_wire sock True True 0 False False 0 (int sock) wr t)\<rparr>" (is "_ = Runs ?k")
    using sender_kid [OF assms(2-4) _ _ assms(11) _ assms(6-8), of ?c sock] assms(9,10,12) by simp
  let ?s2 = "?s1\<lparr>np_fds := t, np_pipes := Suc (np_pipes s), kids := kids s @ [Runs ?k]\<rparr>"
  let ?s3 = "?s2\<lparr>chat_of := set_flag (i + 1) n True ?c,
    user_pipe_fd := (user_pipe_fd s)(i + 1 := (user_pipe_fd s (i + 1))(n := int r))\<rparr>"
  have "mark_output sock cmd r ?s2 = Inr ?s3"
    using mark_output_new [OF assms(2,4), of ?s2 sock i] assms(9-12) by simp
  moreover have "mark_input sock cmd ?s3 = Inr ?s3" using assms(3) by (simp add: mark_input_def)
  moreover have "np_forks w (np_pipes s)" using assms(1) unfolding lone_line_def by blast
  ultimately have parse: "single_parser w sock True False (int sock) 0 True True False 0 cmd ?s1
      = Inr ((int r, 0), ?s3\<lparr>waits := waits ?s3 @ [(Some (length (kids s)), t)]\<rparr>)" (is "_ = Inr (_, ?s4)")
    using st kid by (simp add: single_parser_def)
  have "receive_pipe sock cmd s = Inr (Some 0, s)" using assms(3) by (simp add: receive_pipe_def)
  then have run: "single_do_exec w sock cmd s = Inr (Goes_On (prompt sock (shut 0 ?s4)))"
    using single_exec_piece [OF l(1-4), of w sock s] send_pipe_new [OF assms(2,4,9-12)]
      commands_piece [OF l(5), of sock "on_chat (broadcast (users (chat_of s)) (piped_line (i + 1) n cmd (chat_of s))) s" w 0]
      due_slot_same [of "on_chat (broadcast (users (chat_of s)) (piped_line (i + 1) n cmd (chat_of s))) s" s sock] l(6) parse
    by (simp add: single_redirected_def)
  have "fd_get (ch_fds ?k) 1 = Some (Pipe_Write (np_pipes s))"
    using f(3) fd_get_dup2_open [of "single_wire sock True True 0 False False 0 (int sock) wr t" wr]
    by (simp add: single_wire_other t)
  moreover have "fd_get (close_fd 0 t) r = Some (Pipe_Read (np_pipes s))" using f by (simp add: t)
  ultimately show ?thesis
    using run by (intro exI [of _ "prompt sock (shut 0 ?s4)"] exI [of _ ?k] exI [of _ r]) simp
qed

text \<open>The first user sends the output of \<open>ls\<close> to itself.\<close>

lemma self_line:
  assumes "s = single_init\<lparr>np_fds := [Some (Std 0), Some (Std 1), Some (Std 2), Some (Sock 3), Some (Sock 4)], chat_of := c\<rparr>"
    and "find_client 4 c = Some 0" "clients_env c ! 0 = path_env"
  shows "cmd \<in> {''ls >1'', ''cat <1''} \<Longrightarrow> lone_line zero_kernel 4 cmd s" "known_user 1 c" "chat_of s = c"
proof -
  note f = first_user_facts [OF assms]
  have "fd_get (np_fds s) k \<noteq> None" if "k < 3" for k
    using that by (auto simp: assms(1) fd_get_def less_Suc_eq numeral_3_eq_3)
  moreover have "builtin_of ''ls >1'' = External" "builtin_of ''cat <1'' = External"
    by (simp_all add: builtin_of_def contains_def)
  ultimately show "cmd \<in> {''ls >1'', ''cat <1''} \<Longrightarrow> lone_line zero_kernel 4 cmd s"
    using f by (auto simp: lone_line_def zero_kernel_def)
  have "clients_fd_set c ! 0 = 4" using assms(2) by (auto simp: find_client_def find_Some_iff)
  then show "known_user 1 c" by (simp add: known_user_def)
  show "chat_of s = c" by (simp add: assms(1))
qed

lemma user_number_1: "user_number CHR ''>'' ''ls >1'' = Inr (int 1)" "user_number CHR ''<'' ''cat <1'' = Inr (int 1)"
proof -
  have one: "nat_str 1 = ''1''" by code_simp
  have "atoi ''1'' = int 1" using atoi_nat_str [of 1] one by simp
  then show "user_number CHR ''>'' ''ls >1'' = Inr (int 1)" "user_number CHR ''<'' ''cat <1'' = Inr (int 1)"
    by (simp_all add: user_number_def tokens_eval)
qed

theorem user_pipe_sent_witness:
  "\<exists>s s' k. single_step zero_kernel single_init s \<and> single_do_exec zero_kernel 4 ''ls >1'' s = Inr (Goes_On s')
    \<and> kids s' = [Runs k] \<and> ch_argv k = [''ls''] \<and> fd_get (ch_fds k) 1 = Some (Pipe_Write 0)
    \<and> user_pipe_flag (chat_of s') 1 1"
proof -
  obtain s c where s: "s = single_init\<lparr>np_fds := [Some (Std 0), Some (Std 1), Some (Std 2), Some (Sock 3), Some (Sock 4)], chat_of := c\<rparr>"
    "find_client 4 c = Some 0" "clients_env c ! 0 = path_env" "single_step zero_kernel single_init s"
    "\<forall>i j. \<not> user_pipe_flag c i j"
    using first_user by blast
  note l = self_line [OF s(1-3)] and f = first_user_facts(7,8) [OF s(1-3)]
  have words: "to_user ''ls >1''" "\<not> from_user ''ls >1''" "split_space ''ls >1'' = Inr ((''ls'' # []) @ ''>1'' # [])"
    by (simp_all add: to_user_def to_file_def strchr_def from_user_def split_space_def split_at_def tokens_eval)
  show ?thesis
    using user_pipe_sent [OF l(1) words(1,2) user_number_1(1) words(3)] l(2,3) s(2,4,5) f by fastforce
qed

text \<open>
  C20. But nothing arrives: the line \<open>program <n\<close> of the receiver tells everybody that it was received
  and takes the pipe out of the table, its child dies of a null pointer, and the server closes the
  reading end.
\<close>

theorem user_pipe_lost:
  assumes "lone_line w sock cmd s" "from_user cmd" "CHR ''>'' \<notin> set cmd" "user_number CHR ''<'' cmd = Inr (int n)"
    and "split_space cmd = Inr ops" "known_user (int n) (chat_of s)" "find_client sock (chat_of s) = Some i" "i < 30"
    and "user_pipe_flag (chat_of s) n (i + 1)" "user_pipe_fd s n (i + 1) = int q" "2 < q"
    and "fd_get (np_fds s) q = Some (Pipe_Read p)"
  shows "\<exists>s'. single_do_exec w sock cmd s = Inr (Goes_On s') \<and> kids s' = kids s @ [Dies Null_Pointer]
    \<and> \<not> user_pipe_flag (chat_of s') n (i + 1) \<and> fd_get (np_fds s') q = None
    \<and> outbox (chat_of s') = outbox (chat_of s)
        @ map (\<lambda>j. (clients_fd_set (chat_of s) ! j, received_line (i + 1) n cmd (chat_of s))) (users (chat_of s)) @ [(sock, ''% '')]"
proof -
  let ?c = "set_flag n (i + 1) False (broadcast (users (chat_of s)) (received_line (i + 1) n cmd (chat_of s)) (chat_of s))"
  let ?s0 = "on_chat (set_flag n (i + 1) False)
    (on_chat (broadcast (users (chat_of s)) (received_line (i + 1) n cmd (chat_of s))) s)"
  let ?s1 = "turned sock ?s0"
  have l: "cmd \<noteq> []" "hd cmd \<noteq> CHR '' ''" "CHR ''|'' \<notin> set cmd" "CHR ''!'' \<notin> set cmd"
    "builtin_of cmd = External" "due_slot sock s = None" "path_of sock (chat_of s) = Inr (Some ''bin:.'')"
    using assms(1) unfolding lone_line_def by blast+
  have recv: "receive_pipe sock cmd s = Inr (Some (int q), ?s0)"
    using assms(2,4,6-10) known_user_nat [OF assms(6)] by (simp add: receive_pipe_def own_id_def pipe_flag_def Let_def)
  have send: "send_pipe sock cmd ?s0 = Inr (True, ?s0)" using assms(3) by (simp add: send_pipe_def to_user_def Let_def)
  let ?kid = "single_kid w sock ?c cmd True True 0 False False (int q) (int sock)"
  have "path_of sock ?c = Inr (Some ''bin:.'')" using l(7) by simp
  from lone_start [OF assms(1,5) _ _ _ this, of ?s1 ?kid] obtain r wr t where
    st: "start_command w (path_of sock ?c) ?kid False 0 cmd ?s1 = Inr ((r, (int r, 0)),
       ?s1\<lparr>np_fds := t, np_pipes := Suc (np_pipes s), kids := kids s @ [?kid (r, wr) ops [''bin'', ''.''] t]\<rparr>)"
    by auto
  have "\<not> input_first cmd" using assms(3) by (simp add: input_first_def to_user_def)
  from reader_kid_dies [OF assms(2) this] assms(3)
  have kid: "?kid (r, wr) ops [''bin'', ''.''] t = Dies Null_Pointer" by blast
  let ?s2 = "?s1\<lparr>np_fds := t, np_pipes := Suc (np_pipes s), kids := kids s @ [Dies Null_Pointer]\<rparr>"
  have "mark_output sock cmd r ?s2 = Inr ?s2" using assms(3) by (simp add: mark_output_def to_user_def)
  moreover have "mark_input sock cmd ?s2 = Inr ?s2"
    using assms(2,4,6-8) known_user_nat [OF assms(6)]
    by (simp add: mark_input_def own_id_def pipe_flag_def Let_def)
  moreover have "np_forks w (np_pipes s)" using assms(1) unfolding lone_line_def by blast
  ultimately have parse: "single_parser w sock True False (int sock) (int q) True True False 0 cmd ?s1
      = Inr ((int r, 0), shut (int q) (?s2\<lparr>waits := waits ?s2 @ [(Some (length (kids s)), t)]\<rparr>))" (is "_ = Inr (_, ?s4)")
    using st kid assms(11) by (simp add: single_parser_def)
  have run: "single_do_exec w sock cmd s = Inr (Goes_On (prompt sock (shut 0 ?s4)))"
    using single_exec_piece [OF l(1-4), of w sock s] recv send commands_piece [OF l(5), of sock ?s0 w "int q"]
      due_slot_same [of ?s0 s sock] l(6) parse
    by (simp add: single_redirected_def)
  have "fd_get (np_fds (shut 0 ?s4)) q = None" by simp
  then show ?thesis using run by (intro exI [of _ "prompt sock (shut 0 ?s4)"]) simp
qed

theorem user_pipe_lost_witness:
  "\<exists>s s'. user_pipe_flag (chat_of s) 1 1 \<and> single_do_exec zero_kernel 4 ''cat <1'' s = Inr (Goes_On s')
    \<and> kids s' = kids s @ [Dies Null_Pointer] \<and> \<not> user_pipe_flag (chat_of s') 1 1"
proof -
  obtain s c where s: "s = single_init\<lparr>np_fds := [Some (Std 0), Some (Std 1), Some (Std 2), Some (Sock 3), Some (Sock 4)], chat_of := c\<rparr>"
    "find_client 4 c = Some 0" "clients_env c ! 0 = path_env"
    using first_user by blast
  note l = self_line [OF s(1-3)]
  define t where "t = s\<lparr>np_fds := np_fds s @ [Some (Pipe_Read 9)], chat_of := set_flag 1 1 True c, user_pipe_fd := (\<lambda>i j. 5)\<rparr>"
  have fds: "np_fds t = [Some (Std 0), Some (Std 1), Some (Std 2), Some (Sock 3), Some (Sock 4), Some (Pipe_Read 9)]"
    "np_pipes t = np_pipes s" "slots t = slots s" "chat_of t = set_flag 1 1 True c" "user_pipe_fd t 1 (0 + 1) = int 5"
    by (simp_all add: t_def s(1))
  have open3: "fd_get (np_fds t) k \<noteq> None" if "k < 3" for k
    using that by (auto simp: fds(1) fd_get_def less_Suc_eq numeral_3_eq_3)
  have lone: "lone_line zero_kernel 4 ''cat <1'' t"
    using l(1) [of "''cat <1''"] l(3) due_slot_same [OF fds(3), of 4] fds open3
    by (simp add: lone_line_def zero_kernel_def)
  have q: "fd_get (np_fds t) 5 = Some (Pipe_Read 9)" "2 < (5::nat)" "(0::nat) < 30"
    by (simp_all add: fds(1) fd_get_def eval_nat_numeral)
  have words: "from_user ''cat <1''" "CHR ''>'' \<notin> set ''cat <1''" "split_space ''cat <1'' = Inr [''cat'', ''<1'']"
    by (simp_all add: from_user_def split_space_def split_at_def tokens_eval)
  have chat: "known_user (int 1) (chat_of t)" "find_client 4 (chat_of t) = Some 0" "user_pipe_flag (chat_of t) 1 (0 + 1)"
    using l(2) s(2) by (simp_all add: fds(4))
  from user_pipe_lost [OF lone words(1,2) user_number_1(2) words(3) chat(1,2) q(3) chat(3) fds(5) q(2,1)]
  show ?thesis using chat(3) by auto
qed

section \<open>Users behind descriptor 0\<close>

lemma single_parser_zero:
  assumes "np_heap w = (\<lambda>_. (0, 0))" "np_limit w \<le> 65536"
    and "single_parser w sock waiting err out input first final enter gi cmd s = Inr (d, s')"
  shows "snd d = 0"
proof -
  obtain r s1 where st: "start_command w (path_of sock (chat_of s))
         (single_kid w sock (chat_of s) cmd first final gi enter err input out) False 0 cmd s = Inr ((r, d), s1)"
    using single_parser_Inr [OF assms(3)] by blast
  obtain wr s2 where p: "np_pipe w s = Inr ((r, wr), s2)" "d = copied (np_heap w (np_pipes s)) r"
    using start_command_Inr [OF st] by blast
  have "r < 65536" using np_pipe_ends(6,7) [OF p(1)] assms(2) by simp
  then show ?thesis using p(2) assms(1) by (simp add: copied_zero)
qed

text \<open>A login on descriptor 0 leaves the place free.\<close>

lemma login_0_holder:
  assumes "table_ok s" "login 0 ip port s = Inr t"
  shows "table_ok t" "holder_of t = holder_of s"
proof -
  let ?g = "greet 0 ip port s"
  have g: "table_ok ?g" using assms(1) by simp
  obtain u where reg: "register 0 (ip, port) ?g = Inr u" "load_env 0 ''PATH=bin:.'' u = Inr t"
    using assms(2) by (auto simp: login_def bind_res_Inr_iff)
  obtain i where i: "i < 60" "u = placed i 0 (ip, port) ?g" "i \<le> clients_size ?g" "holder_of ?g i = 0"
    using register_Inr [OF g reg(1)] by blast
  have "table_ok u" "holder_of u = (holder_of ?g)(i := 0)" using placed_table [OF g i(1,3)] i(2) by simp_all
  then have "table_ok t" "holder_of t = (holder_of s)(i := 0)" using load_env_fields [OF reg(2)] by simp_all
  then show "table_ok t" "holder_of t = holder_of s" using i(4) by (simp_all add: fun_upd_idem_iff)
qed

lemma login_0_works:
  assumes "table_ok s" "i < 59" "holder_of s i = 0" "\<forall>j < i. holder_of s j \<noteq> 0"
    and "clients_env s ! i = env_init" "clients_env s ! (i + 1) = env_init"
  shows "\<exists>t. login 0 ip port s = Inr t"
proof -
  let ?g = "greet 0 ip port s" and ?p = "placed i 0 (ip, port) (greet 0 ip port s)"
  have i: "i < 60" using assms(2) by simp
  have reg: "register 0 (ip, port) ?g = Inr ?p" "i \<le> clients_size s"
    using register_lowest [of ?g i 0 "(ip, port)"] assms(1,3,4) i by simp_all
  have len: "length (clients_fd_set s) = 60" using assms(1) by (simp add: table_ok_def)
  have "clients_fd_set ?g = clients_fd_set s" by (simp add: greet_def broadcast_box)
  then have fd: "clients_fd_set ?p ! j = (if j = i then 0 else clients_fd_set s ! j)" if "j \<le> i" for j
    using that len i by (simp add: placed_def)
  have "i < clients_size ?p" using reg(2) by (simp add: placed_def)
  moreover have "\<forall>j < i. clients_fd_set ?p ! j \<noteq> 0" using fd assms(2,4) len by (auto simp: holder_of_def)
  ultimately have "find_client 0 ?p = Some i" unfolding find_client_def find_Some_nth using fd [of i] by simp
  then have "\<exists>t. load_env 0 ''PATH=bin:.'' ?p = Inr t"
    using load_env_new [of "''PATH=bin:.''" "''PATH''" "''bin:.''" 0 ?p i env_init] assms(2,5,6)
    by (simp add: tokens_eval env_label_def env_init_def)
  then show ?thesis using reg(1) by (auto simp: login_def)
qed

lemma program_closes_0:
  assumes "np_heap w = (\<lambda>_. (0, 0))" "np_limit w \<le> 65536" "chat_stages cs"
    and "single_do_exec w sock (show_line cs) s = Inr (Goes_On s')"
  shows "lowest_free (np_fds s') = 0" "\<exists>c. only_talks (chat_of s) c \<and> chat_of s' = say sock ''% '' c"
proof -
  have ne: "cs \<noteq> []" using assms(3) by (simp add: chat_stages_def stage_list_def)
  obtain t where t: "stages (single_parser w sock True False (int sock)) sock 0 True 0 cs s = Inr t" "s' = prompt sock t"
    using assms(4) single_exec_stages [OF assms(3)] by (auto simp: bind_res_Inr_iff)
  have "fd_get (np_fds t) 0 = None"
    by (rule stages_close_0 [OF _ t(1) ne]) (rule single_parser_zero [OF assms(1,2)])
  then show "lowest_free (np_fds s') = 0" using t(2) by (simp add: lowest_free_0)
  show "\<exists>c. only_talks (chat_of s) c \<and> chat_of s' = say sock ''% '' c"
    using single_stages_talk [OF t(1)] t(2) by auto
qed

text \<open>
  A server that starts with zeroed memory closes its descriptor 0 at the end of the first line of
  programs: \<open>memcpy\<close> copies two bytes, and 0 is taken for the writing end. The next user who connects
  gets descriptor 0, which marks a free place in the table: the user is greeted, but is in nobody's
  \<open>who\<close>, and hears no message.
\<close>

theorem login_after_program_unseen:
  assumes "np_heap w = (\<lambda>_. (0, 0))" "np_limit w \<le> 65536" "chat_stages cs" "table_ok (chat_of s)"
    and "single_do_exec w sock (show_line cs) s = Inr (Goes_On s')"
    and "single_login w ip port s' = Inr (fd, s'')"
  shows "fd = 0 \<and> holder_of (chat_of s'') = holder_of (chat_of s') \<and> set (users (chat_of s'')) = set (users (chat_of s'))"
proof -
  note line = program_closes_0 [OF assms(1-3,5)]
  then have fd: "fd = 0" "login 0 ip port (chat_of s') = Inr (chat_of s'')"
    using assms(6) by (auto simp: single_login_def Let_def bind_res_Inr_iff split: if_splits)
  have "table_ok (chat_of s')" using assms(4) line(2) by (auto simp: only_talks_def table_ok_def)
  then show ?thesis using fd(1) login_0_holder [OF _ fd(2)] users_iff by auto
qed

theorem login_after_program_unseen_witness:
  "\<exists>s s' s''. single_step zero_kernel single_init s \<and> single_do_exec zero_kernel 4 (show_line [''ls'']) s = Inr (Goes_On s')
    \<and> single_login zero_kernel ''5.6.7.8'' 9 s' = Inr (0, s'') \<and> holder_of (chat_of s'') = (\<lambda>j. 0)(0 := 4)"
proof -
  obtain s c where s: "s = single_init\<lparr>np_fds := [Some (Std 0), Some (Std 1), Some (Std 2), Some (Sock 3), Some (Sock 4)], chat_of := c\<rparr>"
    "find_client 4 c = Some 0" "clients_env c ! 0 = path_env" "single_step zero_kernel single_init s"
    "table_ok c" "holder_of c = (\<lambda>j. 0)(0 := 4)" "clients_env c ! 1 = env_init" "clients_env c ! 2 = env_init"
    using first_user by blast
  note f = first_user_facts [OF s(1-3)]
  have c: "chat_of s = c" by (simp add: s(1))
  obtain s' where s': "single_do_exec zero_kernel 4 (show_line [''ls'']) s = Inr (Goes_On s')"
    using single_line_runs(1) [OF ls_stages(1) _ f(1), of zero_kernel] f(4) ls_stages(2) by (auto simp: zero_kernel_def)
  have z: "np_heap zero_kernel = (\<lambda>_. (0, 0))" "np_limit zero_kernel \<le> 65536" by (simp_all add: zero_kernel_def)
  note line = program_closes_0 [OF z ls_stages(1) s']
  obtain d where d: "only_talks c d" "chat_of s' = say 4 ''% '' d" using line(2) c by auto
  have chat: "table_ok (chat_of s')" "holder_of (chat_of s') = (\<lambda>j. 0)(0 := 4)" "clients_env (chat_of s') = clients_env c"
    using s(5,6) d only_talks_same [OF d(1)] by (simp_all add: only_talks_def table_ok_def)
  obtain e where e: "login 0 ''5.6.7.8'' 9 (chat_of s') = Inr e"
    using login_0_works [OF chat(1), of 1] chat(2,3) s(7,8) by (auto simp: numeral_2_eq_2)
  then have log: "single_login zero_kernel ''5.6.7.8'' 9 s' = Inr (0, s'\<lparr>np_fds := fd_put (np_fds s') 0 (Sock 0), chat_of := e\<rparr>)"
    using line(1) by (simp add: single_login_def zero_kernel_def)
  have "table_ok (chat_of s)" using s(5) c by simp
  from login_after_program_unseen [OF z ls_stages(1) this s' log] show ?thesis using s(4) s' log chat(2) by auto
qed

end
