(* ===== verification/Np_Multi.thy ===== *)
theory Np_Multi
  imports Np_Chat
begin

text \<open>
  The chat of \<open>project2/np_multi_proc.cpp\<close>: one process per user, the table of users and their
  mailboxes in shared memory, and the signal that tells a process to empty its mailboxes. The
  processes act in any order; what one of them does to the shared memory between two points at
  which it waits is one step. Standard output is taken as written at once. The state holds, besides
  what the program has, the history of each user: what was written to the connection, with the
  place of the sender of a message, and the messages that found room in its mailboxes.
\<close>

section \<open>Shared memory\<close>

record fifo_info =
  fifo_fd :: int
  fifo_name :: string

record mclient =
  cl_id :: nat
  cl_pid :: nat
  cl_nick :: string
  cl_ip :: string
  cl_port :: nat
  cl_msg :: "string list list"
  cl_fifo :: "fifo_info list"

definition blank_client :: mclient where
  "blank_client =
     \<lparr>cl_id = 0, cl_pid = 0, cl_nick = [], cl_ip = [], cl_port = 0,
      cl_msg = replicate 30 (replicate 10 []), cl_fifo = replicate 30 \<lparr>fifo_fd = 0, fifo_name = []\<rparr>\<rparr>"

text \<open>
  \<open>pending\<close>: the processes with a \<open>SIGUSR1\<close> that they have not handled; a second signal makes no
  difference. \<open>shown\<close> and \<open>taken\<close> are the histories.
\<close>

record room =
  shm :: "mclient list"
  pending :: "nat set"
  shown :: "nat \<Rightarrow> (nat option \<times> string) list"
  taken :: "nat \<Rightarrow> nat \<Rightarrow> string list"

definition room_init :: room where
  "room_init =
     \<lparr>shm = replicate 30 blank_client, pending = {}, shown = (\<lambda>c. []), taken = (\<lambda>c k. [])\<rparr>"

text \<open>What the process of place \<open>c\<close> prints itself.\<close>

definition print_to :: "nat \<Rightarrow> string \<Rightarrow> room \<Rightarrow> room" where
  "print_to c msg s = s\<lparr>shown := (shown s)(c := shown s c @ [(None, msg)])\<rparr>"

section \<open>Messages\<close>

text \<open>A mailbox has ten places; a place is free when its first byte is zero.\<close>

definition free_msg :: "string list \<Rightarrow> nat option" where
  "free_msg box = List.find (\<lambda>j. box ! j = []) [0..<10]"

definition put_msg :: "string \<Rightarrow> string list \<Rightarrow> string list" where
  "put_msg msg box = (case free_msg box of None \<Rightarrow> box | Some j \<Rightarrow> box[j := msg])"

text \<open>
  The loop over the places of the mailbox from \<open>k\<close> to \<open>c\<close>: the message goes to the first free one and
  the process of \<open>c\<close> is sent \<open>SIGUSR1\<close>; without a free one nothing happens.
\<close>

definition post :: "nat \<Rightarrow> string \<Rightarrow> nat \<Rightarrow> room \<Rightarrow> room" where
  "post k msg c s =
     (let cl = shm s ! c in
      case free_msg (cl_msg cl ! k) of
        None \<Rightarrow> s
      | Some j \<Rightarrow>
          s\<lparr>shm := (shm s)[c := cl\<lparr>cl_msg := (cl_msg cl)[k := put_msg msg (cl_msg cl ! k)]\<rparr>],
            pending := insert (cl_pid cl) (pending s),
            taken := (taken s)(c := (taken s c)(k := taken s c k @ [msg]))\<rparr>)"

definition members :: "room \<Rightarrow> nat list" where
  "members s = filter (\<lambda>i. 0 < cl_id (shm s ! i)) [0..<30]"

definition room_broadcast :: "nat \<Rightarrow> string \<Rightarrow> room \<Rightarrow> room" where
  "room_broadcast k msg s = fold (post k msg) (members s) s"

text \<open>\<open>sig_handler\<close> for \<open>SIGUSR1\<close>: every message is written and its place zeroed.\<close>

definition unread :: "nat \<Rightarrow> room \<Rightarrow> (nat option \<times> string) list" where
  "unread c s = concat (map (\<lambda>k. map (Pair (Some k)) (filter (\<lambda>m. m \<noteq> []) (cl_msg (shm s ! c) ! k))) [0..<30])"

definition on_usr1 :: "nat \<Rightarrow> room \<Rightarrow> room" where
  "on_usr1 c s =
     s\<lparr>shm := (shm s)[c := (shm s ! c)\<lparr>cl_msg := map (map (\<lambda>m. [])) (cl_msg (shm s ! c))\<rparr>],
       pending := pending s - {cl_pid (shm s ! c)},
       shown := (shown s)(c := shown s c @ unread c s)\<rparr>"

section \<open>Coming and leaving\<close>

text \<open>\<open>snprintf\<close> to a buffer of 1025 bytes cuts the message.\<close>

definition cut_msg :: "string \<Rightarrow> string" where
  "cut_msg m = take 1024 m"

definition client_entered :: "string \<Rightarrow> nat \<Rightarrow> string" where
  "client_entered ip port = ''*** client '' @ [CHR 0x27] @ ''(no name)'' @ [CHR 0x27] @ '' entered from ''
     @ ip @ '':'' @ nat_str port @ ''. ***'' @ [newline]"

definition full_text :: string where
  "full_text = unlines [''The server is full.'', ''Please try again later...'']"

text \<open>The entry of a user; the mailboxes stay as they are.\<close>

definition take_place :: "nat \<Rightarrow> nat \<Rightarrow> string \<Rightarrow> nat \<Rightarrow> room \<Rightarrow> room" where
  "take_place c pid ip port s =
     s\<lparr>shm := (shm s)[c := (shm s ! c)\<lparr>cl_id := c + 1, cl_pid := pid, cl_nick := ''(no name)'',
                                     cl_ip := ip, cl_port := port\<rparr>],
       shown := (shown s)(c := [(None, welcome_text)]), taken := (taken s)(c := (\<lambda>k. []))\<rparr>"

text \<open>\<open>add_client\<close>; without a free place the new user is told so (the result is \<open>None\<close>) and the process ends.\<close>

definition add_client :: "nat \<Rightarrow> string \<Rightarrow> nat \<Rightarrow> room \<Rightarrow> (nat \<times> room) option" where
  "add_client pid ip port s =
     (case List.find (\<lambda>c. cl_id (shm s ! c) = 0) [0..<30] of
        None \<Rightarrow> None
      | Some c \<Rightarrow> Some (c, print_to c ''% '' (room_broadcast c (cut_msg (client_entered ip port)) (take_place c pid ip port s))))"

definition client_left :: "string \<Rightarrow> string" where
  "client_left nick = ''*** client '' @ [CHR 0x27] @ nick @ [CHR 0x27] @ '' left. ***'' @ [newline]"

definition wipe_place :: "nat \<Rightarrow> room \<Rightarrow> room" where
  "wipe_place c s = s\<lparr>shm := (shm s)[c := blank_client]\<rparr>"

text \<open>\<open>rm_user\<close>, on the shared memory.\<close>

definition rm_user :: "nat \<Rightarrow> room \<Rightarrow> room" where
  "rm_user c s = wipe_place c (room_broadcast c (cut_msg (client_left (cl_nick (shm s ! c)))) s)"

section \<open>Built-in commands\<close>

definition client_line :: "nat \<Rightarrow> nat \<Rightarrow> room \<Rightarrow> string" where
  "client_line me i s =
     (let cl = shm s ! i in
      nat_str (cl_id cl) @ [tab] @ cl_nick cl @ [tab] @ cl_ip cl @ '':'' @ nat_str (cl_port cl)
        @ (if i = me then [tab] @ ''<-me'' else []) @ [newline])"

definition multi_who :: "nat \<Rightarrow> room \<Rightarrow> room" where
  "multi_who me s = fold (\<lambda>i. print_to me (client_line me i s)) (members s) (print_to me who_header s)"

definition client_exists :: "string \<Rightarrow> string" where
  "client_exists nick = ''*** client '' @ [CHR 0x27] @ nick @ [CHR 0x27] @ '' already exists. ***'' @ [newline]"

definition client_named :: "mclient \<Rightarrow> string" where
  "client_named cl = ''*** client from '' @ cl_ip cl @ '':'' @ nat_str (cl_port cl) @ '' is named ''
     @ [CHR 0x27] @ cl_nick cl @ [CHR 0x27] @ ''. ***'' @ [newline]"

text \<open>\<open>operand\<close> is what the array \<open>operand\<close> points to when the routine is called.\<close>

definition set_nick :: "nat \<Rightarrow> string \<Rightarrow> room \<Rightarrow> room" where
  "set_nick me nick s = s\<lparr>shm := (shm s)[me := (shm s ! me)\<lparr>cl_nick := nick\<rparr>]\<rparr>"

definition multi_name :: "nat \<Rightarrow> string list \<Rightarrow> room \<Rightarrow> room res" where
  "multi_name me operand s =
     (case operand of
        _ # nick # _ \<Rightarrow>
          if \<exists>i \<in> set (members s). cl_nick (shm s ! i) = nick then Inr (print_to me (client_exists nick) s)
          else if length nick \<ge> 21 then Inl Buffer_Overflow
          else (let s1 = set_nick me nick s
                in Inr (room_broadcast me (cut_msg (client_named (shm s1 ! me))) s1))
      | _ \<Rightarrow> Inl Null_Pointer)"

text \<open>\<open>sprintf\<close> to a buffer of 1025 bytes.\<close>

definition multi_yell :: "nat \<Rightarrow> string list \<Rightarrow> room \<Rightarrow> room res" where
  "multi_yell me operand s =
     (if length operand < 2 then Inl Null_Pointer
      else (let msg = yell_line (cl_nick (shm s ! me)) (join_words (tl operand)) in
            if length msg \<ge> 1025 then Inl Buffer_Overflow else Inr (room_broadcast me msg s)))"

definition no_client_line :: "int \<Rightarrow> string" where
  "no_client_line i = ''*** Error: client #'' @ int_str i @ '' does not exist yet. ***'' @ [newline]"

definition multi_tell :: "nat \<Rightarrow> string list \<Rightarrow> room \<Rightarrow> room res" where
  "multi_tell me operand s =
     (case operand of
        _ # who # w # ws \<Rightarrow>
          (let recvid = atoi who;
               msg = tell_line (cl_nick (shm s ! me)) (join_words (w # ws))
           in if recvid > 30 then Inl Out_Of_Bounds
              else if recvid > 0 \<and> cl_id (shm s ! nat (recvid - 1)) \<noteq> 0
              then if length msg \<ge> 1025 then Inl Buffer_Overflow else Inr (post me msg (nat (recvid - 1)) s)
              else Inr (print_to me (no_client_line recvid) s))
      | _ \<Rightarrow> Inl Null_Pointer)"

section \<open>Steps\<close>

definition set_fifo :: "nat \<Rightarrow> nat \<Rightarrow> fifo_info \<Rightarrow> room \<Rightarrow> room" where
  "set_fifo c k f s = s\<lparr>shm := (shm s)[c := (shm s ! c)\<lparr>cl_fifo := (cl_fifo (shm s ! c))[k := f]\<rparr>]\<rparr>"

text \<open>
  A process whose identity nobody in the table has comes in; a user talks; a process with a pending
  signal handles it; a user leaves. Beside that a process writes to its own connection or announces
  something, and the entries for FIFOs in a place change.
\<close>

inductive room_step :: "room \<Rightarrow> room \<Rightarrow> bool" where
  comes: "add_client pid ip port s = Some (c, s') \<Longrightarrow> 0 < pid \<Longrightarrow> \<forall>i < 30. cl_pid (shm s ! i) \<noteq> pid
    \<Longrightarrow> room_step s s'"
| looks: "c < 30 \<Longrightarrow> 0 < cl_id (shm s ! c) \<Longrightarrow> room_step s (multi_who c s)"
| renames: "c < 30 \<Longrightarrow> 0 < cl_id (shm s ! c) \<Longrightarrow> multi_name c operand s = Inr s' \<Longrightarrow> room_step s s'"
| yells: "c < 30 \<Longrightarrow> 0 < cl_id (shm s ! c) \<Longrightarrow> multi_yell c operand s = Inr s' \<Longrightarrow> room_step s s'"
| tells: "c < 30 \<Longrightarrow> 0 < cl_id (shm s ! c) \<Longrightarrow> multi_tell c operand s = Inr s' \<Longrightarrow> room_step s s'"
| reads: "c < 30 \<Longrightarrow> 0 < cl_id (shm s ! c) \<Longrightarrow> cl_pid (shm s ! c) \<in> pending s \<Longrightarrow> room_step s (on_usr1 c s)"
| leaves: "c < 30 \<Longrightarrow> 0 < cl_id (shm s ! c) \<Longrightarrow> room_step s (rm_user c s)"
| prints: "c < 30 \<Longrightarrow> 0 < cl_id (shm s ! c) \<Longrightarrow> room_step s (print_to c msg s)"
| announces: "c < 30 \<Longrightarrow> 0 < cl_id (shm s ! c) \<Longrightarrow> msg \<noteq> [] \<Longrightarrow> length msg < 1025
    \<Longrightarrow> room_step s (room_broadcast c msg s)"
| pipes: "c < 30 \<Longrightarrow> room_step s (set_fifo c k f s)"

inductive_cases room_stepE: "room_step s s'"

section \<open>A mailbox\<close>

definition box_content :: "string list \<Rightarrow> string list" where
  "box_content b = takeWhile (\<lambda>m. m \<noteq> []) b"

definition box_ok :: "string list \<Rightarrow> bool" where
  "box_ok b \<longleftrightarrow> length b = 10 \<and> dropWhile (\<lambda>m. m \<noteq> []) b = replicate (10 - length (box_content b)) []"

definition box_room :: "string list \<Rightarrow> bool" where
  "box_room b \<longleftrightarrow> length (box_content b) < 10"

definition empty_box :: "string list \<Rightarrow> string list" where
  "empty_box b = map (\<lambda>m. []) b"

lemma box_content_nonempty: "m \<in> set (box_content b) \<Longrightarrow> m \<noteq> []"
  by (auto simp: box_content_def dest: set_takeWhileD)

lemma takeWhile_filled:
  "\<forall>m \<in> set xs. m \<noteq> [] \<Longrightarrow> takeWhile (\<lambda>m. m \<noteq> []) (xs @ replicate n []) = xs"
  by (induction xs) (simp_all add: takeWhile_eq_Nil_iff)

lemma dropWhile_filled:
  "\<forall>m \<in> set xs. m \<noteq> [] \<Longrightarrow> dropWhile (\<lambda>m. m \<noteq> []) (xs @ replicate n []) = replicate n []"
  by (induction xs) (cases n; simp)+

lemma box_ok_filled:
  assumes "\<forall>m \<in> set xs. m \<noteq> []" "length xs \<le> 10"
  shows "box_ok (xs @ replicate (10 - length xs) [])" "box_content (xs @ replicate (10 - length xs) []) = xs"
  using assms takeWhile_filled [OF assms(1)] dropWhile_filled [OF assms(1)] by (simp_all add: box_ok_def box_content_def)

lemma box_okE:
  assumes "box_ok b"
  obtains xs where "\<forall>m \<in> set xs. m \<noteq> []" "length xs \<le> 10" "b = xs @ replicate (10 - length xs) []" "box_content b = xs"
proof
  show "\<forall>m \<in> set (box_content b). m \<noteq> []" using box_content_nonempty by blast
  show "length (box_content b) \<le> 10"
    using assms length_takeWhile_le [of "\<lambda>m. m \<noteq> []" b] by (simp add: box_ok_def box_content_def)
  have "takeWhile (\<lambda>m. m \<noteq> []) b @ dropWhile (\<lambda>m. m \<noteq> []) b = b" by (rule takeWhile_dropWhile_id)
  then show "b = box_content b @ replicate (10 - length (box_content b)) []"
    using assms by (simp add: box_ok_def flip: box_content_def)
qed simp

lemma free_msg_ok:
  assumes "box_ok b"
  shows "free_msg b = (if box_room b then Some (length (box_content b)) else None)"
proof -
  obtain xs where b: "\<forall>m \<in> set xs. m \<noteq> []" "length xs \<le> 10" "b = xs @ replicate (10 - length xs) []" "box_content b = xs"
    using box_okE [OF assms] by blast
  have at: "b ! j = [] \<longleftrightarrow> \<not> j < length xs" if "j < 10" for j
    using b(1,3) that by (auto simp: nth_append)
  show ?thesis
  proof (cases "length xs < 10")
    case True
    then have "free_msg b = Some (length xs)" unfolding free_msg_def find_Some_nth using at by auto
    then show ?thesis using True b(4) by (simp add: box_room_def)
  next
    case False
    then have "free_msg b = None" unfolding free_msg_def find_none using at b(2) by auto
    then show ?thesis using False b(4) by (simp add: box_room_def)
  qed
qed

lemma put_msg_ok:
  assumes "box_ok b" "m \<noteq> []"
  shows "box_ok (put_msg m b) \<and> box_content (put_msg m b) = box_content b @ (if box_room b then [m] else [])"
proof -
  obtain xs where b: "\<forall>m \<in> set xs. m \<noteq> []" "length xs \<le> 10" "b = xs @ replicate (10 - length xs) []" "box_content b = xs"
    using box_okE [OF assms(1)] by blast
  show ?thesis
  proof (cases "box_room b")
    case True
    then have n: "length xs < 10" using b(4) by (simp add: box_room_def)
    then have "replicate (10 - length xs) ([] :: string) = [] # replicate (10 - length (xs @ [m])) []"
      by (cases "10 - length xs") simp_all
    then have "b[length xs := m] = (xs @ [m]) @ replicate (10 - length (xs @ [m])) []" using b(3) by simp
    then have "put_msg m b = (xs @ [m]) @ replicate (10 - length (xs @ [m])) []"
      using True free_msg_ok [OF assms(1)] b(4) by (simp add: put_msg_def)
    moreover have "\<forall>x \<in> set (xs @ [m]). x \<noteq> []" "length (xs @ [m]) \<le> 10" using b(1) assms(2) n by auto
    ultimately show ?thesis using box_ok_filled [of "xs @ [m]"] True b(4) by simp
  next
    case False
    then have "put_msg m b = b" using free_msg_ok [OF assms(1)] by (simp add: put_msg_def)
    then show ?thesis using False assms(1) by simp
  qed
qed

lemma empty_box_ok: "box_ok b \<Longrightarrow> box_ok (empty_box b)" "box_content (empty_box b) = []"
proof -
  have e: "empty_box b = replicate (length b) []" by (simp add: empty_box_def map_replicate_const)
  show "box_ok b \<Longrightarrow> box_ok (empty_box b)" using box_ok_filled(1) [of "[]"] e by (simp add: box_ok_def)
  show "box_content (empty_box b) = []" using e by (cases "length b") (simp_all add: box_content_def)
qed

interpretation letters: mailbox box_ok box_content box_room "\<lambda>m. m \<noteq> []" put_msg empty_box
  by unfold_locales (use put_msg_ok empty_box_ok in auto)

lemma box_written:
  assumes "box_ok b"
  shows "filter (\<lambda>m. m \<noteq> []) b = box_content b"
proof -
  obtain xs where b: "\<forall>m \<in> set xs. m \<noteq> []" "b = xs @ replicate (10 - length xs) []" "box_content b = xs"
    using box_okE [OF assms] by blast
  have "filter (\<lambda>m. m \<noteq> []) b = filter (\<lambda>m. m \<noteq> []) xs" by (subst b(2)) simp
  then show ?thesis using b(1,3) by (simp add: filter_id_conv)
qed

section \<open>What the processes keep true\<close>

definition box_of :: "nat \<Rightarrow> nat \<Rightarrow> room \<Rightarrow> string list" where
  "box_of c k s = cl_msg (shm s ! c) ! k"

definition shown_from :: "nat \<Rightarrow> nat \<Rightarrow> room \<Rightarrow> string list" where
  "shown_from c k s = map snd (filter (\<lambda>x. fst x = Some k) (shown s c))"

definition pid_of :: "room \<Rightarrow> nat \<Rightarrow> nat" where
  "pid_of s c = (if c < length (shm s) \<and> 0 < cl_id (shm s ! c) then cl_pid (shm s ! c) else 0)"

text \<open>
  A place: its mailboxes are in order; those of nobody are empty; what a user was sent is what was shown
  and what is still in the mailbox; and a user with something in a mailbox has the signal pending.
\<close>

definition place_ok :: "room \<Rightarrow> nat \<Rightarrow> bool" where
  "place_ok s c \<longleftrightarrow> length (cl_msg (shm s ! c)) = 30 \<and>
     (\<forall>k < 30. box_ok (box_of c k s)
        \<and> (if cl_id (shm s ! c) = 0 then box_content (box_of c k s) = []
           else taken s c k = shown_from c k s @ box_content (box_of c k s))
        \<and> (cl_id (shm s ! c) \<noteq> 0 \<and> cl_pid (shm s ! c) \<notin> pending s \<longrightarrow> box_content (box_of c k s) = []))"

definition room_ok :: "room \<Rightarrow> bool" where
  "room_ok s \<longleftrightarrow> length (shm s) = 30 \<and> (\<forall>c < 30. place_ok s c) \<and> one_each (pid_of s)
     \<and> (\<forall>c < 30. 0 < cl_id (shm s ! c) \<longrightarrow> 0 < cl_pid (shm s ! c))"

lemma members_iff: "c \<in> set (members s) \<longleftrightarrow> c < 30 \<and> 0 < cl_id (shm s ! c)"
  by (auto simp: members_def)

text \<open>Who is where does not change with messages.\<close>

definition same_users :: "room \<Rightarrow> room \<Rightarrow> bool" where
  "same_users s t \<longleftrightarrow> length (shm t) = length (shm s) \<and>
     (\<forall>c < length (shm s). cl_id (shm t ! c) = cl_id (shm s ! c) \<and> cl_pid (shm t ! c) = cl_pid (shm s ! c))"

lemma same_users_refl [simp]: "same_users s s"
  by (simp add: same_users_def)

lemma same_users_trans: "same_users s t \<Longrightarrow> same_users t u \<Longrightarrow> same_users s u"
  by (simp add: same_users_def)

lemma same_users_members: "same_users s t \<Longrightarrow> length (shm s) = 30 \<Longrightarrow> members t = members s"
  by (auto simp: members_def same_users_def intro: filter_cong)

lemma same_users_pid: "same_users s t \<Longrightarrow> length (shm s) = 30 \<Longrightarrow> pid_of t = pid_of s"
  by (auto simp: same_users_def pid_of_def fun_eq_iff)

lemma room_ok_same:
  assumes "room_ok s" "same_users s t" "\<forall>c < 30. place_ok t c"
  shows "room_ok t"
  using assms same_users_pid [OF assms(2)] by (simp add: room_ok_def same_users_def)

lemma print_to_fields [simp]:
  "shm (print_to c m s) = shm s" "pending (print_to c m s) = pending s" "taken (print_to c m s) = taken s"
  "shown_from d k (print_to c m s) = shown_from d k s" "box_of d k (print_to c m s) = box_of d k s"
  by (simp_all add: print_to_def shown_from_def box_of_def)

lemma print_to_ok [simp]: "room_ok (print_to c m s) = room_ok s"
proof -
  have "pid_of (print_to c m s) = pid_of s" by (simp add: pid_of_def fun_eq_iff)
  then show ?thesis by (simp add: room_ok_def place_ok_def)
qed

lemma post_same: "c < length (shm s) \<Longrightarrow> same_users s (post k msg c s)"
  by (auto simp: post_def same_users_def Let_def nth_list_update split: option.split)

text \<open>A message to a user who is in.\<close>

lemma post_effect:
  assumes "room_ok s" "msg \<noteq> []" "k < 30" "c < 30"
  shows "box_of d i (post k msg c s) = (if d = c \<and> i = k then put_msg msg (box_of c k s) else box_of d i s)"
    and "taken (post k msg c s) d i =
      taken s d i @ (if d = c \<and> i = k \<and> box_room (box_of c k s) then [msg] else [])"
    and "shown (post k msg c s) = shown s"
    and "pending (post k msg c s) = (if box_room (box_of c k s) then insert (cl_pid (shm s ! c)) (pending s) else pending s)"
    and "length (cl_msg (shm (post k msg c s) ! d)) = length (cl_msg (shm s ! d))"
proof -
  have ok: "length (shm s) = 30" "box_ok (box_of c k s)" "length (cl_msg (shm s ! c)) = 30"
    using assms by (auto simp: room_ok_def place_ok_def)
  have free: "free_msg (cl_msg (shm s ! c) ! k) =
      (if box_room (box_of c k s) then Some (length (box_content (box_of c k s))) else None)"
    using free_msg_ok [OF ok(2)] by (simp add: box_of_def)
  have full: "\<not> box_room (box_of c k s) \<Longrightarrow> put_msg msg (box_of c k s) = box_of c k s"
    using free by (simp add: put_msg_def box_of_def)
  show "box_of d i (post k msg c s) = (if d = c \<and> i = k then put_msg msg (box_of c k s) else box_of d i s)"
    using free full ok(1,3) assms(3,4) by (auto simp: post_def box_of_def Let_def nth_list_update)
  show "taken (post k msg c s) d i =
      taken s d i @ (if d = c \<and> i = k \<and> box_room (box_of c k s) then [msg] else [])"
    "shown (post k msg c s) = shown s"
    "pending (post k msg c s) = (if box_room (box_of c k s) then insert (cl_pid (shm s ! c)) (pending s) else pending s)"
    using free by (auto simp: post_def Let_def)
  show "length (cl_msg (shm (post k msg c s) ! d)) = length (cl_msg (shm s ! d))"
    using free ok(1) assms(4) by (auto simp: post_def Let_def nth_list_update)
qed

lemma post_ok:
  assumes "room_ok s" "msg \<noteq> []" "k < 30" "c < 30" "0 < cl_id (shm s ! c)"
  shows "room_ok (post k msg c s)"
proof -
  note e = post_effect [OF assms(1-4)]
  have len: "length (shm s) = 30" using assms(1) by (simp add: room_ok_def)
  have same: "same_users s (post k msg c s)" using post_same [of c s k msg] len assms(4) by simp
  have u: "cl_id (shm (post k msg c s) ! d) = cl_id (shm s ! d)" "cl_pid (shm (post k msg c s) ! d) = cl_pid (shm s ! d)"
    if "d < 30" for d using same that len by (simp_all add: same_users_def)
  have "place_ok (post k msg c s) d" if d: "d < 30" for d
  proof -
    have old: "place_ok s d" "place_ok s c" using assms(1,4) d by (simp_all add: room_ok_def)
    have sh: "shown_from d i (post k msg c s) = shown_from d i s" for i by (simp add: shown_from_def e(3))
    have "box_ok (box_of d i (post k msg c s))" if "i < 30" for i
      using old that assms(2,3) letters.put_ok unfolding e(1) place_ok_def by auto
    moreover have "if cl_id (shm s ! d) = 0 then box_content (box_of d i (post k msg c s)) = []
        else taken (post k msg c s) d i = shown_from d i s @ box_content (box_of d i (post k msg c s))" if "i < 30" for i
    proof (cases "d = c \<and> i = k")
      case True
      then have "taken s c k = shown_from c k s @ box_content (box_of c k s)" "box_ok (box_of c k s)"
        using old(2) assms(3,5) by (auto simp: place_ok_def)
      from letters.put_history [OF this(2) assms(2) this(1)] show ?thesis
        using True assms(5) unfolding e(1,2) by simp
    next
      case False
      then show ?thesis using old(1) that unfolding e(1,2) place_ok_def by auto
    qed
    moreover have "box_content (box_of d i (post k msg c s)) = []"
      if "i < 30" "cl_id (shm s ! d) \<noteq> 0" "cl_pid (shm s ! d) \<notin> pending (post k msg c s)" for i
    proof (cases "d = c \<and> i = k")
      case True
      then have "\<not> box_room (box_of c k s)" "cl_pid (shm s ! c) \<notin> pending s"
        using that(3) unfolding e(4) by (auto split: if_splits)
      moreover have "box_content (box_of c k s) = []"
        using calculation(2) old(2) True that(1,2) by (auto simp: place_ok_def)
      ultimately show ?thesis by (simp add: box_room_def)
    next
      case False
      then show ?thesis using old(1) that unfolding e(1,4) place_ok_def by (auto split: if_splits)
    qed
    ultimately show ?thesis using old(1) u [OF d] e(5) unfolding place_ok_def sh by auto
  qed
  then show ?thesis using room_ok_same [OF assms(1) same] by blast
qed

lemma fold_post_ok:
  assumes "room_ok s" "msg \<noteq> []" "k < 30" "\<forall>c \<in> set cs. c < 30 \<and> 0 < cl_id (shm s ! c)"
  shows "room_ok (fold (post k msg) cs s) \<and> same_users s (fold (post k msg) cs s)"
  using assms(1,4)
proof (induction cs arbitrary: s)
  case (Cons c cs)
  let ?t = "post k msg c s"
  have len: "length (shm s) = 30" using Cons.prems(1) by (simp add: room_ok_def)
  have t: "room_ok ?t" "same_users s ?t"
    using post_ok [OF Cons.prems(1) assms(2,3)] post_same [of c s k msg] Cons.prems(2) len by simp_all
  have "\<forall>c \<in> set cs. c < 30 \<and> 0 < cl_id (shm ?t ! c)"
    using Cons.prems(2) t(2) len by (simp add: same_users_def)
  with Cons.IH [OF t(1)] show ?case using same_users_trans [OF t(2)] by simp
qed simp

lemma broadcast_ok:
  "room_ok s \<Longrightarrow> msg \<noteq> [] \<Longrightarrow> k < 30 \<Longrightarrow> room_ok (room_broadcast k msg s) \<and> same_users s (room_broadcast k msg s)"
  unfolding room_broadcast_def by (rule fold_post_ok) (simp_all add: members_iff)

text \<open>Coming: a free place has nothing in its mailboxes.\<close>

lemma take_place_ok:
  assumes "room_ok s" "c < 30" "cl_id (shm s ! c) = 0" "0 < pid" "\<forall>i < 30. cl_pid (shm s ! i) \<noteq> pid"
  shows "room_ok (take_place c pid ip port s)" "pid_of (take_place c pid ip port s) = (pid_of s)(c := pid)"
proof -
  let ?t = "take_place c pid ip port s"
  have len: "length (shm s) = 30" using assms(1) by (simp add: room_ok_def)
  show pids: "pid_of ?t = (pid_of s)(c := pid)"
    using len assms(2) by (auto simp: take_place_def pid_of_def nth_list_update fun_eq_iff)
  have "\<forall>j. pid_of s j \<noteq> pid" using assms(4,5) len by (auto simp: pid_of_def)
  then have one: "one_each (pid_of ?t)"
    unfolding pids using assms(1) by (intro one_each_upd) (auto simp: room_ok_def)
  have "place_ok ?t d" if d: "d < 30" for d
  proof -
    have old: "place_ok s d" using assms(1) d by (simp add: room_ok_def)
    then show ?thesis using len assms(2,3)
      by (cases "d = c") (auto simp: place_ok_def take_place_def box_of_def shown_from_def nth_list_update)
  qed
  moreover have "\<forall>d < 30. 0 < cl_id (shm ?t ! d) \<longrightarrow> 0 < cl_pid (shm ?t ! d)" "length (shm ?t) = 30"
    using assms(1,2,4) len by (auto simp: room_ok_def take_place_def nth_list_update)
  ultimately show "room_ok ?t" using one by (simp add: room_ok_def)
qed

lemma blank_boxes: "k < 30 \<Longrightarrow> cl_msg blank_client ! k = replicate 10 []" "length (cl_msg blank_client) = 30"
  "cl_id blank_client = 0"
  by (simp_all add: blank_client_def)

lemma empty_ok: "box_ok (replicate 10 [])" "box_content (replicate 10 []) = []"
  using box_ok_filled [of "[]"] by simp_all

lemma wipe_place_ok:
  assumes "room_ok s" "c < 30"
  shows "room_ok (wipe_place c s)" "pid_of (wipe_place c s) = (pid_of s)(c := 0)"
proof -
  let ?t = "wipe_place c s"
  have len: "length (shm s) = 30" using assms(1) by (simp add: room_ok_def)
  show pids: "pid_of ?t = (pid_of s)(c := 0)"
    using len assms(2) by (auto simp: wipe_place_def pid_of_def nth_list_update fun_eq_iff blank_boxes)
  have one: "one_each (pid_of ?t)"
    unfolding pids using assms(1) by (intro one_each_upd) (auto simp: room_ok_def)
  have "place_ok ?t d" if d: "d < 30" for d
  proof -
    have old: "place_ok s d" using assms(1) d by (simp add: room_ok_def)
    then show ?thesis using len assms(2)
      by (cases "d = c") (auto simp: place_ok_def wipe_place_def box_of_def shown_from_def blank_boxes empty_ok)
  qed
  moreover have "\<forall>d < 30. 0 < cl_id (shm ?t ! d) \<longrightarrow> 0 < cl_pid (shm ?t ! d)" "length (shm ?t) = 30"
    using assms len by (auto simp: room_ok_def wipe_place_def nth_list_update blank_boxes)
  ultimately show "room_ok ?t" using one by (simp add: room_ok_def)
qed

lemma set_nick_ok:
  assumes "room_ok s" "c < 30"
  shows "room_ok (set_nick c nick s) \<and> same_users s (set_nick c nick s)"
proof -
  have len: "length (shm s) = 30" using assms(1) by (simp add: room_ok_def)
  then have same: "same_users s (set_nick c nick s)"
    using assms(2) by (auto simp: same_users_def set_nick_def nth_list_update)
  have "place_ok (set_nick c nick s) d" if "d < 30" for d
    using assms len that
    by (auto simp: room_ok_def place_ok_def set_nick_def box_of_def shown_from_def nth_list_update)
  then show ?thesis using room_ok_same [OF assms(1) same] same by blast
qed

lemma set_fifo_ok:
  assumes "room_ok s" "c < 30"
  shows "room_ok (set_fifo c k f s)" "same_users s (set_fifo c k f s)"
proof -
  have len: "length (shm s) = 30" using assms(1) by (simp add: room_ok_def)
  then show same: "same_users s (set_fifo c k f s)"
    using assms(2) by (auto simp: same_users_def set_fifo_def nth_list_update)
  have "place_ok (set_fifo c k f s) d" if "d < 30" for d
    using assms len that
    by (auto simp: room_ok_def place_ok_def set_fifo_def box_of_def shown_from_def nth_list_update)
  then show "room_ok (set_fifo c k f s)" using room_ok_same [OF assms(1) same] by blast
qed

text \<open>Reading shows the contents of every mailbox.\<close>

lemma keyed_filter:
  "distinct ks \<Longrightarrow> map snd (filter (\<lambda>x. fst x = Some k) (concat (map (\<lambda>i. map (Pair (Some i)) (f i)) ks)))
    = (if k \<in> set ks then f k else [])"
proof (induction ks)
  case (Cons i ks)
  have "map snd (filter (\<lambda>x. fst x = Some k) (map (Pair (Some i)) (f i))) = (if i = k then f i else [])"
    by (simp add: filter_map o_def)
  then show ?case using Cons by auto
qed simp

lemma on_usr1_effect:
  assumes "room_ok s" "c < 30" "k < 30"
  shows "shown_from d k (on_usr1 c s) = shown_from d k s @ (if d = c then box_content (box_of c k s) else [])"
    and "box_of d k (on_usr1 c s) = (if d = c then empty_box (box_of c k s) else box_of d k s)"
proof -
  have ok: "length (shm s) = 30" "box_ok (box_of c k s)" "length (cl_msg (shm s ! c)) = 30"
    using assms by (auto simp: room_ok_def place_ok_def)
  have "map snd (filter (\<lambda>x. fst x = Some k) (unread c s)) = box_content (box_of c k s)"
    unfolding unread_def
    using keyed_filter [of "[0..<30]" k "\<lambda>i. filter (\<lambda>m. m \<noteq> []) (cl_msg (shm s ! c) ! i)"] box_written [OF ok(2)] assms(3)
    by (simp add: box_of_def)
  then show "shown_from d k (on_usr1 c s) = shown_from d k s @ (if d = c then box_content (box_of c k s) else [])"
    by (simp add: shown_from_def on_usr1_def)
  show "box_of d k (on_usr1 c s) = (if d = c then empty_box (box_of c k s) else box_of d k s)"
    using ok(1,3) assms(2,3) by (simp add: on_usr1_def box_of_def empty_box_def nth_list_update)
qed

lemma on_usr1_ok:
  assumes "room_ok s" "c < 30" "0 < cl_id (shm s ! c)"
  shows "room_ok (on_usr1 c s)" "same_users s (on_usr1 c s)"
proof -
  have len: "length (shm s) = 30" using assms(1) by (simp add: room_ok_def)
  then show same: "same_users s (on_usr1 c s)"
    using assms(2) by (auto simp: same_users_def on_usr1_def nth_list_update)
  have "place_ok (on_usr1 c s) d" if d: "d < 30" for d
  proof -
    have old: "place_ok s d" using assms(1) d by (simp add: room_ok_def)
    have u: "cl_id (shm (on_usr1 c s) ! d) = cl_id (shm s ! d)" "cl_pid (shm (on_usr1 c s) ! d) = cl_pid (shm s ! d)"
      "length (cl_msg (shm (on_usr1 c s) ! d)) = length (cl_msg (shm s ! d))" "taken (on_usr1 c s) = taken s"
      using len assms(2) by (auto simp: on_usr1_def nth_list_update)
    show ?thesis
    proof (cases "d = c")
      case True
      then show ?thesis
        using old u assms(3) on_usr1_effect [OF assms(1,2)] empty_box_ok unfolding place_ok_def by auto
    next
      case False
      have other: "cl_pid (shm s ! d) \<noteq> cl_pid (shm s ! c)" if "0 < cl_id (shm s ! d)"
      proof
        assume "cl_pid (shm s ! d) = cl_pid (shm s ! c)"
        then have "pid_of s d = pid_of s c" using that assms(2,3) d len by (simp add: pid_of_def)
        moreover have "pid_of s d \<noteq> 0" using assms(1) that d by (simp add: pid_of_def room_ok_def)
        ultimately show False using one_eachD [of "pid_of s" d c] assms(1) False by (simp add: room_ok_def)
      qed
      have "pending (on_usr1 c s) = pending s - {cl_pid (shm s ! c)}" by (simp add: on_usr1_def)
      then show ?thesis
        using old u False other on_usr1_effect [OF assms(1,2)] unfolding place_ok_def by auto
    qed
  qed
  then show "room_ok (on_usr1 c s)" using room_ok_same [OF assms(1) same] by blast
qed

text \<open>No message of the program is empty.\<close>

lemma message_nonempty [simp]:
  "cut_msg (client_entered ip port) \<noteq> []" "cut_msg (client_left nick) \<noteq> []" "cut_msg (client_named cl) \<noteq> []"
  "yell_line nick m \<noteq> []" "tell_line nick m \<noteq> []"
  by (simp_all add: cut_msg_def client_entered_def client_left_def client_named_def yell_line_def tell_line_def)

lemma who_ok:
  assumes "room_ok s"
  shows "room_ok (multi_who me s)" "same_users s (multi_who me s)"
proof -
  have "room_ok (fold (\<lambda>i. print_to me (f i)) cs t) = room_ok t \<and> shm (fold (\<lambda>i. print_to me (f i)) cs t) = shm t"
    for f :: "nat \<Rightarrow> string" and cs t by (induction cs arbitrary: t) simp_all
  then show "room_ok (multi_who me s)" "same_users s (multi_who me s)"
    using assms unfolding multi_who_def by (simp_all add: same_users_def)
qed

lemma name_ok:
  assumes "room_ok s" "me < 30" "multi_name me operand s = Inr t"
  shows "room_ok t"
proof -
  obtain cmd nick rest where o: "operand = cmd # nick # rest" using assms(3) by (auto simp: multi_name_def split: list.splits)
  note nick = set_nick_ok [OF assms(1,2), of nick]
  then show ?thesis
    using assms(1,2,3) broadcast_ok [of "set_nick me nick s" _ me] by (auto simp: o multi_name_def Let_def split: if_splits)
qed

lemma yell_ok: "room_ok s \<Longrightarrow> me < 30 \<Longrightarrow> multi_yell me operand s = Inr t \<Longrightarrow> room_ok t"
  using broadcast_ok by (auto simp: multi_yell_def Let_def split: if_splits)

lemma tell_ok:
  assumes "room_ok s" "me < 30" "multi_tell me operand s = Inr t"
  shows "room_ok t"
proof -
  obtain cmd who x ws where o: "operand = cmd # who # x # ws"
    using assms(3) by (auto simp: multi_tell_def split: list.splits)
  have "room_ok (post me (tell_line nick m) (nat (r - 1)) s)"
    if "r \<le> 30" "0 < r" "0 < cl_id (shm s ! nat (r - 1))" for r nick m
    using post_ok [OF assms(1) _ assms(2), of "tell_line nick m" "nat (r - 1)"] that by simp
  then show ?thesis using assms(1,3) by (auto simp: o multi_tell_def Let_def split: if_splits)
qed

text \<open>\<open>add_client\<close> takes the lowest free place.\<close>

lemma add_client_Some:
  assumes "add_client pid ip port s = Some (c, t)"
  shows "c < 30" "cl_id (shm s ! c) = 0" "\<forall>j < c. cl_id (shm s ! j) \<noteq> 0"
    "t = print_to c ''% '' (room_broadcast c (cut_msg (client_entered ip port)) (take_place c pid ip port s))"
  using assms by (auto simp: add_client_def find_Some_nth split: option.splits)

lemma add_client_ok:
  assumes "room_ok s" "add_client pid ip port s = Some (c, t)" "0 < pid" "\<forall>i < 30. cl_pid (shm s ! i) \<noteq> pid"
  shows "room_ok t" "pid_of t = (pid_of s)(c := pid)"
proof -
  note a = add_client_Some [OF assms(2)]
  note p = take_place_ok [OF assms(1) a(1,2) assms(3,4), of ip port]
  let ?t = "take_place c pid ip port s"
  note b = broadcast_ok [OF p(1) message_nonempty(1) a(1), of ip port]
  then show "room_ok t" using a(4) by simp
  have "length (shm ?t) = 30" using p(1) by (simp add: room_ok_def)
  then have "pid_of (room_broadcast c (cut_msg (client_entered ip port)) ?t) = pid_of ?t"
    using b same_users_pid by blast
  moreover have "pid_of t = pid_of (room_broadcast c (cut_msg (client_entered ip port)) ?t)"
    by (simp add: a(4) pid_of_def fun_eq_iff)
  ultimately show "pid_of t = (pid_of s)(c := pid)" using p(2) by simp
qed

lemma rm_user_ok:
  assumes "room_ok s" "c < 30"
  shows "room_ok (rm_user c s)" "pid_of (rm_user c s) = (pid_of s)(c := 0)"
proof -
  let ?t = "room_broadcast c (cut_msg (client_left (cl_nick (shm s ! c)))) s"
  have b: "room_ok ?t" "same_users s ?t" using broadcast_ok [OF assms(1) message_nonempty(2) assms(2)] by simp_all
  then have "pid_of ?t = pid_of s" using assms(1) same_users_pid by (simp add: room_ok_def)
  then show "room_ok (rm_user c s)" "pid_of (rm_user c s) = (pid_of s)(c := 0)"
    using wipe_place_ok [OF b(1) assms(2)] by (simp_all add: rm_user_def)
qed

lemma room_step_ok: "room_step s t \<Longrightarrow> room_ok s \<Longrightarrow> room_ok t"
  by (erule room_stepE)
    (auto intro: add_client_ok(1) who_ok(1) name_ok yell_ok tell_ok on_usr1_ok(1) rm_user_ok(1) set_fifo_ok(1)
      simp: print_to_ok broadcast_ok)

lemma room_ok_init: "room_ok room_init"
  by (auto simp: room_ok_def room_init_def place_ok_def box_of_def blank_boxes empty_ok one_each_def pid_of_def)

lemma room_reach_ok: "room_step\<^sup>*\<^sup>* room_init s \<Longrightarrow> room_ok s"
  by (induction rule: rtranclp_induct) (auto intro: room_ok_init room_step_ok)

text \<open>The table of users.\<close>

definition comes_at :: "nat \<Rightarrow> room \<Rightarrow> nat \<Rightarrow> room \<Rightarrow> bool" where
  "comes_at pid s c t \<longleftrightarrow> room_ok s \<and> 0 < pid \<and> (\<forall>i < 30. cl_pid (shm s ! i) \<noteq> pid)
     \<and> (\<exists>ip port. add_client pid ip port s = Some (c, t))"

interpretation multi_table: slot_table pid_of comes_at wipe_place
proof unfold_locales
  fix pid s c t
  assume "comes_at pid s c t"
  then obtain ip port where a: "room_ok s" "0 < pid" "\<forall>i < 30. cl_pid (shm s ! i) \<noteq> pid"
    "add_client pid ip port s = Some (c, t)" by (auto simp: comes_at_def)
  note c = add_client_Some [OF a(4)]
  show "pid_of s c = 0 \<and> (\<forall>j < c. pid_of s j \<noteq> 0)"
    using c(1-3) a(1) by (auto simp: pid_of_def room_ok_def)
  show "pid_of t = (pid_of s)(c := pid)" by (rule add_client_ok(2) [OF a(1,4,2,3)])
next
  fix c s
  show "pid_of (wipe_place c s) = (pid_of s)(c := 0)"
    by (auto simp: wipe_place_def pid_of_def nth_list_update fun_eq_iff blank_boxes)
qed

text \<open>What a message leaves as it is in the entries of the users.\<close>

lemma post_client:
  "length (shm (post k msg c s)) = length (shm s)"
  "\<exists>m. shm (post k msg c s) ! d = (shm s ! d)\<lparr>cl_msg := m\<rparr>"
proof -
  have same: "\<exists>m. cl = cl\<lparr>cl_msg := m\<rparr>" for cl :: mclient by (rule exI [of _ "cl_msg cl"]) simp
  show "length (shm (post k msg c s)) = length (shm s)" by (simp add: post_def Let_def split: option.split)
  show "\<exists>m. shm (post k msg c s) ! d = (shm s ! d)\<lparr>cl_msg := m\<rparr>"
    using same by (cases "c < length (shm s)"; cases "d = c") (auto simp: post_def Let_def list_update_beyond split: option.split)
qed

lemma broadcast_client:
  "length (shm (room_broadcast k msg s)) = length (shm s)"
  "\<exists>m. shm (room_broadcast k msg s) ! d = (shm s ! d)\<lparr>cl_msg := m\<rparr>"
proof -
  have "length (shm (fold (post k msg) cs t)) = length (shm t) \<and> (\<exists>m. shm (fold (post k msg) cs t) ! d = (shm t ! d)\<lparr>cl_msg := m\<rparr>)"
    for cs t
  proof (induction cs arbitrary: t)
    case Nil
    show ?case by (auto intro: exI [of _ "cl_msg (shm t ! d)"])
  next
    case (Cons c cs)
    obtain m where "shm (post k msg c t) ! d = (shm t ! d)\<lparr>cl_msg := m\<rparr>" using post_client(2) by blast
    then show ?case using Cons [of "post k msg c t"] post_client(1) by auto
  qed
  then show "length (shm (room_broadcast k msg s)) = length (shm s)"
    "\<exists>m. shm (room_broadcast k msg s) ! d = (shm s ! d)\<lparr>cl_msg := m\<rparr>"
    by (simp_all add: room_broadcast_def)
qed

lemma broadcast_entry [simp]:
  "cl_id (shm (room_broadcast k msg s) ! d) = cl_id (shm s ! d)" "cl_pid (shm (room_broadcast k msg s) ! d) = cl_pid (shm s ! d)"
  "cl_nick (shm (room_broadcast k msg s) ! d) = cl_nick (shm s ! d)" "cl_fifo (shm (room_broadcast k msg s) ! d) = cl_fifo (shm s ! d)"
  "length (shm (room_broadcast k msg s)) = length (shm s)"
  using broadcast_client(2) [of k msg s d] by (auto simp: broadcast_client(1))

lemma chat_same:
  assumes "length (shm s) = 30" "me < 30"
  shows "same_users s (room_broadcast k msg s)" "same_users s (multi_who me s)" "same_users s (set_fifo me j f s)"
    "multi_name me operand s = Inr t \<Longrightarrow> same_users s t" "multi_yell me operand s = Inr t \<Longrightarrow> same_users s t"
    "multi_tell me operand s = Inr t \<Longrightarrow> same_users s t"
proof -
  show b: "same_users s (room_broadcast k msg s)" for k msg by (simp add: same_users_def)
  have "shm (fold (\<lambda>i. print_to me (f i)) cs t) = shm t" for f :: "nat \<Rightarrow> string" and cs t
    by (induction cs arbitrary: t) simp_all
  then show "same_users s (multi_who me s)" by (simp add: multi_who_def same_users_def)
  show "same_users s (set_fifo me j f s)" using assms by (auto simp: same_users_def set_fifo_def nth_list_update)
  have n: "same_users s (set_nick me nick s)" for nick
    using assms by (auto simp: same_users_def set_nick_def nth_list_update)
  have "same_users s (room_broadcast me msg (set_nick me nick s))" for msg nick
    by (rule same_users_trans [OF n [of nick]]) (simp add: same_users_def)
  then show "multi_name me operand s = Inr t \<Longrightarrow> same_users s t"
    by (auto simp: multi_name_def Let_def same_users_def split: list.splits if_splits)
  show "multi_yell me operand s = Inr t \<Longrightarrow> same_users s t"
    using b by (auto simp: multi_yell_def Let_def split: if_splits)
  have p: "same_users s (post me msg (nat (r - 1)) s)" if "\<not> 30 < r" "0 < r" for msg r
    by (rule post_same) (use assms(1) that in simp)
  show "multi_tell me operand s = Inr t \<Longrightarrow> same_users s t"
    using p by (auto simp: multi_tell_def Let_def split: list.splits if_splits) (simp_all add: same_users_def)
qed

section \<open>The sizes of the shared memory\<close>

text \<open>
  What the declarations of \<open>client\<close> say: 21 bytes for a nickname, 30 mailboxes of ten places of 1025 bytes
  and 30 entries for FIFOs; each string with the zero byte behind it.
\<close>

definition client_typed :: "nat \<Rightarrow> mclient \<Rightarrow> bool" where
  "client_typed c cl \<longleftrightarrow> cl_id cl \<in> {0, c + 1} \<and> length (cl_nick cl) < 21
     \<and> length (cl_msg cl) = 30 \<and> (\<forall>box \<in> set (cl_msg cl). length box = 10 \<and> (\<forall>m \<in> set box. length m < 1025))
     \<and> length (cl_fifo cl) = 30"

definition room_typed :: "room \<Rightarrow> bool" where
  "room_typed s \<longleftrightarrow> length (shm s) = 30 \<and> (\<forall>c < 30. client_typed c (shm s ! c))"

lemma room_typed_upd:
  assumes "room_typed s" "c < 30 \<Longrightarrow> client_typed c (shm s ! c) \<Longrightarrow> client_typed c cl" "shm t = (shm s)[c := cl]"
  shows "room_typed t"
proof -
  have "client_typed d (shm t ! d)" if "d < 30" for d
    using assms that by (cases "d = c") (simp_all add: room_typed_def)
  then show ?thesis using assms(1,3) by (simp add: room_typed_def)
qed

lemma room_typed_print [simp]: "room_typed (print_to c m s) = room_typed s"
  by (simp add: room_typed_def)

lemma put_msg_typed:
  assumes "length box = 10 \<and> (\<forall>m \<in> set box. length m < 1025)" "length msg < 1025"
  shows "length (put_msg msg box) = 10 \<and> (\<forall>m \<in> set (put_msg msg box). length m < 1025)"
proof (cases "free_msg box")
  case (Some j)
  have "m = msg \<or> m \<in> set box" if "m \<in> set (box[j := msg])" for m
    using that set_update_subset_insert [of box j msg] by blast
  then show ?thesis using assms Some by (auto simp: put_msg_def)
qed (use assms in \<open>simp add: put_msg_def\<close>)

lemma client_typed_msg:
  assumes "client_typed c cl" "k < 30" "length msg < 1025"
  shows "client_typed c (cl\<lparr>cl_msg := (cl_msg cl)[k := put_msg msg (cl_msg cl ! k)]\<rparr>)"
proof -
  have "length (cl_msg cl ! k) = 10 \<and> (\<forall>m \<in> set (cl_msg cl ! k). length m < 1025)"
    using assms(1,2) nth_mem [of k "cl_msg cl"] by (auto simp: client_typed_def simp del: nth_mem)
  note new = put_msg_typed [OF this assms(3)]
  have "length box = 10 \<and> (\<forall>m \<in> set box. length m < 1025)"
    if "box \<in> set ((cl_msg cl)[k := put_msg msg (cl_msg cl ! k)])" for box
    using that set_update_subset_insert [of "cl_msg cl" k "put_msg msg (cl_msg cl ! k)"] new assms(1)
    by (auto simp: client_typed_def)
  then show ?thesis using assms(1) by (auto simp: client_typed_def)
qed

lemma post_typed: "room_typed s \<Longrightarrow> k < 30 \<Longrightarrow> length msg < 1025 \<Longrightarrow> room_typed (post k msg c s)"
  by (auto simp: post_def Let_def split: option.split intro: room_typed_upd client_typed_msg)

lemma broadcast_typed:
  assumes "room_typed s" "k < 30" "length msg < 1025"
  shows "room_typed (room_broadcast k msg s)"
proof -
  have "room_typed (fold (post k msg) cs t)" if "room_typed t" for cs t
    using that by (induction cs arbitrary: t) (simp_all add: post_typed assms(2,3))
  then show ?thesis using assms(1) by (simp add: room_broadcast_def)
qed

lemma cut_msg_length [simp]: "length (cut_msg m) < 1025"
  by (simp add: cut_msg_def)

lemma set_nick_typed: "room_typed s \<Longrightarrow> length nick < 21 \<Longrightarrow> room_typed (set_nick c nick s)"
  by (rule room_typed_upd) (auto simp: set_nick_def client_typed_def)

lemma blank_typed: "client_typed c blank_client"
  by (auto simp: client_typed_def blank_client_def)

lemma name_typed: "room_typed s \<Longrightarrow> me < 30 \<Longrightarrow> multi_name me operand s = Inr t \<Longrightarrow> room_typed t"
  by (auto simp: multi_name_def Let_def intro!: broadcast_typed set_nick_typed split: list.splits if_splits)

lemma yell_typed: "room_typed s \<Longrightarrow> me < 30 \<Longrightarrow> multi_yell me operand s = Inr t \<Longrightarrow> room_typed t"
  by (auto simp: multi_yell_def Let_def intro!: broadcast_typed split: if_splits)

lemma tell_typed: "room_typed s \<Longrightarrow> me < 30 \<Longrightarrow> multi_tell me operand s = Inr t \<Longrightarrow> room_typed t"
  by (auto simp: multi_tell_def Let_def intro!: post_typed split: list.splits if_splits)

lemma add_client_typed:
  assumes "room_typed s" "add_client pid ip port s = Some (c, t)"
  shows "room_typed t"
proof -
  note a = add_client_Some [OF assms(2)]
  have "room_typed (take_place c pid ip port s)"
    by (rule room_typed_upd [OF assms(1)]) (auto simp: take_place_def client_typed_def)
  then show ?thesis unfolding a(4) using broadcast_typed a(1) by simp
qed

lemma who_shm: "shm (multi_who me s) = shm s"
proof -
  have "shm (fold (\<lambda>i. print_to me (f i)) cs t) = shm t" for f :: "nat \<Rightarrow> string" and cs t
    by (induction cs arbitrary: t) simp_all
  then show ?thesis by (simp add: multi_who_def)
qed

lemma room_step_typed:
  assumes "room_step s t" "room_typed s"
  shows "room_typed t"
  using assms(1)
proof (cases rule: room_step.cases)
  case (reads c)
  show ?thesis unfolding reads(1)
    by (rule room_typed_upd [OF assms(2)]) (auto simp: on_usr1_def client_typed_def)
next
  case (leaves c)
  show ?thesis unfolding leaves(1) rm_user_def
    by (rule room_typed_upd [OF broadcast_typed [OF assms(2)]]) (use leaves blank_typed in \<open>auto simp: wipe_place_def\<close>)
next
  case (pipes c k f)
  show ?thesis unfolding pipes(1)
    by (rule room_typed_upd [OF assms(2)]) (auto simp: set_fifo_def client_typed_def)
next
  case (looks c)
  then show ?thesis using assms(2) by (simp add: room_typed_def who_shm)
qed (use assms(2) in \<open>auto intro: add_client_typed name_typed yell_typed tell_typed broadcast_typed\<close>)

lemma room_typed_init: "room_typed room_init"
  by (auto simp: room_typed_def room_init_def blank_typed)

lemma room_reach_typed: "room_step\<^sup>*\<^sup>* room_init s \<Longrightarrow> room_typed s"
  by (induction rule: rtranclp_induct) (auto intro: room_typed_init room_step_typed)

section \<open>Properties\<close>


text \<open>The first user, and what it needs for a \<open>yell\<close>.\<close>

lemma first_client:
  "\<exists>s. add_client 7 ''1.2.3.4'' 5 room_init = Some (0, s) \<and> room_step\<^sup>*\<^sup>* room_init s \<and> 0 < cl_id (shm s ! 0)"
proof -
  have "List.find (\<lambda>c. cl_id (shm room_init ! c) = 0) [0..<30] = Some 0"
    by (simp add: find_Some_nth room_init_def blank_boxes)
  then obtain s where s: "add_client 7 ''1.2.3.4'' 5 room_init = Some (0, s)" by (simp add: add_client_def)
  have pids: "\<forall>i < 30. cl_pid (shm room_init ! i) \<noteq> 7" by (simp add: room_init_def blank_client_def)
  have "room_step room_init s" by (rule room_step.comes [OF s]) (use pids in simp_all)
  moreover have "0 < cl_id (shm s ! 0)"
  proof (rule ccontr)
    assume "\<not> 0 < cl_id (shm s ! 0)"
    then have "pid_of s 0 = 0" by (simp add: pid_of_def)
    moreover have "pid_of s = (pid_of room_init)(0 := 7)" by (rule add_client_ok(2) [OF room_ok_init s _ pids]) simp
    ultimately show False by simp
  qed
  ultimately show ?thesis using s by blast
qed




text \<open>A message to several users, none of them twice.\<close>

lemma fold_post_taken:
  assumes "room_ok s" "msg \<noteq> []" "k < 30" "\<forall>c \<in> set cs. c < 30 \<and> 0 < cl_id (shm s ! c)" "distinct cs"
  shows "taken (fold (post k msg) cs s) d i =
      taken s d i @ (if d \<in> set cs \<and> i = k \<and> box_room (box_of d k s) then [msg] else [])
    \<and> shown (fold (post k msg) cs s) = shown s"
  using assms(1,4,5)
proof (induction cs arbitrary: s)
  case (Cons c cs)
  let ?t = "post k msg c s"
  have c: "c < 30" "0 < cl_id (shm s ! c)" "length (shm s) = 30" using Cons.prems by (simp_all add: room_ok_def)
  note e = post_effect [OF Cons.prems(1) assms(2,3) c(1)]
  have "\<forall>c \<in> set cs. c < 30 \<and> 0 < cl_id (shm ?t ! c)"
    using Cons.prems(2) post_same [of c s k msg] c by (simp add: same_users_def)
  with Cons.IH [OF post_ok [OF Cons.prems(1) assms(2,3) c(1,2)]] Cons.prems(3)
  show ?case using e(1) [of d k] e(2) [of d i] e(3) by auto
qed simp

text \<open>
  C22. A \<open>yell\<close> reaches every user of whose mailbox it fills at most the tenth place: in every run a
  mailbox holds at most ten messages of a sender that were not shown, and a further one is dropped
  without notice. What other senders sent is not touched.
\<close>

theorem yell_fills_ten_places:
  assumes "room_step\<^sup>*\<^sup>* room_init s" "me < 30" "multi_yell me operand s = Inr t"
    and "c < 30" "0 < cl_id (shm s ! c)"
  shows "length (taken s c me) \<le> length (shown_from c me s) + 10
    \<and> taken t c me = taken s c me @ (if length (taken s c me) < length (shown_from c me s) + 10
        then [yell_line (cl_nick (shm s ! me)) (join_words (tl operand))] else [])
    \<and> (\<forall>k. k \<noteq> me \<longrightarrow> taken t c k = taken s c k) \<and> shown t c = shown s c"
proof -
  let ?msg = "yell_line (cl_nick (shm s ! me)) (join_words (tl operand))"
  have ok: "room_ok s" by (rule room_reach_ok [OF assms(1)])
  have t: "t = fold (post me ?msg) (members s) s"
    using assms(3) by (auto simp: multi_yell_def room_broadcast_def Let_def split: if_splits)
  have "taken s c me = shown_from c me s @ box_content (box_of c me s)" "box_ok (box_of c me s)"
    using ok assms(2,4,5) by (auto simp: room_ok_def place_ok_def)
  moreover from this(2) have "length (box_content (box_of c me s)) \<le> 10" by (metis box_okE)
  ultimately have room: "length (taken s c me) \<le> length (shown_from c me s) + 10"
    "box_room (box_of c me s) \<longleftrightarrow> length (taken s c me) < length (shown_from c me s) + 10"
    by (simp_all add: box_room_def)
  have m: "\<forall>c \<in> set (members s). c < 30 \<and> 0 < cl_id (shm s ! c)" "distinct (members s)" "c \<in> set (members s)"
    using assms(4,5) by (simp_all add: members_iff) (simp add: members_def)
  note f = fold_post_taken [OF ok message_nonempty(4) assms(2) m(1,2)]
  show ?thesis using room f m(3) unfolding t by auto
qed

theorem yell_fills_ten_places_witness:
  "\<exists>s t. room_step\<^sup>*\<^sup>* room_init s \<and> 0 < cl_id (shm s ! 0) \<and> multi_yell 0 [''yell'', ''hi''] s = Inr t
    \<and> length (taken s 0 0) \<le> length (shown_from 0 0 s) + 10"
proof -
  obtain s where s: "room_step\<^sup>*\<^sup>* room_init s" "0 < cl_id (shm s ! 0)" using first_client by blast
  have "room_typed s" using s(1) by (rule room_reach_typed)
  then have "length (cl_nick (shm s ! 0)) < 21" by (simp add: room_typed_def client_typed_def)
  then obtain t where "multi_yell 0 [''yell'', ''hi''] s = Inr t"
    by (auto simp: multi_yell_def yell_line_def)
  then show ?thesis using yell_fills_ten_places [of s 0 "[''yell'', ''hi'']" t 0] s by auto
qed

end
