(* ===== verification/Np_Multi_Exec.thy ===== *)
theory Np_Multi_Exec
  imports Np_Simple Np_Single Np_Multi
begin

text \<open>
  Lines in \<open>project2/np_multi_proc.cpp\<close>: \<open>handle_new_connection\<close>, \<open>do_exec\<close> and \<open>parser\<close> of one user's
  process, with numbered pipes and with the pipes to other users, which are FIFOs. The state is that of
  \<open>Np_Pipes\<close> with the shared memory of \<open>Np_Multi\<close>, the descriptors of the other users' processes
  and the FIFOs in the file system. The receiver of a pipe opens its end in the handler of
  \<open>SIGUSR2\<close>, which has run when the sender's \<open>open\<close> returns; apart from that a line runs without other
  processes in between.
\<close>

section \<open>State\<close>

record multi = np +
  room_of :: room
  me :: nat
  own_pid :: nat
  menviron :: "env_entry list"
  others :: "nat \<Rightarrow> fd_table"
  fifo_files :: "string list"

text \<open>The process of the user at place \<open>c\<close> after \<open>init_client\<close> and \<open>add_client\<close>.\<close>

definition multi_start :: "nat \<Rightarrow> nat \<Rightarrow> (nat \<Rightarrow> fd_table) \<Rightarrow> string list \<Rightarrow> room \<Rightarrow> multi" where
  "multi_start c pid tables files room =
     \<lparr>np_fds = [Some (Sock 0), Some (Sock 0), Some (Sock 0), None, Some (Sock 0)], np_pipes = 0,
      slots = replicate 1024 slot_init, pos = 0, kids = [], waits = [],
      room_of = room, me = c, own_pid = pid, menviron = [Live ''PATH=bin:.''], others = tables, fifo_files = files\<rparr>"

definition on_room :: "(room \<Rightarrow> room) \<Rightarrow> multi \<Rightarrow> multi" where
  "on_room f s = s\<lparr>room_of := f (room_of s)\<rparr>"

definition printed :: "string \<Rightarrow> multi \<Rightarrow> multi" where
  "printed msg s = on_room (print_to (me s) msg) s"

definition announce :: "string \<Rightarrow> multi \<Rightarrow> multi" where
  "announce msg s = on_room (room_broadcast (me s) msg) s"

definition client_at :: "nat \<Rightarrow> multi \<Rightarrow> mclient" where
  "client_at c s = shm (room_of s) ! c"

definition fifo_at :: "nat \<Rightarrow> nat \<Rightarrow> multi \<Rightarrow> fifo_info" where
  "fifo_at c k s = cl_fifo (client_at c s) ! k"

definition no_fifo :: fifo_info where
  "no_fifo = \<lparr>fifo_fd = 0, fifo_name = []\<rparr>"

section \<open>FIFOs\<close>

definition fds_of :: "nat \<Rightarrow> multi \<Rightarrow> fd_table" where
  "fds_of c s = (if c = me s then np_fds s else others s c)"

definition put_fds :: "nat \<Rightarrow> fd_table \<Rightarrow> multi \<Rightarrow> multi" where
  "put_fds c t s = (if c = me s then s\<lparr>np_fds := t\<rparr> else s\<lparr>others := (others s)(c := t)\<rparr>)"

text \<open>
  \<open>sig_handler\<close> for \<open>SIGUSR2\<close> in the process of place \<open>c\<close>: every entry with a name and without a descriptor
  is opened for reading, without waiting for a writer.
\<close>

definition open_fifo :: "np_kernel \<Rightarrow> nat \<Rightarrow> nat \<Rightarrow> multi \<Rightarrow> multi" where
  "open_fifo w c k s =
     (let f = fifo_at c k s; t = fds_of c s; fd = lowest_free t in
      if fifo_fd f = 0 \<and> fifo_name f \<noteq> []
      then if fifo_name f \<in> set (fifo_files s) \<and> fd < np_limit w
           then put_fds c (fd_put t fd (Fifo_Read (fifo_name f))) (on_room (set_fifo c k (f\<lparr>fifo_fd := int fd\<rparr>)) s)
           else on_room (set_fifo c k (f\<lparr>fifo_fd := -1\<rparr>)) s
      else s)"

definition on_usr2 :: "np_kernel \<Rightarrow> nat \<Rightarrow> multi \<Rightarrow> multi" where
  "on_usr2 w c s = fold (open_fifo w c) [0..<30] s"

definition fifo_path :: "nat \<Rightarrow> nat \<Rightarrow> string" where
  "fifo_path i j = ''/net/gcs/110/310555007/user_fifo/'' @ nat_str i @ ''->'' @ nat_str j"

text \<open>\<open>%str\<close> is \<open>%s\<close> with two letters behind it.\<close>

definition with_tr :: "string \<Rightarrow> string" where
  "with_tr s = s @ ''tr''"

definition client_tr :: "string \<Rightarrow> int \<Rightarrow> string" where
  "client_tr nick i = with_tr nick @ '' (#'' @ int_str i @ '')''"

definition multi_received_line :: "mclient \<Rightarrow> mclient \<Rightarrow> string \<Rightarrow> string" where
  "multi_received_line to from line =
     ''*** '' @ client_tr (cl_nick to) (int (cl_id to)) @ '' just received from ''
       @ client_tr (cl_nick from) (int (cl_id from)) @ '' by '' @ quoted (with_tr line) @ '' ***'' @ [newline]"

definition multi_piped_line :: "mclient \<Rightarrow> mclient \<Rightarrow> nat \<Rightarrow> string \<Rightarrow> string" where
  "multi_piped_line from to recvid line =
     ''*** '' @ client_tr (cl_nick from) (int (cl_id from)) @ '' just piped '' @ quoted (with_tr line) @ '' to ''
       @ client_tr (cl_nick to) (int recvid) @ '' ***'' @ [newline]"

text \<open>
  The two blocks of \<open>do_exec\<close>. The result of the first is \<open>user_pipe_in\<close> with the place of the entry, or
  \<open>None\<close> when \<open>do_exec\<close> returns; that of the second is \<open>user_pipe_out\<close>.
\<close>

definition multi_receive :: "string \<Rightarrow> multi \<Rightarrow> ((int \<times> nat) option \<times> multi) res" where
  "multi_receive line s =
     (if \<not> from_user line then Inr (Some (0, 0), s)
      else bind_res (user_number CHR ''<'' line) (\<lambda>sendid.
        if sendid < 0 \<or> sendid > 30 then Inr (None, printed (no_client_line sendid) s)
        else if sendid = 0 then Inl Out_Of_Bounds
        else (let k = nat (sendid - 1) in
          if cl_id (client_at k s) = 0 then Inr (None, printed (no_client_line sendid) s)
          else if fifo_fd (fifo_at (me s) k s) = 0
          then Inr (None, printed (no_pipe_line (nat sendid) (cl_id (client_at (me s) s))) s)
          else (let msg = multi_received_line (client_at (me s) s) (client_at k s) line in
            if length msg \<ge> 1025 then Inl Buffer_Overflow
            else Inr (Some (fifo_fd (fifo_at (me s) k s), k), announce msg s)))))"

text \<open>The sender's half of a pipe: \<open>mkfifo\<close>, the name, the signal, and \<open>open\<close>, which waits for the reader.\<close>

definition make_fifo :: "np_kernel \<Rightarrow> nat \<Rightarrow> string \<Rightarrow> multi \<Rightarrow> (int \<times> multi) res" where
  "make_fifo w r path s =
     (let s1 = on_room (set_fifo r (me s) \<lparr>fifo_fd = 0, fifo_name = path\<rparr>) (s\<lparr>fifo_files := path # fifo_files s\<rparr>);
          s2 = on_usr2 w r s1;
          fd = lowest_free (np_fds s2)
      in if fd \<ge> np_limit w then Inr (-1, s2)
         else if fifo_fd (fifo_at r (me s) s2) < 0 then Inl Unbounded_Loop
         else Inr (int fd, s2\<lparr>np_fds := fd_put (np_fds s2) fd (Fifo_Write path)\<rparr>))"

definition multi_send :: "np_kernel \<Rightarrow> string \<Rightarrow> multi \<Rightarrow> (int option \<times> multi) res" where
  "multi_send w line s =
     (if \<not> to_user line then Inr (Some 0, s)
      else bind_res (user_number CHR ''>'' line) (\<lambda>recvid.
        let r = nat (recvid - 1); mine = client_at (me s) s; path = fifo_path (cl_id mine) (nat recvid) in
        if recvid \<le> 0 \<or> recvid > 30 \<or> cl_id (client_at r s) = 0
        then Inr (None, printed (no_client_line recvid) s)
        else if fifo_fd (fifo_at r (me s) s) \<noteq> 0
        then Inr (None, printed (pipe_exists_line (cl_id mine) (nat recvid)) s)
        else if path \<in> set (fifo_files s) \<or> \<not> np_creates w path
        then Inr (None, printed (''error: failed to create FIFO'' @ [newline]) s)
        else bind_res (make_fifo w r path s) (\<lambda>(fd, s1).
          Inr (Some fd, announce (cut_msg (multi_piped_line (client_at (me s) s1) (client_at r s1) (nat recvid) line)) s1))))"

text \<open>
  The end of \<open>do_exec\<close>: the writing end is closed; the FIFO that was read is unlinked and its
  entry zeroed.
\<close>

definition drop_fifo :: "nat \<Rightarrow> multi \<Rightarrow> multi" where
  "drop_fifo k s =
     on_room (set_fifo (me s) k no_fifo)
       (s\<lparr>fifo_files := filter (\<lambda>f. f \<noteq> fifo_name (fifo_at (me s) k s)) (fifo_files s)\<rparr>)"

definition multi_finish :: "int \<Rightarrow> int \<Rightarrow> nat \<Rightarrow> multi \<Rightarrow> multi" where
  "multi_finish user_pipe_out user_pipe_in k s =
     (let s1 = (if user_pipe_out \<noteq> 0 then shut user_pipe_out s else s)
      in if user_pipe_in \<noteq> 0 \<and> fifo_fd (fifo_at (me s1) k s1) \<noteq> 0 then drop_fifo k s1 else s1)"

text \<open>\<open>rm_user\<close>: the FIFOs that were not read are closed and unlinked too.\<close>

definition multi_rm_user :: "multi \<Rightarrow> multi" where
  "multi_rm_user s =
     (let held = filter (\<lambda>f. fifo_fd f \<noteq> 0) (cl_fifo (client_at (me s) s)) in
      s\<lparr>room_of := rm_user (me s) (room_of s),
        np_fds := fold (\<lambda>f. close_int (fifo_fd f)) held (close_fd 2 (close_fd 1 (close_fd 0 (np_fds s)))),
        fifo_files := filter (\<lambda>f. f \<notin> set (map fifo_name held)) (fifo_files s)\<rparr>)"

section \<open>The child\<close>

definition multi_wire ::
    "bool \<Rightarrow> bool \<Rightarrow> nat \<Rightarrow> bool \<Rightarrow> bool \<Rightarrow> int \<Rightarrow> int \<Rightarrow> nat \<Rightarrow> fd_table \<Rightarrow> fd_table" where
  "multi_wire first final get_input enter n_pipe_err input out wr t =
     (let t1 = (if first \<and> \<not> final \<and> input = 0 then dup2 wr 1 t
                else if first \<and> \<not> final \<and> input \<noteq> 0 then dup2 wr 1 (dup2_int input 0 t)
                else if \<not> first \<and> \<not> final \<and> input \<noteq> 0 then dup2 wr 1 (dup2_int input 0 t)
                else if first \<and> final \<and> get_input = 4 \<and> input = 0 then dup2 wr 1 t
                else if first \<and> final \<and> get_input = 4 \<and> input \<noteq> 0 then dup2_int input 0 (dup2 wr 1 t)
                else dup2_int input 0 t);
          t2 = (if n_pipe_err \<and> get_input \<noteq> 3 then dup2 wr 2 t1
                else if n_pipe_err \<and> get_input = 3 then dup2_int out 2 t1 else t1);
          t3 = (if out \<noteq> 0 then dup2_int out 2 (dup2_int out 1 t2) else t2);
          t4 = (if enter then dup2_int input 0 t3 else t3)
      in if final \<and> get_input = 4 then dup2 wr 1 t4
         else if final \<and> get_input = 3 then dup2_int out 1 t4 else t4)"

text \<open>The blocks for \<open><\<close> (once before and once behind the other) and \<open>>\<close>.\<close>

definition multi_input_cut :: "bool \<Rightarrow> string \<Rightarrow> string option list \<times> fd_table \<Rightarrow> (string option list \<times> fd_table) res" where
  "multi_input_cut order cmd = (\<lambda>(ops, t).
     if from_user cmd \<and> input_first cmd = order
     then bind_res (cut_at CHR ''<'' ops) (\<lambda>ops'. Inr (ops', t)) else Inr (ops, t))"

definition multi_output_cut :: "np_kernel \<Rightarrow> string \<Rightarrow> string option list \<times> fd_table \<Rightarrow> (string option list \<times> fd_table) res" where
  "multi_output_cut w cmd = (\<lambda>(ops, t).
     if CHR ''>'' \<notin> set cmd then Inr (ops, t)
     else bind_res (cut_at CHR ''>'' ops) (\<lambda>ops'.
       Inr (ops', if to_file cmd
                  then case last (butlast ops) of None \<Rightarrow> t | Some name \<Rightarrow> redirect_to w name t
                  else t)))"

definition multi_kid ::
    "np_kernel \<Rightarrow> string \<Rightarrow> bool \<Rightarrow> bool \<Rightarrow> nat \<Rightarrow> bool \<Rightarrow> bool \<Rightarrow> int \<Rightarrow> int \<Rightarrow>
     nat \<times> nat \<Rightarrow> string list \<Rightarrow> string list \<Rightarrow> fd_table \<Rightarrow> np_kid" where
  "multi_kid w cmd first final get_input enter n_pipe_err input out pipefd ops dirs t =
     (let t' = multi_wire first final get_input enter n_pipe_err input out (snd pipefd) t in
      case bind_res (multi_input_cut False cmd (map Some ops @ [None], t'))
             (\<lambda>a. bind_res (multi_output_cut w cmd a) (multi_input_cut True cmd)) of
        Inl e \<Rightarrow> Dies e
      | Inr (ops', t'') \<Rightarrow> single_exec ops' dirs t'')"

section \<open>A line\<close>

text \<open>\<open>fork\<close> is called until it works.\<close>

definition multi_parser ::
    "np_kernel \<Rightarrow> bool \<Rightarrow> bool \<Rightarrow> int \<Rightarrow> int \<Rightarrow> bool \<Rightarrow> bool \<Rightarrow> bool \<Rightarrow> nat \<Rightarrow> string \<Rightarrow> multi \<Rightarrow>
     ((int \<times> int) \<times> multi) res" where
  "multi_parser w waiting n_pipe_err out input first final enter get_input cmd s =
     bind_res (start_command (w\<lparr>np_forks := \<lambda>n. True\<rparr>) (getenv ''PATH'' (menviron s))
         (multi_kid w cmd first final get_input enter n_pipe_err input out) (waiting \<and> final) input cmd s)
       (\<lambda>((r, d), s'). Inr (d, s'))"

text \<open>
  The call of \<open>parser\<close> in the loop: the last stage writes to \<open>user_pipe_out\<close>, and \<open>user_pipe_in\<close> is closed
  after the first.
\<close>

definition multi_stage ::
    "np_kernel \<Rightarrow> bool \<Rightarrow> bool \<Rightarrow> int \<Rightarrow> int \<Rightarrow> int \<Rightarrow> int \<Rightarrow> bool \<Rightarrow> bool \<Rightarrow> bool \<Rightarrow> nat \<Rightarrow> string \<Rightarrow> multi \<Rightarrow>
     ((int \<times> int) \<times> multi) res" where
  "multi_stage w waiting n_pipe_err out user_pipe_in user_pipe_out input first final enter get_input cmd s =
     bind_res (multi_parser w waiting n_pipe_err (if final \<and> user_pipe_out \<noteq> 0 then user_pipe_out else out)
         input first final enter get_input cmd s)
       (\<lambda>(d, s'). Inr (d, if user_pipe_in \<noteq> 0 \<and> first then shut user_pipe_in s' else s'))"

text \<open>
  The built-ins, on a line of one stage; \<open>None\<close> when the stage is not one. \<open>old_operand\<close> is what \<open>operand\<close> points to from
  an earlier call of \<open>split_space\<close>; only \<open>nickname\<close> uses it.
\<close>

definition multi_setenv :: "string list \<Rightarrow> multi \<Rightarrow> multi res" where
  "multi_setenv operand s =
     (case operand of
        _ # name # val # _ \<Rightarrow>
          bind_res (putenv (takeWhile (\<lambda>c. c \<noteq> CHR ''='') name) (Live (name @ ''='' @ val)) (menviron s))
            (\<lambda>es. Inr (s\<lparr>menviron := es\<rparr>))
      | _ \<Rightarrow> Inl Null_Pointer)"

definition multi_printenv :: "string list \<Rightarrow> multi \<Rightarrow> multi res" where
  "multi_printenv operand s =
     (case operand of
        _ # name # _ \<Rightarrow>
          bind_res (getenv name (menviron s)) (\<lambda>v. case v of
            None \<Rightarrow> Inl Null_Pointer
          | Some v \<Rightarrow> bind_res (printf_value v) (\<lambda>v. Inr (printed (v @ [newline]) s)))
      | _ \<Rightarrow> Inl Null_Pointer)"

definition in_room :: "(room \<Rightarrow> room res) \<Rightarrow> multi \<Rightarrow> multi res" where
  "in_room f s = bind_res (f (room_of s)) (\<lambda>r. Inr (s\<lparr>room_of := r\<rparr>))"

definition multi_exit :: "multi \<Rightarrow> multi progress" where
  "multi_exit s = Exits (if cl_pid (client_at (me s) s) = own_pid s then multi_rm_user s else s)"

definition multi_builtin :: "string list \<Rightarrow> string \<Rightarrow> multi \<Rightarrow> multi progress res option" where
  "multi_builtin old_operand cmd s =
     (let stay = (\<lambda>r. Some (bind_res r (\<lambda>s'. Inr (Goes_On s'))));
          split = (\<lambda>f. bind_res (split_space cmd) f)
      in if contains cmd ''printenv'' then stay (split (\<lambda>ops. multi_printenv ops s))
         else if contains cmd ''setenv'' then stay (split (\<lambda>ops. multi_setenv ops s))
         else if contains cmd ''exit'' then Some (Inr (multi_exit s))
         else if contains cmd ''who'' then stay (Inr (on_room (multi_who (me s)) s))
         else if contains cmd ''nickname'' then stay (in_room (multi_name (me s) old_operand) s)
         else if contains cmd ''yell'' then stay (split (\<lambda>ops. in_room (multi_yell (me s) ops) s))
         else if contains cmd ''tell'' then stay (split (\<lambda>ops. in_room (multi_tell (me s) ops) s))
         else None)"

definition multi_commands ::
    "np_kernel \<Rightarrow> string list \<Rightarrow> bool \<Rightarrow> nat \<Rightarrow> int \<Rightarrow> int \<Rightarrow> int \<Rightarrow> string list \<Rightarrow> multi \<Rightarrow> multi progress res" where
  "multi_commands w old_operand n_pipe_err get_input out user_pipe_in user_pipe_out stage_texts s =
     (case (if length stage_texts = 1 then multi_builtin old_operand (hd stage_texts) s else None) of
        Some r \<Rightarrow> r
      | None \<Rightarrow> bind_res (stages (multi_stage w (get_input = 0) n_pipe_err out user_pipe_in user_pipe_out)
                  0 user_pipe_in True get_input stage_texts s) (\<lambda>s'. Inr (Goes_On s')))"

definition multi_redirected ::
    "np_kernel \<Rightarrow> string list \<Rightarrow> string \<Rightarrow> bool \<Rightarrow> nat \<Rightarrow> int \<Rightarrow> string list \<Rightarrow> multi \<Rightarrow> multi progress res" where
  "multi_redirected w old_operand line n_pipe_err get_input out stage_texts s =
     bind_res (multi_receive line s) (\<lambda>(received, s1).
       case received of
         None \<Rightarrow> Inr (Goes_On s1)
       | Some (user_pipe_in, k) \<Rightarrow>
           bind_res (multi_send w line s1) (\<lambda>(sent, s2).
             case sent of
               None \<Rightarrow> Inr (Goes_On s2)
             | Some user_pipe_out \<Rightarrow>
                 bind_res (multi_commands w old_operand n_pipe_err get_input out user_pipe_in user_pipe_out stage_texts s2)
                   (\<lambda>p. case p of
                      Goes_On s3 \<Rightarrow> Inr (Goes_On (multi_finish user_pipe_out user_pipe_in k s3))
                    | Exits s3 \<Rightarrow> Inr (Exits s3))))"

text \<open>
  \<open>do_exec\<close>, on the line and its copy \<open>input_backup\<close>. A line of nothing but \<open>|\<close> has a null pointer as its
  last piece.
\<close>

definition multi_do_exec :: "np_kernel \<Rightarrow> string list \<Rightarrow> string \<Rightarrow> multi \<Rightarrow> multi progress res" where
  "multi_do_exec w old_operand line s =
     (if line = [] then Inr (Goes_On s)
      else bind_res (split_pipe line) (\<lambda>files.
        if files = [] then Inl Null_Pointer
        else if hd (hd files) = CHR '' '' then Inr (Goes_On s)
        else bind_res (if error_mark (last files) then error_pieces files else Inr (files, False)) (\<lambda>(files, n_pipe_err).
        bind_res (case pipe_number files of
                    None \<Rightarrow> Inr ((0, None), s)
                  | Some n \<Rightarrow> plan_number 1000 0 n s) (\<lambda>((get_input, joined), s1).
          multi_redirected w old_operand line n_pipe_err get_input (case joined of None \<Rightarrow> 0 | Some u \<Rightarrow> u)
            (if get_input = 0 then files else butlast files) s1))))"

text \<open>
  The loop of \<open>handle_new_connection\<close> over the lines that \<open>getline\<close> reads. The buffer is zeroed and the
  line is not copied to it; so \<open>strlen(buffer) - 1\<close> is the byte in front of the array, and \<open>before\<close> is what
  the write there does.
\<close>

fun multi_serve ::
    "np_kernel \<Rightarrow> string list \<Rightarrow> (multi \<Rightarrow> multi res) \<Rightarrow> string list \<Rightarrow> multi \<Rightarrow> multi progress res" where
  "multi_serve w old_operand before [] s = Inr (Goes_On s)"
| "multi_serve w old_operand before (str # later) s =
     (let buffer = takeWhile (\<lambda>c. c \<noteq> nul) (replicate 20000 nul) in
      bind_res (if buffer = [] then before s else Inr s) (\<lambda>s1.
      bind_res (multi_do_exec w old_operand (butlast buffer) s1) (\<lambda>p. case p of
        Exits s2 \<Rightarrow> Inr (Exits s2)
      | Goes_On s2 \<Rightarrow> multi_serve w old_operand before later (printed ''% '' s2))))"

section \<open>What a line does to the shared memory\<close>

lemma multi_more:
  assumes "np.more s' = np.more (s :: multi)"
  shows "room_of s' = room_of s" "me s' = me s" "own_pid s' = own_pid s" "menviron s' = menviron s"
    "others s' = others s" "fifo_files s' = fifo_files s"
  using assms by (cases s; cases s'; simp)+

lemma on_room_fields [simp]:
  "room_of (on_room f s) = f (room_of s)" "me (on_room f s) = me s" "own_pid (on_room f s) = own_pid s"
  "np_fds (on_room f s) = np_fds s" "others (on_room f s) = others s" "fifo_files (on_room f s) = fifo_files s"
  "menviron (on_room f s) = menviron s"
  by (simp_all add: on_room_def)

definition at_home :: "multi \<Rightarrow> bool" where
  "at_home s \<longleftrightarrow> length (shm (room_of s)) = 30 \<and> me s < 30 \<and> 0 < cl_id (client_at (me s) s)"

text \<open>The same user's process acts; its user stays in the table.\<close>

definition acts :: "multi \<Rightarrow> multi \<Rightarrow> bool" where
  "acts s s' \<longleftrightarrow> me s' = me s \<and> own_pid s' = own_pid s \<and>
     (at_home s \<longrightarrow> same_users (room_of s) (room_of s') \<and> room_step\<^sup>*\<^sup>* (room_of s) (room_of s'))"

lemma at_home_same: "at_home s \<Longrightarrow> me s' = me s \<Longrightarrow> same_users (room_of s) (room_of s') \<Longrightarrow> at_home s'"
  by (simp add: at_home_def same_users_def client_at_def)

lemma acts_refl [simp]: "acts s s"
  by (simp add: acts_def)

lemma acts_trans: "acts s t \<Longrightarrow> acts t u \<Longrightarrow> acts s u"
  unfolding acts_def using at_home_same same_users_trans by (metis rtranclp_trans)

lemma acts_home: "acts s t \<Longrightarrow> at_home s \<Longrightarrow> at_home t"
  using at_home_same by (auto simp: acts_def)

lemma acts_same: "acts s t \<Longrightarrow> room_of u = room_of t \<Longrightarrow> me u = me t \<Longrightarrow> own_pid u = own_pid t \<Longrightarrow> acts s u"
  by (simp add: acts_def)

lemma acts_step:
  assumes "me t = me s" "own_pid t = own_pid s" "at_home s \<Longrightarrow> same_users (room_of s) (room_of t)"
    "at_home s \<Longrightarrow> room_step (room_of s) (room_of t)"
  shows "acts s t"
  using assms by (auto simp: acts_def)

lemma acts_printed: "acts s (printed msg s)"
  by (rule acts_step) (auto simp: printed_def at_home_def client_at_def same_users_def intro: room_step.prints)

lemma acts_announce: "msg \<noteq> [] \<Longrightarrow> length msg < 1025 \<Longrightarrow> acts s (announce msg s)"
  by (rule acts_step) (auto simp: announce_def at_home_def client_at_def same_users_def intro: room_step.announces)

lemma acts_fifo:
  assumes "r < 30"
  shows "acts s (on_room (set_fifo r k f) s)"
  by (rule acts_step) (use assms in \<open>auto simp: at_home_def intro: room_step.pipes chat_same(3)\<close>)

lemma acts_open_fifo:
  assumes "c < 30"
  shows "acts s (open_fifo w c k s)"
proof -
  have "room_of (put_fds c t u) = room_of u" "me (put_fds c t u) = me u" "own_pid (put_fds c t u) = own_pid u" for t u
    by (simp_all add: put_fds_def)
  then have "acts s (put_fds c t (on_room (set_fifo c k f) s))" for t f
    by (intro acts_same [OF acts_fifo [OF assms, of s k f]]) simp_all
  then show ?thesis using acts_fifo [OF assms] by (simp add: open_fifo_def Let_def)
qed

lemma acts_usr2: "c < 30 \<Longrightarrow> acts s (on_usr2 w c s)"
proof -
  assume "c < 30"
  then have "acts t (fold (open_fifo w c) ks t)" for ks t
    by (induction ks arbitrary: t) (auto intro: acts_trans [OF acts_open_fifo])
  then show ?thesis by (simp add: on_usr2_def)
qed

lemma multi_received_nonempty: "multi_received_line a b l \<noteq> []" "cut_msg (multi_piped_line a b r l) \<noteq> []"
  by (simp_all add: multi_received_line_def multi_piped_line_def cut_msg_def)

lemma multi_receive_acts: "multi_receive line s = Inr (r, s') \<Longrightarrow> acts s s'"
  by (auto simp: multi_receive_def Let_def bind_res_Inr_iff multi_received_nonempty split: if_splits
      intro: acts_printed acts_announce)

lemma make_fifo_acts:
  assumes "make_fifo w r path s = Inr (fd, s')" "r < 30"
  shows "acts s s'"
proof -
  let ?s0 = "s\<lparr>fifo_files := path # fifo_files s\<rparr>"
  let ?s1 = "on_room (set_fifo r (me s) \<lparr>fifo_fd = 0, fifo_name = path\<rparr>) ?s0"
  have "acts s ?s0" by (rule acts_same [OF acts_refl]) simp_all
  then have "acts s (on_usr2 w r ?s1)" using acts_fifo [OF assms(2)] acts_usr2 [OF assms(2)] acts_trans by blast
  then show ?thesis
    by (rule acts_same) (use assms(1) in \<open>auto simp: make_fifo_def Let_def split: if_splits\<close>)
qed

lemma multi_send_acts:
  assumes "multi_send w line s = Inr (r, s')"
  shows "acts s s'"
proof (cases "to_user line")
  case True
  then obtain i where i: "user_number CHR ''>'' line = Inr i"
    using assms by (cases "user_number CHR ''>'' line") (simp_all add: multi_send_def)
  have "acts s s'" if "make_fifo w (nat (i - 1)) path s = Inr (fd, s1)" "\<not> i \<le> 0" "\<not> i > 30"
    "s' = announce (cut_msg (multi_piped_line a b n line)) s1" for path fd s1 a b n
  proof -
    have "acts s s1" by (rule make_fifo_acts [OF that(1)]) (use that(2,3) in simp)
    from acts_trans [OF this acts_announce [OF multi_received_nonempty(2) cut_msg_length]] show ?thesis using that(4) by simp
  qed
  then show ?thesis
    using assms True i acts_printed by (auto simp: multi_send_def Let_def bind_res_Inr_iff split: if_splits)
qed (use assms in \<open>simp add: multi_send_def\<close>)

lemma multi_stage_acts:
  assumes "multi_stage w waiting err out upi upo input first final enter gi cmd s = Inr (d, s')"
  shows "acts s s'"
proof -
  obtain r s1 where p: "start_command (w\<lparr>np_forks := \<lambda>n. True\<rparr>) (getenv ''PATH'' (menviron s))
      (multi_kid w cmd first final gi enter err input (if final \<and> upo \<noteq> 0 then upo else out)) (waiting \<and> final) input cmd s
        = Inr ((r, d), s1)"
    "s' = (if upi \<noteq> 0 \<and> first then shut upi s1 else s1)"
    using assms by (auto simp: multi_stage_def multi_parser_def bind_res_Inr_iff)
  note m = multi_more [OF start_command_more [OF p(1)]]
  show ?thesis by (rule acts_same [OF acts_refl]) (use m p(2) in \<open>auto simp: shut_def\<close>)
qed

lemma multi_stages_act:
  assumes "stages (multi_stage w waiting err out upi upo) own input first gi cs s = Inr s'"
  shows "acts s s'"
proof (rule stages_keeps [OF _ _ _ _ assms, where P = "acts s"])
  show "acts s (shut k t)" if "acts s t" for k t by (rule acts_same [OF that]) (simp_all add: shut_def)
  show "acts s (turned own t)" if "acts s t" for t by (rule acts_same [OF that]) (simp_all add: turned_def)
  show "acts s (store_slot i u t)" if "acts s t" for i u t by (rule acts_same [OF that]) (simp_all add: store_slot_def)
qed (auto dest: multi_stage_acts intro: acts_trans)

text \<open>What a line can lead to; after an \<open>exit\<close> the user has left, if the place is its own.\<close>

definition line_acts :: "multi \<Rightarrow> multi progress \<Rightarrow> bool" where
  "line_acts s p \<longleftrightarrow> (case p of
     Goes_On s' \<Rightarrow> acts s s'
   | Exits s' \<Rightarrow> \<exists>t. acts s t \<and> (if cl_pid (client_at (me t) t) = own_pid t
       then room_of s' = rm_user (me t) (room_of t) else room_of s' = room_of t))"

lemma line_acts_on [simp]: "line_acts s (Goes_On s') = acts s s'"
  by (simp add: line_acts_def)

lemma in_room_acts:
  assumes "in_room f s = Inr s'"
    "\<And>r. at_home s \<Longrightarrow> f (room_of s) = Inr r \<Longrightarrow> same_users (room_of s) r \<and> room_step (room_of s) r"
  shows "acts s s'"
  by (rule acts_step) (use assms in \<open>auto simp: in_room_def bind_res_Inr_iff\<close>)

lemma chat_acts:
  "in_room (multi_name (me s) ops) s = Inr s' \<Longrightarrow> acts s s'"
  "in_room (multi_yell (me s) ops) s = Inr s' \<Longrightarrow> acts s s'"
  "in_room (multi_tell (me s) ops) s = Inr s' \<Longrightarrow> acts s s'"
  "acts s (on_room (multi_who (me s)) s)"
proof -
  show "in_room (multi_name (me s) ops) s = Inr s' \<Longrightarrow> acts s s'"
    by (erule in_room_acts) (auto simp: at_home_def client_at_def intro: chat_same(4) room_step.renames)
  show "in_room (multi_yell (me s) ops) s = Inr s' \<Longrightarrow> acts s s'"
    by (erule in_room_acts) (auto simp: at_home_def client_at_def intro: chat_same(5) room_step.yells)
  show "in_room (multi_tell (me s) ops) s = Inr s' \<Longrightarrow> acts s s'"
    by (erule in_room_acts) (auto simp: at_home_def client_at_def intro: chat_same(6) room_step.tells)
  show "acts s (on_room (multi_who (me s)) s)"
    by (rule acts_step) (auto simp: at_home_def client_at_def intro: chat_same(2) room_step.looks)
qed

lemma env_acts: "multi_setenv ops s = Inr s' \<Longrightarrow> acts s s'" "multi_printenv ops s = Inr s' \<Longrightarrow> acts s s'"
proof -
  show "multi_setenv ops s = Inr s' \<Longrightarrow> acts s s'"
    by (rule acts_same [OF acts_refl]) (auto simp: multi_setenv_def bind_res_Inr_iff split: list.splits)
  show "multi_printenv ops s = Inr s' \<Longrightarrow> acts s s'"
    by (auto simp: multi_printenv_def bind_res_Inr_iff acts_printed split: list.splits option.splits)
qed

lemma multi_builtin_acts:
  assumes "multi_builtin old cmd s = Some (Inr p)"
  shows "line_acts s p"
proof -
  have leave: "line_acts s (multi_exit s)"
    unfolding line_acts_def multi_exit_def by (auto simp: multi_rm_user_def Let_def intro!: exI [of _ s])
  show ?thesis
    using assms leave
    by (auto simp: multi_builtin_def Let_def bind_res_Inr_iff chat_acts(4) dest: chat_acts(1-3) env_acts split: if_splits)
qed

lemma line_acts_trans:
  assumes "acts s t" "line_acts t p"
  shows "line_acts s p"
proof (cases p)
  case (Goes_On s')
  then show ?thesis using assms acts_trans by auto
next
  case (Exits s')
  then obtain u where "acts t u" "if cl_pid (client_at (me u) u) = own_pid u
      then room_of s' = rm_user (me u) (room_of u) else room_of s' = room_of u"
    using assms(2) by (auto simp: line_acts_def)
  then show ?thesis using acts_trans [OF assms(1)] unfolding Exits line_acts_def progress.case by blast
qed

lemma line_acts_same:
  assumes "line_acts t p" "room_of s = room_of t" "me s = me t" "own_pid s = own_pid t"
  shows "line_acts s p"
  by (rule line_acts_trans [OF _ assms(1)]) (use assms(2-4) in \<open>auto intro: acts_same [OF acts_refl]\<close>)

lemma multi_finish_acts: "k < 30 \<or> upi = 0 \<Longrightarrow> acts s (multi_finish upo upi k s)"
proof -
  assume k: "k < 30 \<or> upi = 0"
  let ?s1 = "if upo \<noteq> 0 then shut upo s else s"
  have one: "acts s ?s1" by (rule acts_same [OF acts_refl]) (simp_all add: shut_def)
  have "acts ?s1 (drop_fifo k ?s1)" if "upi \<noteq> 0"
  proof (cases "me ?s1 < 30")
    case True
    have "acts ?s1 (on_room (set_fifo (me ?s1) k no_fifo) ?s1)" by (rule acts_fifo [OF True])
    then show ?thesis by (rule acts_same) (simp_all add: drop_fifo_def)
  next
    case False
    then show ?thesis by (simp add: acts_def at_home_def drop_fifo_def)
  qed
  then show ?thesis using acts_trans [OF one] one by (auto simp: multi_finish_def Let_def)
qed

lemma multi_commands_acts:
  assumes "multi_commands w old err gi out upi upo cs s = Inr p"
  shows "line_acts s p"
proof (cases "if length cs = 1 then multi_builtin old (hd cs) s else None")
  case None
  then show ?thesis using assms by (auto simp: multi_commands_def bind_res_Inr_iff dest: multi_stages_act)
next
  case (Some r)
  then have "multi_builtin old (hd cs) s = Some r" by (simp split: if_splits)
  then show ?thesis using assms Some multi_builtin_acts by (simp add: multi_commands_def)
qed

lemma multi_receive_place: "multi_receive line s = Inr (Some (upi, k), s') \<Longrightarrow> k < 30"
  by (auto simp: multi_receive_def Let_def bind_res_Inr_iff split: if_splits)

lemma multi_redirected_acts:
  assumes "multi_redirected w old line err gi out cs s = Inr p"
  shows "line_acts s p"
proof -
  obtain a s1 where a: "multi_receive line s = Inr (a, s1)"
    using assms unfolding multi_redirected_def bind_res_Inr_iff by force
  note one = multi_receive_acts [OF a]
  show ?thesis
  proof (cases a)
    case None
    then show ?thesis using assms a one by (auto simp: multi_redirected_def)
  next
    case (Some x)
    obtain upi k where x: "a = Some (upi, k)" using Some by (cases x) simp
    obtain b s2 where b: "multi_send w line s1 = Inr (b, s2)"
      using assms a x unfolding multi_redirected_def by (cases "multi_send w line s1") auto
    note two = acts_trans [OF one multi_send_acts [OF b]]
    show ?thesis
    proof (cases b)
      case None
      then show ?thesis using assms a b x two by (auto simp: multi_redirected_def)
    next
      case upo: (Some upo)
      obtain q where q: "multi_commands w old err gi out upi upo cs s2 = Inr q"
        "p = (case q of Goes_On s3 \<Rightarrow> Goes_On (multi_finish upo upi k s3) | Exits s3 \<Rightarrow> Exits s3)"
        using assms a b x upo
        by (cases "multi_commands w old err gi out upi upo cs s2") (auto simp: multi_redirected_def split: progress.splits)
      have three: "line_acts s q" by (rule line_acts_trans [OF two multi_commands_acts [OF q(1)]])
      have k: "k < 30 \<or> upi = 0" using multi_receive_place [OF a [unfolded x]] by simp
      show ?thesis
      proof (cases q)
        case (Goes_On s3)
        then show ?thesis using q(2) three acts_trans [OF _ multi_finish_acts [OF k]] by simp
      next
        case (Exits s3)
        then show ?thesis using q(2) three by simp
      qed
    qed
  qed
qed

lemma multi_do_exec_acts:
  assumes "multi_do_exec w old line s = Inr p"
  shows "line_acts s p"
proof (cases "line = []")
  case False
  then obtain files where files: "split_pipe line = Inr files"
    using assms unfolding multi_do_exec_def by (cases "split_pipe line") auto
  show ?thesis
  proof (cases "hd (hd files) = CHR '' ''")
    case True
    then show ?thesis using assms False files by (auto simp: multi_do_exec_def split: if_splits)
  next
    case stage: False
    have ne: "files \<noteq> []" using assms False files by (auto simp: multi_do_exec_def)
    note rest = assms [unfolded multi_do_exec_def if_not_P [OF False] files bind_res_simps if_not_P [OF ne] if_not_P [OF stage]]
    obtain files' err where pieces: "(if error_mark (last files) then error_pieces files else Inr (files, False)) = Inr (files', err)"
      using rest by (auto simp only: bind_res_Inr_iff split_paired_Ex)
    obtain gi joined s1 where plan: "(case pipe_number files' of None \<Rightarrow> Inr ((0, None), s)
        | Some n \<Rightarrow> plan_number 1000 0 n s) = Inr ((gi, joined), s1)"
      using rest [unfolded pieces bind_res_simps prod.case] by (auto simp only: bind_res_Inr_iff split_paired_Ex)
    have "np.more s1 = np.more s" using plan plan_number_more by (auto split: option.splits)
    note m = multi_more [OF this]
    have "line_acts s1 p"
      using multi_redirected_acts rest [unfolded pieces bind_res_simps prod.case plan] by metis
    then show ?thesis by (rule line_acts_same) (simp_all add: m)
  qed
qed (use assms in \<open>auto simp: multi_do_exec_def\<close>)

section \<open>Properties\<close>

text \<open>
  C8. The processes keep to the chat: whatever line a user's process executes, with its programs, numbered
  pipes and FIFOs and whatever the kernel and the allocator answer, the shared memory goes through steps of
  \<open>room_step\<close>, so that what holds in every run of the chat holds of the program; the user keeps its place,
  and after an \<open>exit\<close> the place is free.
\<close>

theorem multi_refines_room:
  assumes "room_step\<^sup>*\<^sup>* room_init (room_of s)" "me s < 30" "0 < cl_id (client_at (me s) s)"
    and "multi_do_exec w old line s = Inr p"
  shows "case p of
      Goes_On s' \<Rightarrow> room_step\<^sup>*\<^sup>* room_init (room_of s') \<and> me s' = me s \<and> pid_of (room_of s') = pid_of (room_of s)
    | Exits s' \<Rightarrow> room_step\<^sup>*\<^sup>* room_init (room_of s')
        \<and> (cl_pid (client_at (me s) s) = own_pid s \<longrightarrow> pid_of (room_of s') = (pid_of (room_of s))(me s := 0))"
proof -
  have ok: "room_ok (room_of s)" by (rule room_reach_ok [OF assms(1)])
  then have home: "at_home s" using assms(2,3) by (simp add: at_home_def room_ok_def)
  have act: "room_step\<^sup>*\<^sup>* room_init (room_of t) \<and> me t = me s \<and> own_pid t = own_pid s
      \<and> pid_of (room_of t) = pid_of (room_of s) \<and> at_home t \<and> cl_pid (client_at (me s) t) = cl_pid (client_at (me s) s)"
    if "acts s t" for t
  proof -
    have t: "same_users (room_of s) (room_of t)" "room_step\<^sup>*\<^sup>* (room_of s) (room_of t)" "me t = me s" "own_pid t = own_pid s"
      using that home by (simp_all add: acts_def)
    then show ?thesis
      using assms(1) same_users_pid [OF t(1)] acts_home [OF that home] home
      by (auto simp: at_home_def client_at_def same_users_def intro: rtranclp_trans)
  qed
  have line: "line_acts s p" by (rule multi_do_exec_acts [OF assms(4)])
  show ?thesis
  proof (cases p)
    case (Goes_On s')
    then have "acts s s'" using line by simp
    from act [OF this] show ?thesis using Goes_On by simp
  next
    case (Exits s')
    then obtain t where t: "acts s t" "if cl_pid (client_at (me t) t) = own_pid t
        then room_of s' = rm_user (me t) (room_of t) else room_of s' = room_of t"
      using line by (auto simp: line_acts_def)
    note a = act [OF t(1)]
    have okt: "room_ok (room_of t)" by (rule room_reach_ok) (use a in blast)
    have "room_step (room_of t) (rm_user (me t) (room_of t))"
      using a by (intro room_step.leaves) (auto simp: at_home_def client_at_def)
    moreover have "pid_of (rm_user (me s) (room_of t)) = (pid_of (room_of s))(me s := 0)"
      using rm_user_ok(2) [OF okt assms(2)] a by simp
    moreover have "room_of s' = (if cl_pid (client_at (me s) s) = own_pid s then rm_user (me s) (room_of t) else room_of t)"
      using t(2) a by simp
    ultimately show ?thesis using Exits a by (auto intro: rtranclp.rtrancl_into_rtrancl)
  qed
qed

lemma multi_start_fields [simp]:
  "room_of (multi_start c pid tables files room) = room" "me (multi_start c pid tables files room) = c"
  "own_pid (multi_start c pid tables files room) = pid" "menviron (multi_start c pid tables files room) = [Live ''PATH=bin:.'']"
  "others (multi_start c pid tables files room) = tables" "fifo_files (multi_start c pid tables files room) = files"
  "np_fds (multi_start c pid tables files room) = [Some (Sock 0), Some (Sock 0), Some (Sock 0), None, Some (Sock 0)]"
  by (simp_all add: multi_start_def)

theorem multi_refines_room_witness:
  "\<exists>s s'. at_home s \<and> multi_do_exec zero_kernel [] ''who'' s = Inr (Goes_On s') \<and> room_step\<^sup>*\<^sup>* room_init (room_of s')"
proof -
  obtain room where room: "room_step\<^sup>*\<^sup>* room_init room" "0 < cl_id (shm room ! 0)" using first_client by blast
  let ?s = "multi_start 0 7 (\<lambda>c. []) [] room"
  have home: "at_home ?s" using room room_reach_typed [OF room(1)] by (simp add: at_home_def client_at_def room_typed_def)
  have "split_pipe ''who'' = Inr [''who'']" by (simp add: split_pipe_def split_at_def tokens_eval)
  moreover have "multi_receive ''who'' ?s = Inr (Some (0, 0), ?s)" "multi_send zero_kernel ''who'' ?s = Inr (Some 0, ?s)"
    by (simp_all add: multi_receive_def multi_send_def from_user_def to_user_def)
  moreover have "multi_builtin [] ''who'' ?s = Some (Inr (Goes_On (on_room (multi_who 0) ?s)))"
    by (simp add: multi_builtin_def contains_def Let_def)
  ultimately have "multi_do_exec zero_kernel [] ''who'' ?s = Inr (Goes_On (on_room (multi_who 0) ?s))"
    by (simp add: multi_do_exec_def no_error_mark pipe_number_def multi_redirected_def multi_commands_def multi_finish_def)
  then show ?thesis
    using multi_refines_room [of ?s zero_kernel "[]" "''who''"] home room by (fastforce simp: client_at_def)
qed

text \<open>
  C30. No line is ever executed: the loop zeroes its buffer and leaves the line in \<open>str\<close>. The first line
  makes it write in front of the array, and even where that does no harm, any lines at all only bring as
  many prompts.
\<close>

theorem typed_lines_are_lost:
  "multi_serve w old (\<lambda>s. Inl Out_Of_Bounds) (str # later) s = Inl Out_Of_Bounds
   \<and> multi_serve w old Inr lines s = Inr (Goes_On ((printed ''% '' ^^ length lines) s))"
proof -
  have none: "takeWhile (\<lambda>c. c \<noteq> nul) (replicate 20000 nul) = []"
    using hd_replicate [of 20000 nul] by (simp only: takeWhile_eq_Nil_iff) simp
  have "multi_serve w old Inr lines s = Inr (Goes_On ((printed ''% '' ^^ length lines) s))"
    by (induction lines arbitrary: s) (simp_all add: none multi_do_exec_def funpow_swap1)
  then show ?thesis by (simp add: none)
qed

section \<open>A pipe between two users\<close>

lemma announce_fields [simp]:
  "np_fds (announce msg s) = np_fds s" "others (announce msg s) = others s" "me (announce msg s) = me s"
  "fifo_files (announce msg s) = fifo_files s" "fifo_at c k (announce msg s) = fifo_at c k s"
  "cl_id (client_at c (announce msg s)) = cl_id (client_at c s)" "own_pid (announce msg s) = own_pid s"
  "length (shm (room_of (announce msg s))) = length (shm (room_of s))"
  by (simp_all add: announce_def fifo_at_def client_at_def)

lemma put_fds_fields [simp]:
  "room_of (put_fds c t s) = room_of s" "me (put_fds c t s) = me s" "fifo_files (put_fds c t s) = fifo_files s"
  "fifo_at d k (put_fds c t s) = fifo_at d k s" "client_at d (put_fds c t s) = client_at d s"
  by (simp_all add: put_fds_def fifo_at_def client_at_def)

lemma fifo_at_set:
  assumes "c < length (shm (room_of s))" "k < length (cl_fifo (client_at c s))"
  shows "fifo_at d j (on_room (set_fifo c k f) s) = (if d = c \<and> j = k then f else fifo_at d j s)"
  using assms by (auto simp: fifo_at_def client_at_def set_fifo_def nth_list_update)

lemma client_at_set: "cl_id (client_at d (on_room (set_fifo c k f) s)) = cl_id (client_at d s)"
  by (cases "c < length (shm (room_of s))")
    (auto simp: client_at_def set_fifo_def nth_list_update list_update_beyond)

lemma fold_skip: "(\<And>x. x \<in> set xs \<Longrightarrow> f x s = s) \<Longrightarrow> fold f xs s = s"
  by (induction xs) simp_all

lemma open_fifo_skip: "fifo_fd (fifo_at c k s) \<noteq> 0 \<or> fifo_name (fifo_at c k s) = [] \<Longrightarrow> open_fifo w c k s = s"
  by (auto simp: open_fifo_def Let_def)

text \<open>The handler of \<open>SIGUSR2\<close>, when one entry is new.\<close>

lemma on_usr2_one:
  assumes "c < length (shm (room_of s))" "length (cl_fifo (client_at c s)) = 30" "k < 30"
    and "fifo_at c k s = \<lparr>fifo_fd = 0, fifo_name = path\<rparr>" "path \<noteq> []" "path \<in> set (fifo_files s)"
    and "lowest_free (fds_of c s) < np_limit w"
    and "\<forall>j < 30. j \<noteq> k \<longrightarrow> fifo_fd (fifo_at c j s) \<noteq> 0 \<or> fifo_name (fifo_at c j s) = []"
  shows "on_usr2 w c s = put_fds c (fd_put (fds_of c s) (lowest_free (fds_of c s)) (Fifo_Read path))
    (on_room (set_fifo c k \<lparr>fifo_fd = int (lowest_free (fds_of c s)), fifo_name = path\<rparr>) s)"
proof -
  let ?t = "put_fds c (fd_put (fds_of c s) (lowest_free (fds_of c s)) (Fifo_Read path))
    (on_room (set_fifo c k \<lparr>fifo_fd = int (lowest_free (fds_of c s)), fifo_name = path\<rparr>) s)"
  have parts: "[0..<30] = [0..<k] @ k # [Suc k..<30]" using upt_add_eq_append [of 0 k "30 - k"] assms(3) upt_conv_Cons [of k 30] by simp
  have before: "fold (open_fifo w c) [0..<k] s = s" using assms(3,8) by (intro fold_skip open_fifo_skip) simp
  have here: "open_fifo w c k s = ?t" using assms(4-7) by (simp add: open_fifo_def Let_def)
  have "fifo_at c j ?t = fifo_at c j s" if "j \<noteq> k" for j using fifo_at_set assms(1-3) that by simp
  then have "fold (open_fifo w c) [Suc k..<30] ?t = ?t" using assms(8) by (intro fold_skip open_fifo_skip) auto
  then show ?thesis unfolding on_usr2_def parts by (simp add: before here)
qed

text \<open>What \<open>make_fifo\<close> does when both sides can open.\<close>

lemma make_fifo_works:
  assumes "length (shm (room_of s)) = 30" "r < 30" "length (cl_fifo (client_at r s)) = 30" "me s < 30" "r \<noteq> me s"
    and "path \<noteq> []" "lowest_free (others s r) < np_limit w" "lowest_free (np_fds s) < np_limit w"
    and "\<forall>j < 30. j \<noteq> me s \<longrightarrow> fifo_fd (fifo_at r j s) \<noteq> 0 \<or> fifo_name (fifo_at r j s) = []"
  shows "\<exists>s'. make_fifo w r path s = Inr (int (lowest_free (np_fds s)), s') \<and> me s' = me s
    \<and> np_fds s' = fd_put (np_fds s) (lowest_free (np_fds s)) (Fifo_Write path)
    \<and> others s' r = fd_put (others s r) (lowest_free (others s r)) (Fifo_Read path)
    \<and> fifo_at r (me s) s' = \<lparr>fifo_fd = int (lowest_free (others s r)), fifo_name = path\<rparr>
    \<and> fifo_files s' = path # fifo_files s \<and> (\<forall>d. cl_id (client_at d s') = cl_id (client_at d s))
    \<and> length (shm (room_of s')) = 30 \<and> length (cl_fifo (client_at r s')) = 30"
proof -
  let ?s1 = "on_room (set_fifo r (me s) \<lparr>fifo_fd = 0, fifo_name = path\<rparr>) (s\<lparr>fifo_files := path # fifo_files s\<rparr>)"
  have base: "client_at d (s\<lparr>fifo_files := path # fifo_files s\<rparr>) = client_at d s"
    "fifo_at d k (s\<lparr>fifo_files := path # fifo_files s\<rparr>) = fifo_at d k s" for d k
    by (simp_all add: client_at_def fifo_at_def)
  have at: "fifo_at d k ?s1 = (if d = r \<and> k = me s then \<lparr>fifo_fd = 0, fifo_name = path\<rparr> else fifo_at d k s)" for d k
    using assms(1-4) base by (subst fifo_at_set) simp_all
  have size: "length (shm (room_of ?s1)) = 30" "length (cl_fifo (client_at r ?s1)) = 30"
    using assms(1-3) by (simp_all add: set_fifo_def client_at_def)
  have fds: "fds_of r ?s1 = others s r" using assms(5) by (simp add: fds_of_def)
  let ?s2 = "put_fds r (fd_put (others s r) (lowest_free (others s r)) (Fifo_Read path))
    (on_room (set_fifo r (me s) \<lparr>fifo_fd = int (lowest_free (others s r)), fifo_name = path\<rparr>) ?s1)"
  have "on_usr2 w r ?s1 = ?s2"
    using on_usr2_one [of r ?s1 "me s" path w] assms(2,4,6,7,9) size at fds by simp
  moreover have "np_fds ?s2 = np_fds s" "others ?s2 r = fd_put (others s r) (lowest_free (others s r)) (Fifo_Read path)"
    using assms(5) by (simp_all add: put_fds_def)
  moreover have "fifo_at r (me s) ?s2 = \<lparr>fifo_fd = int (lowest_free (others s r)), fifo_name = path\<rparr>"
    using fifo_at_set [of r ?s1 "me s"] size assms(2,4) by simp
  moreover have "cl_id (client_at d ?s2) = cl_id (client_at d s)" for d by (simp add: client_at_set base)
  moreover have "length (shm (room_of ?s2)) = 30" "length (cl_fifo (client_at r ?s2)) = 30"
    using size assms(2) by (simp_all add: set_fifo_def client_at_def)
  ultimately show ?thesis
    using assms(8) by (simp add: make_fifo_def Let_def fifo_at_def client_at_def)
qed

lemma room_typed_client: "room_typed (room_of s) \<Longrightarrow> c < 30 \<Longrightarrow> client_typed c (client_at c s)"
  by (simp add: room_typed_def client_at_def)

lemma fifo_path_nonempty: "fifo_path i j \<noteq> []"
  by (simp add: fifo_path_def)

text \<open>A user is free to take in what came through a FIFO, and the FIFO is gone then.\<close>

lemma multi_receive_works:
  assumes "room_typed (room_of t)" "me t < 30" "k < 30" "0 < cl_id (client_at k t)"
    and "from_user line" "user_number CHR ''<'' line = Inr (int k + 1)"
    and "fifo_at (me t) k t = \<lparr>fifo_fd = fd, fifo_name = path\<rparr>" "fd \<noteq> 0"
    and "length (multi_received_line (client_at (me t) t) (client_at k t) line) < 1025"
  shows "\<exists>t'. multi_receive line t = Inr (Some (fd, k), t')
    \<and> fifo_at (me t) k (multi_finish upo fd k t') = no_fifo \<and> path \<notin> set (fifo_files (multi_finish upo fd k t'))"
proof -
  let ?t = "announce (multi_received_line (client_at (me t) t) (client_at k t) line) t"
  have receive: "multi_receive line t = Inr (Some (fd, k), ?t)"
    using assms(3-9) by (auto simp: multi_receive_def Let_def fifo_at_def)
  let ?u = "if upo \<noteq> 0 then shut upo ?t else ?t"
  have u: "fifo_at d j ?u = fifo_at d j t" "me ?u = me t" "room_of ?u = room_of ?t" "fifo_files ?u = fifo_files t" for d j
    by (simp_all add: shut_def announce_def fifo_at_def client_at_def)
  have "length (cl_fifo (client_at (me t) t)) = 30" "length (shm (room_of t)) = 30"
    using room_typed_client [OF assms(1,2)] assms(1) by (simp_all add: client_typed_def room_typed_def)
  then have free: "fifo_at (me t) k (drop_fifo k ?u) = no_fifo"
    using assms(2,3) u by (simp add: drop_fifo_def fifo_at_def client_at_def set_fifo_def announce_def)
  have gone: "path \<notin> set (fifo_files (drop_fifo k ?u))"
    using u assms(7) by (auto simp: drop_fifo_def)
  have "multi_finish upo fd k ?t = drop_fifo k ?u"
    using u(1,2) assms(7,8) by (simp add: multi_finish_def Let_def)
  then show ?thesis using receive free gone by (intro exI [of _ ?t]) simp
qed


text \<open>Two users at the first two places.\<close>

definition two_users :: room where
  "two_users = room_init\<lparr>shm := (replicate 30 blank_client)[0 := blank_client\<lparr>cl_id := 1, cl_pid := 7\<rparr>,
     1 := blank_client\<lparr>cl_id := 2, cl_pid := 8\<rparr>]\<rparr>"

lemma two_users_typed: "room_typed two_users"
proof -
  have "client_typed c ((replicate 30 blank_client)[0 := blank_client\<lparr>cl_id := 1, cl_pid := 7\<rparr>,
     1 := blank_client\<lparr>cl_id := 2, cl_pid := 8\<rparr>] ! c)" if "c < 30" for c
    using that by (auto simp: nth_list_update client_typed_def blank_client_def)
  then show ?thesis by (simp add: room_typed_def two_users_def)
qed

lemma two_users_clients:
  "shm two_users ! 0 = blank_client\<lparr>cl_id := 1, cl_pid := 7\<rparr>" "shm two_users ! 1 = blank_client\<lparr>cl_id := 2, cl_pid := 8\<rparr>"
  by (simp_all add: two_users_def)

lemma no_fifos: "j < 30 \<Longrightarrow> cl_fifo blank_client ! j = \<lparr>fifo_fd = 0, fifo_name = []\<rparr>"
  by (simp add: blank_client_def)


section \<open>Joined pipes\<close>

lemma multi_wire_joined:
  assumes "fd_get t u = Some e" "2 < u"
  shows "fd_get (multi_wire first False 1 enter err input (int u) wr t) 1 = Some e"
    "fd_get (multi_wire first False 1 enter err input (int u) wr t) 2 = Some e"
proof -
  define t1 where "t1 = (if first \<and> input = 0 then dup2 wr 1 t
    else if input \<noteq> 0 then dup2 wr 1 (dup2_int input 0 t) else dup2_int input 0 t)"
  define t2 where "t2 = (if err then dup2 wr 2 t1 else t1)"
  define t3 where "t3 = dup2 u 2 (dup2 u 1 t2)"
  have wire: "multi_wire first False 1 enter err input (int u) wr t = (if enter then dup2_int input 0 t3 else t3)"
    using assms(2) by (simp add: multi_wire_def Let_def t1_def t2_def t3_def)
  have "fd_get t1 u = Some e" using assms by (simp add: t1_def fd_get_dup2_other fd_get_dup2_int_other)
  then have "fd_get t2 u = Some e" using assms(2) by (simp add: t2_def fd_get_dup2_other)
  then have "fd_get t3 1 = Some e" "fd_get t3 2 = Some e" using assms(2) by (simp_all add: t3_def fd_get_dup2)
  then show "fd_get (multi_wire first False 1 enter err input (int u) wr t) 1 = Some e"
    "fd_get (multi_wire first False 1 enter err input (int u) wr t) 2 = Some e"
    unfolding wire by (simp_all add: fd_get_dup2_int_other)
qed

text \<open>
  In a line that joins a numbered pipe (with a \<open>|n\<close> for which an earlier line has made the pipe) every
  stage writes to the joined pipe: also a stage before the last has its output and its errors there and
  not in its own pipe, so that the next stage reads nothing of it.
\<close>

theorem joined_pipe_takes_every_stage:
  assumes "multi_stage w waiting err (int u) upi upo input first False enter 1 cmd s = Inr (d, s')"
    and "2 < u" "fd_get (np_fds s) u = Some e" "CHR ''<'' \<notin> set cmd" "CHR ''>'' \<notin> set cmd"
  shows "\<exists>kid. kids s' = kids s @ [kid]
    \<and> (\<forall>ch. kid = Runs ch \<longrightarrow> fd_get (ch_fds ch) 1 = Some e \<and> fd_get (ch_fds ch) 2 = Some e)"
proof -
  obtain r s1 where p: "start_command (w\<lparr>np_forks := \<lambda>n. True\<rparr>) (getenv ''PATH'' (menviron s))
      (multi_kid w cmd first False 1 enter err input (int u)) False input cmd s = Inr ((r, d), s1)"
    "kids s' = kids s1"
    using assms(1) by (auto simp: multi_stage_def multi_parser_def bind_res_Inr_iff)
  from start_command_Inr [OF p(1)] obtain ops ds wr s2 where k: "np_pipe (w\<lparr>np_forks := \<lambda>n. True\<rparr>) s = Inr ((r, wr), s2)"
    "kids s1 = kids s @ [multi_kid w cmd first False 1 enter err input (int u) (r, wr) ops ds (np_fds s2)]"
    by (auto simp del: split_paired_Ex)
  let ?t = "multi_wire first False 1 enter err input (int u) wr (np_fds s2)"
  note ends = np_pipe_ends [OF k(1)]
  have "u \<noteq> r" "u \<noteq> wr" using ends(2,3) assms(3) by auto
  then have "fd_get (np_fds s2) u = Some e" using ends(1) assms(3) by simp
  then have wire: "fd_get ?t 1 = Some e" "fd_get ?t 2 = Some e" using multi_wire_joined [OF _ assms(2)] by auto
  have "ch_fds ch = ?t" if "multi_kid w cmd first False 1 enter err input (int u) (r, wr) ops ds (np_fds s2) = Runs ch" for ch
    using that assms(4,5)
    by (auto simp: multi_kid_def multi_input_cut_def multi_output_cut_def from_user_def single_exec_def Let_def
        split: list.splits option.splits if_splits)
  then show ?thesis using p(2) k(2) wire by auto
qed

text \<open>A call of \<open>parser\<close> works as long as there are two free descriptors.\<close>

lemma multi_stage_works:
  assumes "split_space c = Inr ops" "menviron s = [Live ''PATH=bin:.'']" "length (np_fds s) + 2 \<le> np_limit w"
  shows "\<exists>d s'. multi_stage w waiting err out upi upo input first final enter gi c s = Inr (d, s')"
proof -
  obtain r wr t where "np_pipe (w\<lparr>np_forks := \<lambda>n. True\<rparr>) s = Inr ((r, wr), s\<lparr>np_fds := t, np_pipes := Suc (np_pipes s)\<rparr>)"
    using np_pipe_works [of s "w\<lparr>np_forks := \<lambda>n. True\<rparr>"] assms(3) by auto
  then show ?thesis
    using assms(1,2) PATH_first by (simp add: multi_stage_def multi_parser_def start_command_def Let_def)
qed

theorem joined_pipe_takes_every_stage_witness:
  "\<exists>s d s' kid. fd_get (np_fds s) 5 = Some (Pipe_Write 9)
    \<and> multi_stage zero_kernel False False (int 5) 0 0 0 True False False 1 ''ls'' s = Inr (d, s') \<and> kids s' = kids s @ [kid]
    \<and> (\<forall>ch. kid = Runs ch \<longrightarrow> fd_get (ch_fds ch) 1 = Some (Pipe_Write 9))"
proof -
  let ?s = "(multi_start 0 7 (\<lambda>c. []) [] room_init)\<lparr>np_fds :=
    [Some (Sock 0), Some (Sock 0), Some (Sock 0), None, Some (Sock 0), Some (Pipe_Write 9)]\<rparr>"
  have "menviron ?s = [Live ''PATH=bin:.'']" "length (np_fds ?s) + 2 \<le> np_limit zero_kernel"
    by (simp_all add: zero_kernel_def multi_start_def)
  from multi_stage_works [OF ls_facts(3) this] obtain d s' where
    s': "multi_stage zero_kernel False False (int 5) 0 0 0 True False False 1 ''ls'' ?s = Inr (d, s')" by blast
  have "fd_get (np_fds ?s) 5 = Some (Pipe_Write 9)" by (simp add: fd_get_def)
  then show ?thesis using joined_pipe_takes_every_stage [OF s', of "Pipe_Write 9"] s' by fastforce
qed

end
