(* ===== verification/Socks_Session.thy ===== *)
theory Socks_Session
  imports Prelude
begin

text \<open>
  The \<open>session\<close> class of \<open>project4/socks_server.cpp\<close>: one SOCKS4/4A request is read into
  \<open>data_\<close>, parsed, checked against \<open>socks.conf\<close> and answered. The name resolver is the
  library's: a parameter \<open>resolve\<close> that maps a host and a port to the textual address of the
  first endpoint, or \<open>None\<close> when \<open>resolve()\<close> throws. The lines of \<open>socks.conf\<close> are a
  parameter too; a missing file has none.
\<close>

type_synonym resolver = "string \<Rightarrow> string \<Rightarrow> string option"

section \<open>Data\<close>

text \<open>The entries of the map \<open>socks_info\<close>, whose keys are fixed strings.\<close>

record socks_info =
  SRCIP :: string
  SRCPORT :: string
  CD :: string
  DSTPORT :: string
  DSTIP :: string
  USERID :: string
  DOMAIN_NAME :: string

definition session_init :: "string \<Rightarrow> nat \<Rightarrow> socks_info" where
  "session_init ip port =
     \<lparr>SRCIP = ip, SRCPORT = nat_str port, CD = [], DSTPORT = [], DSTIP = [], USERID = [],
      DOMAIN_NAME = []\<rparr>"

text \<open>\<open>to_string\<close> of an \<open>unsigned char\<close>, and of four of them with dots between.\<close>

definition byte_str :: "byte \<Rightarrow> string" where
  "byte_str b = nat_str (unat b)"

definition dotted :: "byte \<Rightarrow> byte \<Rightarrow> byte \<Rightarrow> byte \<Rightarrow> string" where
  "dotted a b c d =
     byte_str a @ ''.'' @ byte_str b @ ''.'' @ byte_str c @ ''.'' @ byte_str d"

section \<open>slicer\<close>

definition slicer :: "string \<Rightarrow> string \<Rightarrow> (string \<times> string) res" where
  "slicer s del =
     (case find_sub del s of
        Some pos \<Rightarrow> Inr (take pos s, drop (pos + length del) s)
      | None \<Rightarrow> bind_res (substr_from s (length del - 1)) (\<lambda>_. Inr (s, [])))"

interpretation slicer: field_slicer slicer
  by unfold_locales (simp add: slicer_def)

lemma slicer_char_absent: "c \<notin> set s \<Longrightarrow> slicer s [c] = Inr (s, [])"
  by (simp add: slicer_def substr_from_def)

lemma slicer_char_total:
  obtains x r where "slicer s [c] = Inr (x, r)" "length r \<le> length s" "r \<noteq> [] \<Longrightarrow> length r < length s"
proof (cases rule: find_sub_char_cases [of s c])
  case (found a b)
  with that [of a b] show ?thesis by (simp add: slicer.slice_field)
next
  case absent
  with that [of s "[]"] show ?thesis by (simp add: slicer_char_absent)
qed

section \<open>SOCKS4\_parser\<close>

definition SOCKS4_parser :: "resolver \<Rightarrow> byte list \<Rightarrow> socks_info \<Rightarrow> socks_info res" where
  "SOCKS4_parser resolve data si =
     (case data of
        vn # cd # p1 # p2 # a # b # c # d # tail \<Rightarrow>
          bind_res (read_cstr tail) (\<lambda>(userid, tail').
          bind_res (read_cstr tail') (\<lambda>(domain, _).
            let port = nat_str (unat p1 * 256 + unat p2);
                host = (if domain = [] then dotted a b c d else domain)
            in case resolve host port of
                 None \<Rightarrow> Inl System_Error
               | Some ip \<Rightarrow>
                   Inr (si\<lparr>CD := byte_str cd, DSTPORT := port, USERID := userid,
                           DOMAIN_NAME := domain, DSTIP := ip\<rparr>)))
      | _ \<Rightarrow> Inl Out_Of_Bounds)"

section \<open>The firewall\<close>

text \<open>
  The loop of \<open>match_IP\<close> on \<open>cmp_A\<close>, \<open>_str\<close>, \<open>cmp_B\<close>, \<open>allow_IP\<close> and \<open>i\<close>: the body runs while
  the two components agree or the rule's is a star, and breaks out when either rest is empty.
\<close>

function match_loop :: "string \<Rightarrow> string \<Rightarrow> string \<Rightarrow> string \<Rightarrow> nat \<Rightarrow> bool res" where
  "match_loop cmp_A str cmp_B allow i =
     (if cmp_A = cmp_B \<or> cmp_B = ''*'' then
        bind_res (slicer str ''.'') (\<lambda>(cmp_A', str').
        bind_res (slicer allow ''.'') (\<lambda>(cmp_B', allow').
          if str' = [] \<or> allow' = [] then Inr (Suc i = 4)
          else match_loop cmp_A' str' cmp_B' allow' (Suc i)))
      else Inr (i = 4))"
  by pat_completeness auto
termination
proof (relation "measure (\<lambda>(a, str, b, allow, i). length str)", goal_cases)
  case (2 cmp_A str cmp_B allow i xa cmp_A' str' x cmp_B' allow')
  then show ?case
    by (cases rule: slicer_char_total [of str "CHR ''.''"]) auto
qed simp

declare match_loop.simps [simp del]

definition match_IP :: "socks_info \<Rightarrow> string \<Rightarrow> bool res" where
  "match_IP si allow_IP =
     bind_res (slicer (DSTIP si) ''.'') (\<lambda>(cmp_A, str).
     bind_res (slicer allow_IP ''.'') (\<lambda>(cmp_B, allow).
       match_loop cmp_A str cmp_B allow 1))"

fun firewall_loop :: "socks_info \<Rightarrow> string list \<Rightarrow> bool res" where
  "firewall_loop si [] = Inr False"
| "firewall_loop si (config # rest) =
     bind_res (slicer config '' '') (\<lambda>(_, config1).
     bind_res (slicer config1 '' '') (\<lambda>(allow_method, config2).
     bind_res (slicer config2 '' '') (\<lambda>(allow_IP, _).
       if (allow_method = ''c'' \<and> CD si = ''1'') \<or> (allow_method = ''b'' \<and> CD si = ''2'')
       then bind_res (match_IP si allow_IP)
              (\<lambda>m. if m then Inr True else firewall_loop si rest)
       else firewall_loop si rest)))"

text \<open>\<open>ifstream socks_conf("./socks.conf")\<close>: a file that does not open yields no line.\<close>

definition firewall :: "string option \<Rightarrow> socks_info \<Rightarrow> bool res" where
  "firewall socks_conf si =
     firewall_loop si (case socks_conf of None \<Rightarrow> [] | Some text \<Rightarrow> getlines text)"

section \<open>reply\_info and do\_work\<close>

definition reply_info :: "socks_info \<Rightarrow> bool \<Rightarrow> string" where
  "reply_info si result =
     unlines [''<S_IP>: '' @ SRCIP si, ''<S_PORT>: '' @ SRCPORT si,
              ''<D_IP>: '' @ DSTIP si, ''<D_PORT>: '' @ DSTPORT si,
              ''<Command>: '' @ (if CD si = ''2'' then ''BIND'' else ''CONNECT''),
              ''<Reply>: '' @ (if result then ''Accept'' else ''Reject''), []]"

text \<open>
  What \<open>do_work\<close> starts: a reject reply, after which the socket is closed, a
  \<open>socks_bridge\<close>, a \<open>socks_bind\<close>, or nothing at all.
\<close>

datatype socks_action =
    Send_Reject "byte list"
  | Start_Bridge string string "byte list"
  | Start_Bind "byte list"
  | No_Action

text \<open>The first character of \<open>CD\<close>; \<open>operator[]\<close> at \<open>size()\<close> is the NUL.\<close>

definition first_char :: "string \<Rightarrow> char" where
  "first_char s = (case s of [] \<Rightarrow> nul | c # _ \<Rightarrow> c)"

definition do_work :: "string option \<Rightarrow> socks_info \<Rightarrow> (string \<times> socks_action) res" where
  "do_work socks_conf si =
     bind_res (stoi (DSTPORT si)) (\<lambda>p.
       let port = (word_of_int p :: 16 word);
           hi = (of_nat (unat port div 256) :: byte);
           lo = (of_nat (unat port mod 256) :: byte)
       in bind_res (firewall socks_conf si) (\<lambda>ok.
            if \<not> ok
            then Inr (reply_info si False, Send_Reject [4, 91, hi, lo, 0, 0, 0, 0])
            else
              (let socksrpy = [0, 90, hi, lo, 0, 0, 0, 0]
               in Inr (reply_info si True,
                       if first_char (CD si) = CHR ''1''
                       then Start_Bridge (DSTIP si) (DSTPORT si) socksrpy
                       else if first_char (CD si) = CHR ''2''
                       then Start_Bind socksrpy
                       else No_Action))))"

text \<open>
  The completion of the first read: the received bytes are in \<open>data_\<close> (1024 bytes, the rest as
  the memory was), and \<open>length\<close> is not looked at.
\<close>

definition session_on_read ::
    "resolver \<Rightarrow> string option \<Rightarrow> byte list \<Rightarrow> byte list \<Rightarrow> socks_info
       \<Rightarrow> (string \<times> socks_action) res" where
  "session_on_read resolve socks_conf old received si =
     bind_res (SOCKS4_parser resolve (received_into old received) si) (do_work socks_conf)"

section \<open>Lemmas\<close>

lemmas slice_simps = slicer.slice_field slicer_char_absent

text \<open>The firewall always answers: every cut it makes is at a single character.\<close>

lemma match_loop_total: "\<exists>b. match_loop cmp_A str cmp_B allow i = Inr b"
proof (induction cmp_A str cmp_B allow i rule: match_loop.induct)
  case (1 cmp_A str cmp_B allow i)
  show ?case
    by (cases rule: slicer_char_total [of str "CHR ''.''"];
        cases rule: slicer_char_total [of allow "CHR ''.''"])
       (use 1 in \<open>auto simp: match_loop.simps [of cmp_A str cmp_B allow i]\<close>)
qed

lemma match_IP_total: "\<exists>b. match_IP si allow_IP = Inr b"
  by (cases rule: slicer_char_total [of "DSTIP si" "CHR ''.''"];
      cases rule: slicer_char_total [of allow_IP "CHR ''.''"])
     (auto simp: match_IP_def match_loop_total)

lemma firewall_loop_total: "\<exists>b. firewall_loop si lines = Inr b"
proof (induction lines)
  case Nil
  show ?case by (rule exI [of _ False]) simp
next
  case (Cons l ls)
  obtain x1 r1 where 1: "slicer l '' '' = Inr (x1, r1)"
    by (rule slicer_char_total [of l "CHR '' ''"])
  obtain x2 r2 where 2: "slicer r1 '' '' = Inr (x2, r2)"
    by (rule slicer_char_total [of r1 "CHR '' ''"])
  obtain x3 r3 where 3: "slicer r2 '' '' = Inr (x3, r3)"
    by (rule slicer_char_total [of r2 "CHR '' ''"])
  from match_IP_total [of si x3] Cons 1 2 3 show ?case by auto
qed

lemma firewall_total: "\<exists>b. firewall conf si = Inr b"
  by (simp add: firewall_def firewall_loop_total)

text \<open>On dotted quads \<open>match_IP\<close> compares three components.\<close>

definition octet_match :: "string \<Rightarrow> string \<Rightarrow> bool" where
  "octet_match x rule \<longleftrightarrow> x = rule \<or> rule = ''*''"

lemma match_IP_quad:
  assumes "CHR ''.'' \<notin> set a" "CHR ''.'' \<notin> set b" "CHR ''.'' \<notin> set c" "CHR ''.'' \<notin> set d" "d \<noteq> []"
    and "CHR ''.'' \<notin> set p" "CHR ''.'' \<notin> set q" "CHR ''.'' \<notin> set r" "CHR ''.'' \<notin> set s" "s \<noteq> []"
    and "DSTIP si = a @ ''.'' @ b @ ''.'' @ c @ ''.'' @ d"
  shows "match_IP si (p @ ''.'' @ q @ ''.'' @ r @ ''.'' @ s)
           = Inr (octet_match a p \<and> octet_match b q \<and> octet_match c r)"
proof -
  have 3: "match_loop c d r s 3 = Inr (octet_match c r)"
    using assms by (simp add: match_loop.simps [of c] slice_simps octet_match_def)
  have 2: "match_loop b (c @ ''.'' @ d) q (r @ ''.'' @ s) 2 = Inr (octet_match b q \<and> octet_match c r)"
    using assms 3
    by (simp add: match_loop.simps [of b] slice_simps octet_match_def eval_nat_numeral)
  show ?thesis
    using assms 2
    by (simp add: match_IP_def match_loop.simps [of a] slice_simps octet_match_def eval_nat_numeral)
qed

text \<open>
  What a line of \<open>socks.conf\<close> says: a first word, the method, and four octet patterns. The rule
  list is read as a disjunction; the first word and the fourth pattern are not looked at.
\<close>

datatype fw_rule = Fw_Rule (keyword: string) (fw_method: string)
  (oct1: string) (oct2: string) (oct3: string) (oct4: string)

definition show_rule :: "fw_rule \<Rightarrow> string" where
  "show_rule rl = keyword rl @ '' '' @ fw_method rl @ '' '' @
     oct1 rl @ ''.'' @ oct2 rl @ ''.'' @ oct3 rl @ ''.'' @ oct4 rl"

definition word_ok :: "string \<Rightarrow> bool" where
  "word_ok w \<longleftrightarrow> CHR '' '' \<notin> set w \<and> newline \<notin> set w"

definition octet_ok :: "string \<Rightarrow> bool" where
  "octet_ok w \<longleftrightarrow> w \<noteq> [] \<and> CHR ''.'' \<notin> set w \<and> word_ok w"

fun rule_ok :: "fw_rule \<Rightarrow> bool" where
  "rule_ok (Fw_Rule k m p q r s) \<longleftrightarrow>
     word_ok k \<and> word_ok m \<and> octet_ok p \<and> octet_ok q \<and> octet_ok r \<and> octet_ok s"

definition method_allows :: "string \<Rightarrow> string \<Rightarrow> bool" where
  "method_allows m cd \<longleftrightarrow> (m = ''c'' \<and> cd = ''1'') \<or> (m = ''b'' \<and> cd = ''2'')"

fun rule_allows :: "string \<Rightarrow> string \<Rightarrow> string \<Rightarrow> string \<Rightarrow> fw_rule \<Rightarrow> bool" where
  "rule_allows cd a b c (Fw_Rule k m p q r s) \<longleftrightarrow>
     method_allows m cd \<and> octet_match a p \<and> octet_match b q \<and> octet_match c r"

lemma firewall_loop_rule:
  assumes "rule_ok rl" and "octet_ok a" "octet_ok b" "octet_ok c" "octet_ok d"
    and ip: "DSTIP si = a @ ''.'' @ b @ ''.'' @ c @ ''.'' @ d"
  shows "firewall_loop si (show_rule rl # rest) =
           (if rule_allows (CD si) a b c rl then Inr True else firewall_loop si rest)"
proof (cases rl)
  case (Fw_Rule k m p q r s)
  have "CHR '' '' \<notin> set k" "CHR '' '' \<notin> set m"
    "CHR '' '' \<notin> set (p @ ''.'' @ q @ ''.'' @ r @ ''.'' @ s)"
    using assms(1) by (auto simp: Fw_Rule octet_ok_def word_ok_def)
  moreover have "match_IP si (p @ ''.'' @ q @ ''.'' @ r @ ''.'' @ s)
      = Inr (octet_match a p \<and> octet_match b q \<and> octet_match c r)"
    by (rule match_IP_quad [OF _ _ _ _ _ _ _ _ _ _ ip])
       (use assms in \<open>auto simp: Fw_Rule octet_ok_def\<close>)
  ultimately show ?thesis
    by (auto simp: Fw_Rule show_rule_def slicer.slice_field slicer_char_absent method_allows_def)
qed

lemma show_rule_line: "rule_ok rl \<Longrightarrow> c \<in> set (show_rule rl) \<Longrightarrow> \<not> is_nl c"
  by (cases rl) (auto simp: show_rule_def octet_ok_def word_ok_def is_nl_def newline_def)

text \<open>A SOCKS4 request, and a SOCKS4A one when a domain follows the user id.\<close>

definition socks4_request ::
    "byte \<Rightarrow> nat \<Rightarrow> byte \<Rightarrow> byte \<Rightarrow> byte \<Rightarrow> byte \<Rightarrow> byte list \<Rightarrow> byte list option \<Rightarrow> byte list" where
  "socks4_request cd port a b c d userid domain =
     [4, cd, of_nat (port div 256), of_nat (port mod 256), a, b, c, d] @ userid @ [0] @
     (case domain of None \<Rightarrow> [] | Some dmn \<Rightarrow> dmn @ [0])"

lemma port_bytes: "port < 65536 \<Longrightarrow>
    unat (of_nat (port div 256) :: byte) * 256 + unat (of_nat (port mod 256) :: byte) = port"
  by (simp add: div_less)

lemma SOCKS4_parser_request:
  assumes "port < 65536" "0 \<notin> set userid" "0 \<notin> set dmn"
  shows "SOCKS4_parser resolve (socks4_request cd port a b c d userid (Some dmn) @ rest) si =
           (case resolve (if dmn = [] then dotted a b c d else map char_of_byte dmn) (nat_str port) of
              None \<Rightarrow> Inl System_Error
            | Some ip \<Rightarrow> Inr (si\<lparr>CD := byte_str cd, DSTPORT := nat_str port,
                USERID := map char_of_byte userid, DOMAIN_NAME := map char_of_byte dmn,
                DSTIP := ip\<rparr>))"
proof -
  have p: "unat (of_nat (port div 256) :: byte) * 256 + unat (of_nat (port mod 256) :: byte) = port"
    by (rule port_bytes [OF assms(1)])
  have "read_cstr (userid @ 0 # dmn @ 0 # rest) = Inr (map char_of_byte userid, dmn @ 0 # rest)"
    "read_cstr (dmn @ 0 # rest) = Inr (map char_of_byte dmn, rest)"
    using assms(2,3) by (simp_all add: read_cstr_append)
  with p show ?thesis
    by (auto simp: SOCKS4_parser_def socks4_request_def Let_def split: option.splits)
qed

lemma firewall_accepts_cd: "firewall conf si = Inr True \<Longrightarrow> CD si = ''1'' \<or> CD si = ''2''"
proof -
  have "firewall_loop si lines = Inr True \<Longrightarrow> CD si = ''1'' \<or> CD si = ''2''" for lines
    by (induction lines) (auto simp: res_simps split: prod.splits if_splits)
  then show "firewall conf si = Inr True \<Longrightarrow> CD si = ''1'' \<or> CD si = ''2''"
    by (auto simp: firewall_def)
qed

lemma SOCKS4_parser_port:
  assumes "SOCKS4_parser resolve data si = Inr si'"
  shows "DSTPORT si' = nat_str (unat (data ! 2) * 256 + unat (data ! 3))
    \<and> CD si' = byte_str (data ! 1) \<and> 8 < length data"
  using assms
  by (auto simp: SOCKS4_parser_def Let_def res_simps split: list.splits option.splits prod.splits
      elim: read_cstr.elims)

section \<open>Properties\<close>

text \<open>
  C5. The firewall decides as the disjunction of its rules, each of which looks at the command
  and at the first three octets of the destination only: the \<open>permit\<close>/\<open>deny\<close> word that opens
  the line and the fourth octet of the pattern have no influence.
\<close>

theorem firewall_is_disjunction:
  assumes "\<forall>rl \<in> set rules. rule_ok rl"
    and "octet_ok a" "octet_ok b" "octet_ok c" "octet_ok d"
    and "DSTIP si = a @ ''.'' @ b @ ''.'' @ c @ ''.'' @ d"
  shows "firewall (Some (unlines (map show_rule rules))) si
           = Inr (list_ex (rule_allows (CD si) a b c) rules)"
proof -
  have "\<forall>l \<in> set (map show_rule rules). \<forall>c \<in> set l. \<not> is_nl c"
    unfolding set_map using assms(1) show_rule_line by blast
  then have "getlines (unlines (map show_rule rules)) = map show_rule rules"
    by (rule getlines_unlines)
  moreover have "firewall_loop si (map show_rule rules)
      = Inr (list_ex (rule_allows (CD si) a b c) rules)"
    using assms(1)
    by (induction rules)
       (auto simp del: firewall_loop.simps(2) simp: firewall_loop_rule [OF _ assms(2-)])
  ultimately show ?thesis by (simp add: firewall_def)
qed

theorem firewall_is_disjunction_witness:
  "firewall (Some (unlines (map show_rule
       [Fw_Rule ''permit'' ''b'' ''*'' ''*'' ''*'' ''*'',
        Fw_Rule ''deny'' ''c'' ''140'' ''113'' ''*'' ''9''])))
     ((session_init ''1.2.3.4'' 5)\<lparr>CD := ''1'', DSTIP := ''140.113.7.25''\<rparr>) = Inr True"
proof -
  have "octet_ok ''140'' \<and> octet_ok ''113'' \<and> octet_ok ''7'' \<and> octet_ok ''25''"
    by (simp add: octet_ok_def word_ok_def newline_def)
  then show ?thesis
    by (subst firewall_is_disjunction [where a = "''140''" and b = "''113''" and c = "''7''"
          and d = "''25''"])
       (simp_all add: octet_ok_def word_ok_def newline_def method_allows_def octet_match_def)
qed

text \<open>
  C37. A request that carries a (possibly empty) domain string is decoded field by field, whatever
  the buffer held before: the command, the port as sent, the user id, and as destination the
  resolver's address for the domain, or for the dotted address when the domain is empty. A
  resolver failure is the only way it does not return.
\<close>

theorem socks4_request_decoded:
  assumes "port < 65536" "0 \<notin> set userid" "0 \<notin> set dmn"
    and "socks4_request cd port a b c d userid (Some dmn) = req"
  shows "SOCKS4_parser resolve (received_into old req) si =
           (case resolve (if dmn = [] then dotted a b c d else map char_of_byte dmn) (nat_str port) of
              None \<Rightarrow> Inl System_Error
            | Some ip \<Rightarrow> Inr (si\<lparr>CD := byte_str cd, DSTPORT := nat_str port,
                USERID := map char_of_byte userid, DOMAIN_NAME := map char_of_byte dmn,
                DSTIP := ip\<rparr>))"
  using assms(4) SOCKS4_parser_request [OF assms(1-3)] by (auto simp: received_into_def)

theorem socks4_request_decoded_witness:
  "\<exists>si'. SOCKS4_parser (\<lambda>host port. Some host)
       (received_into (replicate 1024 7) (socks4_request 1 8080 140 113 1 2 [117] (Some [])))
       (session_init ''9.9.9.9'' 1) = Inr si'
     \<and> DSTPORT si' = nat_str 8080 \<and> DSTIP si' = dotted 140 113 1 2 \<and> USERID si' = map char_of_byte [117]"
  by (subst socks4_request_decoded [OF _ _ _ refl]) simp_all

text \<open>
  \<open>length\<close> is ignored, so a plain SOCKS4 request, which ends at the NUL of the user id, has
  whatever the memory behind it holds up to the next zero byte read as its SOCKS4A domain: with
  anything but a zero there, the connection goes to a host the client never named.
\<close>

theorem socks4_reads_stale_memory:
  assumes "port < 65536" "0 \<notin> set userid" "0 \<notin> set stale" "stale \<noteq> []"
    and "socks4_request cd port a b c d userid None = req"
    and "drop (length req) old = stale @ 0 # rest"
    and "resolve (map char_of_byte stale) (nat_str port) = Some ip"
  shows "SOCKS4_parser resolve (received_into old req) si =
           Inr (si\<lparr>CD := byte_str cd, DSTPORT := nat_str port, USERID := map char_of_byte userid,
                   DOMAIN_NAME := map char_of_byte stale, DSTIP := ip\<rparr>)"
proof -
  have "received_into old req = socks4_request cd port a b c d userid (Some stale) @ rest"
    using assms(5,6) by (auto simp: received_into_def socks4_request_def)
  then show ?thesis
    using SOCKS4_parser_request [OF assms(1-3)] assms(4,7) by simp
qed

theorem socks4_reads_stale_memory_witness:
  "\<exists>si'. SOCKS4_parser (\<lambda>host port. Some host)
       (received_into (replicate 9 7 @ [97, 97, 97, 0]) (socks4_request 1 80 10 0 0 1 [] None))
       (session_init ''9.9.9.9'' 1) = Inr si' \<and> DSTIP si' = map char_of_byte [97, 97, 97]"
proof -
  have "drop (length (socks4_request 1 80 10 0 0 1 [] None)) (replicate 9 7 @ [97, 97, 97, 0 :: byte])
      = [97, 97, 97] @ 0 # []"
    by (simp add: socks4_request_def)
  from socks4_reads_stale_memory [OF _ _ _ _ refl this, where resolve = "\<lambda>host port. Some host"]
  show ?thesis by simp
qed

text \<open>
  C6. After a parsed request, \<open>do_work\<close> always answers, and as the firewall decides: a reject
  reply (91), or a reply with code 90 for a CONNECT (\<open>CD\<close> is 1) or a BIND (\<open>CD\<close> is 2), which
  are the only commands it lets through, so that the test of the first digit of \<open>CD\<close> is exact
  and the session is never left without an action. Bytes 2 and 3 of the reply are those of the
  request.
\<close>

theorem do_work_decides:
  assumes "SOCKS4_parser resolve data si = Inr si'"
  shows "\<exists>out act. do_work conf si' = Inr (out, act) \<and>
           (case act of
              Send_Reject r \<Rightarrow> firewall conf si' = Inr False
                \<and> r = [4, 91, data ! 2, data ! 3, 0, 0, 0, 0]
            | Start_Bridge ip port r \<Rightarrow> firewall conf si' = Inr True \<and> CD si' = ''1''
                \<and> ip = DSTIP si' \<and> port = DSTPORT si'
                \<and> r = [0, 90, data ! 2, data ! 3, 0, 0, 0, 0]
            | Start_Bind r \<Rightarrow> firewall conf si' = Inr True \<and> CD si' = ''2''
                \<and> r = [0, 90, data ! 2, data ! 3, 0, 0, 0, 0]
            | No_Action \<Rightarrow> False)"
proof -
  let ?p = "unat (data ! 2) * 256 + unat (data ! 3)"
  have p: "?p < 65536" using unat_byte_less [of "data ! 2"] unat_byte_less [of "data ! 3"] by linarith
  have port: "DSTPORT si' = nat_str ?p"
    using SOCKS4_parser_port [OF assms] by simp
  have "stoi (DSTPORT si') = Inr (int ?p)"
    using p by (simp add: port stoi_nat_str)
  moreover have "unat (word_of_int (int ?p) :: 16 word) = ?p"
    by (rule unat_word16 [OF p])
  moreover have "(of_nat (?p div 256) :: byte) = data ! 2" "(of_nat (?p mod 256) :: byte) = data ! 3"
    by (simp_all add: div_mult_self3)
  ultimately show ?thesis
    using firewall_total [of conf si'] firewall_accepts_cd [of conf si']
    by (auto simp: do_work_def Let_def first_char_def)
qed

theorem do_work_decides_witness:
  "\<exists>si'. SOCKS4_parser (\<lambda>host port. Some host) (socks4_request 1 80 10 0 0 1 [] (Some []))
       (session_init ''9.9.9.9'' 1) = Inr si'
     \<and> (\<exists>out act. do_work None si' = Inr (out, act) \<and> act \<noteq> No_Action)"
proof -
  obtain si' where si': "SOCKS4_parser (\<lambda>host port. Some host)
      (socks4_request 1 80 10 0 0 1 [] (Some [])) (session_init ''9.9.9.9'' 1) = Inr si'"
    by (simp add: SOCKS4_parser_def socks4_request_def Let_def)
  have "act \<noteq> No_Action" if "case act of Send_Reject r \<Rightarrow> P r | Start_Bridge i p r \<Rightarrow> Q i p r
      | Start_Bind r \<Rightarrow> R r | No_Action \<Rightarrow> False" for act P Q R
    using that by (cases act) simp_all
  with do_work_decides [OF si', of None] si' show ?thesis by blast
qed

end
