(* ===== verification/Socks_Relay.thy ===== *)
theory Socks_Relay
  imports Prelude
begin

text \<open>
  The two relays of \<open>project4/socks_server.cpp\<close>: \<open>socks_bridge\<close> (CONNECT) and \<open>socks_bind\<close>
  (BIND). Their code is a set of completion handlers; a handler starts the next asynchronous
  operations. The state holds the sockets, the two buffers, the operations under way
  (\<open>pending\<close>), and the history of what was read off and put on each socket. The event loop is
  the order of completions: any pending operation can complete next, with data, with a (possibly
  short) count of bytes sent, or with an error.
\<close>

section \<open>State\<close>

definition FROM_CLIENT :: int where "FROM_CLIENT = 1"
definition TO_CLIENT :: int where "TO_CLIENT = 1"
definition FROM_SERVER :: int where "FROM_SERVER = 2"
definition TO_SERVER :: int where "TO_SERVER = 2"

lemmas side_defs = FROM_CLIENT_def TO_CLIENT_def FROM_SERVER_def TO_SERVER_def

text \<open>
  The operations a handler can start: \<open>async_resolve\<close>, \<open>async_connect\<close>, \<open>async_accept\<close>, the
  send of \<open>reply_\<close> (here \<open>reply_buf\<close>) (with \<open>isFirstReply\<close>), \<open>async_read_some\<close> on a side and \<open>async_send\<close> of
  a number of buffered bytes to a side.
\<close>

datatype async_op =
    Resolve
  | Connect
  | Accept
  | Reply bool
  | Read int
  | Write int nat

record relay =
  upstream_open :: bool
  downstream_open :: bool
  upstream_data :: "byte list"
  downstream_data :: "byte list"
  reply_buf :: "byte list"
  pending :: "async_op list"
  replies :: "byte list list"
  from_client :: "byte list"
  to_server :: "byte list"
  from_server :: "byte list"
  to_client :: "byte list"

definition start_op :: "async_op \<Rightarrow> relay \<Rightarrow> relay" where
  "start_op oper s = s\<lparr>pending := pending s @ [oper]\<rparr>"

definition close_both :: "relay \<Rightarrow> relay" where
  "close_both s = s\<lparr>downstream_open := False, upstream_open := False\<rparr>"

text \<open>How an operation completes. \<open>Sent t n k\<close>: of the \<open>n\<close> bytes asked for, \<open>k\<close> went out.\<close>

datatype completion =
    Resolved
  | Connected
  | Accepted
  | Replied bool
  | Got int "byte list"
  | Sent int nat nat
  | Failed async_op

fun op_of :: "completion \<Rightarrow> async_op" where
  "op_of Resolved = Resolve"
| "op_of Connected = Connect"
| "op_of Accepted = Accept"
| "op_of (Replied b) = Reply b"
| "op_of (Got f bs) = Read f"
| "op_of (Sent t n k) = Write t n"
| "op_of (Failed oper) = oper"

definition side_open :: "int \<Rightarrow> relay \<Rightarrow> bool" where
  "side_open side s = (if side = 1 then upstream_open s else downstream_open s)"

text \<open>
  When the event loop can deliver a completion: the operation is pending; data moves on open
  sockets only, at most a buffer (1024 bytes) at a time; a send moves at least a byte and may
  be short; an error can hit any pending operation.
\<close>

definition enabled :: "relay \<Rightarrow> completion \<Rightarrow> bool" where
  "enabled s c \<longleftrightarrow> op_of c \<in> set (pending s) \<and>
     (case c of
        Got f bs \<Rightarrow> side_open f s \<and> bs \<noteq> [] \<and> length bs \<le> 1024
      | Sent t n k \<Rightarrow> side_open t s \<and> 0 < k \<and> k \<le> n
      | Replied b \<Rightarrow> upstream_open s
      | _ \<Rightarrow> True)"

definition finish :: "async_op \<Rightarrow> relay \<Rightarrow> relay" where
  "finish oper s = s\<lparr>pending := remove1 oper (pending s)\<rparr>"

text \<open>A run: the handlers \<open>handler\<close> of a class, driven by a list of completions.\<close>

fun relay_run :: "(completion \<Rightarrow> relay \<Rightarrow> relay) \<Rightarrow> relay \<Rightarrow> completion list \<Rightarrow> relay option" where
  "relay_run handler s [] = Some s"
| "relay_run handler s (c # cs) =
     (if enabled s c then relay_run handler (handler c (finish (op_of c) s)) cs else None)"

section \<open>socks\_bridge\<close>

definition bridge_init :: "byte list \<Rightarrow> byte list \<Rightarrow> byte list \<Rightarrow> relay" where
  "bridge_init reply up_mem down_mem =
     \<lparr>upstream_open = True, downstream_open = True, upstream_data = up_mem,
      downstream_data = down_mem, reply_buf = reply, pending = [], replies = [],
      from_client = [], to_server = [], from_server = [], to_client = []\<rparr>"

definition bridge_do_read :: "int \<Rightarrow> relay \<Rightarrow> relay" where
  "bridge_do_read side s =
     (let s' = (if side = FROM_CLIENT then start_op (Read FROM_CLIENT) s else s)
      in if side = FROM_SERVER then start_op (Read FROM_SERVER) s' else s')"

definition bridge_do_write :: "int \<Rightarrow> nat \<Rightarrow> relay \<Rightarrow> relay" where
  "bridge_do_write side n s =
     (if side = TO_SERVER then start_op (Write TO_SERVER n) s
      else if side = TO_CLIENT then start_op (Write TO_CLIENT n) s
      else s)"

definition bridge_do_reply :: "relay \<Rightarrow> relay" where
  "bridge_do_reply s = start_op (Reply False) s"

definition bridge_start :: "relay \<Rightarrow> relay" where
  "bridge_start s = start_op Resolve s"

text \<open>What the kernel does on a completed read or send, before the handler runs.\<close>

definition take_in :: "int \<Rightarrow> byte list \<Rightarrow> relay \<Rightarrow> relay" where
  "take_in side bs s =
     (if side = FROM_CLIENT
      then s\<lparr>upstream_data := received_into (upstream_data s) bs, from_client := from_client s @ bs\<rparr>
      else s\<lparr>downstream_data := received_into (downstream_data s) bs, from_server := from_server s @ bs\<rparr>)"

definition put_out :: "int \<Rightarrow> nat \<Rightarrow> relay \<Rightarrow> relay" where
  "put_out side k s =
     (if side = TO_SERVER
      then s\<lparr>to_server := to_server s @ take k (upstream_data s)\<rparr>
      else s\<lparr>to_client := to_client s @ take k (downstream_data s)\<rparr>)"

definition bridge_handler :: "completion \<Rightarrow> relay \<Rightarrow> relay" where
  "bridge_handler c s =
     (case c of
        Resolved \<Rightarrow> start_op Connect s
      | Connected \<Rightarrow> bridge_do_reply s
      | Accepted \<Rightarrow> s
      | Replied b \<Rightarrow>
          bridge_do_read FROM_SERVER
            (bridge_do_read FROM_CLIENT (s\<lparr>replies := replies s @ [reply_buf s]\<rparr>))
      | Got side bs \<Rightarrow>
          (if side = FROM_CLIENT
           then bridge_do_write TO_SERVER (length bs) (take_in side bs s)
           else bridge_do_write TO_CLIENT (length bs) (take_in side bs s))
      | Sent side n k \<Rightarrow>
          (if side = TO_SERVER
           then bridge_do_read FROM_CLIENT (put_out side k s)
           else bridge_do_read FROM_SERVER (put_out side k s))
      | Failed oper \<Rightarrow>
          (case oper of Read side \<Rightarrow> close_both s | _ \<Rightarrow> s))"

section \<open>socks\_bind\<close>

definition bind_do_read :: "int \<Rightarrow> relay \<Rightarrow> relay" where
  "bind_do_read side s =
     (let s' = (if side = FROM_CLIENT then start_op (Read FROM_CLIENT) s else s)
      in if side = FROM_SERVER then start_op (Read FROM_SERVER) s' else s')"

text \<open>The second test of the code compares with \<open>FROM_CLIENT\<close>, which equals \<open>TO_CLIENT\<close>.\<close>

definition bind_do_write :: "int \<Rightarrow> nat \<Rightarrow> relay \<Rightarrow> relay" where
  "bind_do_write side n s =
     (if side = TO_SERVER then start_op (Write TO_SERVER n) s
      else if side = FROM_CLIENT then start_op (Write FROM_CLIENT n) s
      else s)"

definition bind_do_reply :: "bool \<Rightarrow> relay \<Rightarrow> relay" where
  "bind_do_reply isFirstReply s = start_op (Reply isFirstReply) s"

text \<open>\<open>do_bind\<close>, with the port the system bound the acceptor to.\<close>

definition bind_do_bind :: "16 word \<Rightarrow> relay \<Rightarrow> relay" where
  "bind_do_bind bind_port s =
     bind_do_reply True
       (s\<lparr>reply_buf := (reply_buf s)[2 := of_nat (unat bind_port div 256),
                               3 := of_nat (unat bind_port mod 256)]\<rparr>)"

definition bind_handler :: "completion \<Rightarrow> relay \<Rightarrow> relay" where
  "bind_handler c s =
     (case c of
        Resolved \<Rightarrow> s
      | Connected \<Rightarrow> s
      | Accepted \<Rightarrow> bind_do_reply False s
      | Replied isFirstReply \<Rightarrow>
          (let s' = s\<lparr>replies := replies s @ [reply_buf s]\<rparr>
           in if isFirstReply then start_op Accept s'
              else bind_do_read FROM_SERVER (bind_do_read FROM_CLIENT s'))
      | Got side bs \<Rightarrow>
          (if side = FROM_CLIENT
           then bind_do_write TO_SERVER (length bs) (take_in side bs s)
           else bind_do_write TO_CLIENT (length bs) (take_in side bs s))
      | Sent side n k \<Rightarrow>
          (let s' = put_out side k s
           in if k = n
              then (if side = TO_SERVER then bind_do_read FROM_CLIENT s' else bind_do_read TO_SERVER s')
              else bind_do_write side (n - k) s')
      | Failed oper \<Rightarrow>
          (case oper of Accept \<Rightarrow> s | _ \<Rightarrow> close_both s))"

section \<open>The relay contract\<close>

text \<open>
  What the two classes have in common, handler by handler, as long as sends are not short. An
  operation of the set-up phase is one that is neither a read nor a write.
\<close>

definition is_setup :: "async_op \<Rightarrow> bool" where
  "is_setup oper = (case oper of Read _ \<Rightarrow> False | Write _ _ \<Rightarrow> False | _ \<Rightarrow> True)"

definition both_reads :: "async_op list" where
  "both_reads = [Read FROM_CLIENT, Read FROM_SERVER]"

definition no_data :: "relay \<Rightarrow> bool" where
  "no_data s \<longleftrightarrow> from_client s = [] \<and> to_server s = [] \<and> from_server s = [] \<and> to_client s = []"

text \<open>Everything but the open flags and the pending operations and replies.\<close>

definition same_data :: "relay \<Rightarrow> relay \<Rightarrow> bool" where
  "same_data s t \<longleftrightarrow> upstream_data s = upstream_data t \<and> downstream_data s = downstream_data t \<and>
     from_client s = from_client t \<and> to_server s = to_server t \<and>
     from_server s = from_server t \<and> to_client s = to_client t"

definition setup_done :: "completion \<Rightarrow> bool" where
  "setup_done c \<longleftrightarrow> is_setup (op_of c) \<and> (\<forall>oper. c \<noteq> Failed oper)"

text \<open>
  The invariant of one direction: the operations that move its bytes (a read on side \<open>f\<close>, a
  write to the other side) are at most one; before a read everything read has been sent, during
  a write the rest is at the front of the buffer, and after an error what was sent is a prefix.
\<close>

definition chan_op :: "int \<Rightarrow> async_op \<Rightarrow> bool" where
  "chan_op f oper = (case oper of Read g \<Rightarrow> g = f | Write g n \<Rightarrow> g = 3 - f | _ \<Rightarrow> False)"

fun chan_ok :: "async_op list \<Rightarrow> byte list \<Rightarrow> byte list \<Rightarrow> byte list \<Rightarrow> bool" where
  "chan_ok [] got sent buf \<longleftrightarrow> prefix sent got"
| "chan_ok [Read g] got sent buf \<longleftrightarrow> sent = got"
| "chan_ok [Write g n] got sent buf \<longleftrightarrow> n \<le> length buf \<and> got = sent @ take n buf"
| "chan_ok _ got sent buf \<longleftrightarrow> False"

definition client_chan :: "relay \<Rightarrow> bool" where
  "client_chan s \<longleftrightarrow>
     chan_ok (filter (chan_op 1) (pending s)) (from_client s) (to_server s) (upstream_data s)"

definition server_chan :: "relay \<Rightarrow> bool" where
  "server_chan s \<longleftrightarrow>
     chan_ok (filter (chan_op 2) (pending s)) (from_server s) (to_client s) (downstream_data s)"

definition proper_op :: "async_op \<Rightarrow> bool" where
  "proper_op oper \<longleftrightarrow> is_setup oper \<or> chan_op 1 oper \<or> chan_op 2 oper"

definition relay_inv :: "relay \<Rightarrow> bool" where
  "relay_inv s \<longleftrightarrow> client_chan s \<and> server_chan s \<and> (\<forall>oper \<in> set (pending s). proper_op oper) \<and>
     (\<forall>oper \<in> set (pending s). is_setup oper \<longrightarrow> pending s = [oper] \<and> no_data s) \<and>
     (replies s = [] \<longrightarrow> no_data s \<and> (\<forall>oper \<in> set (pending s). is_setup oper))"

definition full_send :: "completion \<Rightarrow> bool" where
  "full_send c = (case c of Sent t n k \<Rightarrow> k = n | _ \<Rightarrow> True)"

lemma chan_op_simps [simp]:
  "chan_op f (Read g) \<longleftrightarrow> g = f" "chan_op f (Write g n) \<longleftrightarrow> g = 3 - f"
  by (simp_all add: chan_op_def)

lemma setup_not_chan: "is_setup oper \<Longrightarrow> \<not> chan_op f oper"
  by (auto simp: is_setup_def chan_op_def split: async_op.splits)

lemma chan_ok_read:
  "chan_ok ops got sent buf \<Longrightarrow> Read g \<in> set ops \<Longrightarrow> ops = [Read g] \<and> sent = got"
  by (cases "(ops, got, sent, buf)" rule: chan_ok.cases) auto

lemma chan_ok_write:
  "chan_ok ops got sent buf \<Longrightarrow> Write g n \<in> set ops \<Longrightarrow>
     ops = [Write g n] \<and> n \<le> length buf \<and> got = sent @ take n buf"
  by (cases "(ops, got, sent, buf)" rule: chan_ok.cases) auto

lemma chan_ok_drop_op: "chan_ok ops got sent buf \<Longrightarrow> chan_ok (remove1 oper ops) got sent buf"
  by (cases "(ops, got, sent, buf)" rule: chan_ok.cases) auto

lemmas relay_ops = start_op_def take_in_def put_out_def finish_def side_defs

locale relay_class =
  fixes handler :: "completion \<Rightarrow> relay \<Rightarrow> relay"
  assumes on_got_client: "handler (Got FROM_CLIENT bs) s =
      start_op (Write TO_SERVER (length bs)) (take_in FROM_CLIENT bs s)"
    and on_got_server: "handler (Got FROM_SERVER bs) s =
      start_op (Write TO_CLIENT (length bs)) (take_in FROM_SERVER bs s)"
    and on_sent_server: "handler (Sent TO_SERVER n n) s =
      start_op (Read FROM_CLIENT) (put_out TO_SERVER n s)"
    and on_sent_client: "handler (Sent TO_CLIENT n n) s =
      start_op (Read FROM_SERVER) (put_out TO_CLIENT n s)"
    and on_failed_pending: "pending (handler (Failed oper) s) = pending s"
    and on_failed_replies: "replies (handler (Failed oper) s) = replies s"
    and on_failed_data: "same_data (handler (Failed oper) s) s"
    and on_setup_data: "setup_done c \<Longrightarrow> same_data (handler c s) s"
    and on_setup_pending: "setup_done c \<Longrightarrow> pending (handler c s) = pending s
        \<or> (\<exists>oper. is_setup oper \<and> pending (handler c s) = pending s @ [oper])
        \<or> (pending (handler c s) = pending s @ both_reads \<and> replies (handler c s) \<noteq> [])"
begin

lemma busy_no_setup:
  assumes "relay_inv s" "oper \<in> set (pending s)" "\<not> is_setup oper"
  shows "\<forall>oper \<in> set (pending s). \<not> is_setup oper" "replies s \<noteq> []"
  using assms by (auto simp: relay_inv_def)

lemma step_got_client:
  assumes "relay_inv s" "enabled s (Got FROM_CLIENT bs)"
  shows "relay_inv (handler (Got FROM_CLIENT bs) (finish (Read FROM_CLIENT) s))"
proof -
  have p: "Read 1 \<in> set (pending s)" using assms(2) by (simp add: enabled_def side_defs)
  with assms(1) have c: "filter (chan_op 1) (pending s) = [Read 1]" "to_server s = from_client s"
    using chan_ok_read [of "filter (chan_op 1) (pending s)"] by (auto simp: relay_inv_def client_chan_def)
  show ?thesis
    unfolding on_got_client
    using assms(1) c busy_no_setup [OF assms(1) p]
    by (auto simp: relay_inv_def client_chan_def server_chan_def relay_ops filter_remove1
        remove1_idem received_into_def proper_op_def is_setup_def dest!: notin_set_remove1)
qed

lemma step_got_server:
  assumes "relay_inv s" "enabled s (Got FROM_SERVER bs)"
  shows "relay_inv (handler (Got FROM_SERVER bs) (finish (Read FROM_SERVER) s))"
proof -
  have p: "Read 2 \<in> set (pending s)" using assms(2) by (simp add: enabled_def side_defs)
  with assms(1) have c: "filter (chan_op 2) (pending s) = [Read 2]" "to_client s = from_server s"
    using chan_ok_read [of "filter (chan_op 2) (pending s)"] by (auto simp: relay_inv_def server_chan_def)
  show ?thesis
    unfolding on_got_server
    using assms(1) c busy_no_setup [OF assms(1) p]
    by (auto simp: relay_inv_def client_chan_def server_chan_def relay_ops filter_remove1
        remove1_idem received_into_def proper_op_def is_setup_def dest!: notin_set_remove1)
qed

lemma step_sent_server:
  assumes "relay_inv s" "enabled s (Sent TO_SERVER n n)"
  shows "relay_inv (handler (Sent TO_SERVER n n) (finish (Write TO_SERVER n) s))"
proof -
  have p: "Write 2 n \<in> set (pending s)" using assms(2) by (simp add: enabled_def side_defs)
  with assms(1) have c: "filter (chan_op 1) (pending s) = [Write 2 n]"
    "from_client s = to_server s @ take n (upstream_data s)"
    using chan_ok_write [of "filter (chan_op 1) (pending s)"] by (auto simp: relay_inv_def client_chan_def)
  show ?thesis
    unfolding on_sent_server
    using assms(1) c busy_no_setup [OF assms(1) p]
    by (auto simp: relay_inv_def client_chan_def server_chan_def relay_ops filter_remove1
        remove1_idem proper_op_def is_setup_def dest!: notin_set_remove1)
qed

lemma step_sent_client:
  assumes "relay_inv s" "enabled s (Sent TO_CLIENT n n)"
  shows "relay_inv (handler (Sent TO_CLIENT n n) (finish (Write TO_CLIENT n) s))"
proof -
  have p: "Write 1 n \<in> set (pending s)" using assms(2) by (simp add: enabled_def side_defs)
  with assms(1) have c: "filter (chan_op 2) (pending s) = [Write 1 n]"
    "from_server s = to_client s @ take n (downstream_data s)"
    using chan_ok_write [of "filter (chan_op 2) (pending s)"] by (auto simp: relay_inv_def server_chan_def)
  show ?thesis
    unfolding on_sent_client
    using assms(1) c busy_no_setup [OF assms(1) p]
    by (auto simp: relay_inv_def client_chan_def server_chan_def relay_ops filter_remove1
        remove1_idem proper_op_def is_setup_def dest!: notin_set_remove1)
qed

text \<open>An error only takes its operation away.\<close>

lemma step_failed:
  assumes "relay_inv s" "oper \<in> set (pending s)"
  shows "relay_inv (handler (Failed oper) (finish oper s))"
proof -
  let ?t = "handler (Failed oper) (finish oper s)"
  have t: "pending ?t = remove1 oper (pending s)" "replies ?t = replies s" "same_data ?t s"
    using on_failed_data [of oper "finish oper s"]
    by (simp_all add: on_failed_pending on_failed_replies finish_def same_data_def)
  have drop: "chan_ok (filter (chan_op f) (remove1 oper (pending s))) got sent buf"
    if "chan_ok (filter (chan_op f) (pending s)) got sent buf" for f got sent buf
    using chan_ok_drop_op [OF that, of oper] by (simp only: filter_remove1)
  have sub: "set (pending ?t) \<subseteq> set (pending s)" using t(1) by (simp add: set_remove1_subset)
  have no_data: "no_data ?t = no_data s" using t(3) by (simp add: no_data_def same_data_def)
  have only_setup: "pending ?t = [p] \<and> no_data ?t" if "p \<in> set (pending ?t)" "is_setup p" for p
  proof -
    have "p \<in> set (pending s)" using that(1) sub by blast
    then have "pending s = [p]" using that(2) assms(1) by (auto simp: relay_inv_def)
    with assms(2) that(1) t(1) show ?thesis by simp
  qed
  have "client_chan ?t" "server_chan ?t"
    using assms(1) drop t by (simp_all add: relay_inv_def client_chan_def server_chan_def same_data_def)
  moreover have "\<forall>p \<in> set (pending ?t). proper_op p" "replies ?t = [] \<longrightarrow>
      no_data ?t \<and> (\<forall>p \<in> set (pending ?t). is_setup p)"
    using assms(1) sub t(2) no_data unfolding relay_inv_def by auto
  ultimately show ?thesis
    using only_setup by (simp add: relay_inv_def)
qed

text \<open>A completed set-up operation was the only one, and leaves one operation or both reads.\<close>

lemma step_setup:
  assumes "relay_inv s" "enabled s c" "setup_done c"
  shows "relay_inv (handler c (finish (op_of c) s))"
proof -
  let ?t = "handler c (finish (op_of c) s)"
  have p: "op_of c \<in> set (pending s)" "is_setup (op_of c)"
    using assms(2,3) by (simp_all add: enabled_def setup_done_def)
  then have only: "pending s = [op_of c]" "no_data s" using assms(1) by (auto simp: relay_inv_def)
  then have fin: "pending (finish (op_of c) s) = []" by (simp add: finish_def)
  have data: "no_data ?t" using on_setup_data [OF assms(3), of "finish (op_of c) s"] only(2)
    by (simp add: same_data_def no_data_def finish_def)
  from on_setup_pending [OF assms(3), of "finish (op_of c) s"] fin
  consider "pending ?t = []" | oper where "is_setup oper" "pending ?t = [oper]"
    | "pending ?t = both_reads" "replies ?t \<noteq> []"
    by auto
  then show ?thesis
    using data
    by cases (auto simp: relay_inv_def client_chan_def server_chan_def proper_op_def no_data_def
        setup_not_chan both_reads_def side_defs is_setup_def)
qed

lemma step_inv:
  assumes inv: "relay_inv s" and en: "enabled s c" and "full_send c"
  shows "relay_inv (handler c (finish (op_of c) s))"
proof -
  have p: "op_of c \<in> set (pending s)" using en by (simp add: enabled_def)
  have side: "g = 1 \<or> g = 2" if "c = Got g bs \<or> c = Sent g n k" for g bs n k
    using inv p that by (auto simp: relay_inv_def proper_op_def is_setup_def)
  show ?thesis
  proof (cases c)
    case (Got g bs)
    with side [of g bs] inv en step_got_client [of s bs] step_got_server [of s bs] show ?thesis
      by (auto simp: side_defs)
  next
    case (Sent g n k)
    with \<open>full_send c\<close> have "k = n" by (simp add: full_send_def)
    with Sent side [of g _ n k] inv en step_sent_server [of s n] step_sent_client [of s n] show ?thesis
      by (auto simp: side_defs)
  next
    case (Failed oper)
    with step_failed [OF inv] p show ?thesis by simp
  qed (use step_setup [OF inv en] in \<open>auto simp: setup_done_def is_setup_def\<close>)
qed

lemma run_inv:
  "relay_inv s \<Longrightarrow> \<forall>c \<in> set cs. full_send c \<Longrightarrow> relay_run handler s cs = Some t \<Longrightarrow> relay_inv t"
  by (induction cs arbitrary: s) (auto split: if_splits dest: step_inv)

text \<open>Whatever the run, the bytes put on a side are a prefix of those read off the other.\<close>

lemma run_stream:
  assumes "relay_inv s" "\<forall>c \<in> set cs. full_send c" "relay_run handler s cs = Some t"
  shows "prefix (to_server t) (from_client t) \<and> prefix (to_client t) (from_server t)
    \<and> (Read FROM_CLIENT \<in> set (pending t) \<longrightarrow> to_server t = from_client t)
    \<and> (Read FROM_SERVER \<in> set (pending t) \<longrightarrow> to_client t = from_server t)
    \<and> (replies t = [] \<longrightarrow> no_data t)"
proof -
  have ok: "chan_ok ops got sent buf \<Longrightarrow> prefix sent got" for ops got sent buf
    by (cases "(ops, got, sent, buf)" rule: chan_ok.cases) auto
  have "relay_inv t" by (rule run_inv [OF assms])
  then show ?thesis
    using ok chan_ok_read [of "filter (chan_op 1) (pending t)" "from_client t" "to_server t"]
      chan_ok_read [of "filter (chan_op 2) (pending t)" "from_server t" "to_client t"]
    by (auto simp: relay_inv_def client_chan_def server_chan_def side_defs)
qed

end

interpretation bridge: relay_class bridge_handler
  by unfold_locales
     (auto simp: bridge_handler_def bridge_do_write_def bridge_do_read_def bridge_do_reply_def
        side_defs same_data_def setup_done_def is_setup_def start_op_def both_reads_def
        close_both_def Let_def split: completion.splits async_op.splits)

interpretation bnd: relay_class bind_handler
  by unfold_locales
     (auto simp: bind_handler_def bind_do_write_def bind_do_read_def bind_do_reply_def
        side_defs same_data_def setup_done_def is_setup_def start_op_def both_reads_def
        close_both_def Let_def split: completion.splits async_op.splits)


section \<open>Properties\<close>

lemma relay_inv_start:
  "no_data s \<Longrightarrow> is_setup oper \<Longrightarrow> pending s = [oper] \<Longrightarrow> relay_inv s"
  by (simp add: relay_inv_def client_chan_def server_chan_def proper_op_def no_data_def setup_not_chan)

lemma bridge_start_inv: "relay_inv (bridge_start (bridge_init reply up_mem down_mem))"
  by (rule relay_inv_start [of _ Resolve])
     (simp_all add: bridge_start_def bridge_init_def start_op_def no_data_def is_setup_def)

lemma bind_start_inv: "relay_inv (bind_do_bind port (bridge_init reply up_mem down_mem))"
  by (rule relay_inv_start [of _ "Reply True"])
     (simp_all add: bind_do_bind_def bind_do_reply_def bridge_init_def start_op_def no_data_def is_setup_def)

text \<open>
  C4. The CONNECT relay is a faithful pair of byte streams, as long as no send is short: in
  every reachable state, whatever the order of completions and errors, the bytes put on either
  side are a prefix of those read off the other, with nothing missing whenever the relay is back
  to reading that side, and no byte moves before the reply has been sent.
\<close>

theorem bridge_streams:
  assumes "relay_run bridge_handler (bridge_start (bridge_init reply up_mem down_mem)) cs = Some t"
    and "\<forall>c \<in> set cs. full_send c"
  shows "prefix (to_server t) (from_client t) \<and> prefix (to_client t) (from_server t)
    \<and> (Read FROM_CLIENT \<in> set (pending t) \<longrightarrow> to_server t = from_client t)
    \<and> (Read FROM_SERVER \<in> set (pending t) \<longrightarrow> to_client t = from_server t)
    \<and> (replies t = [] \<longrightarrow> no_data t)"
  by (rule bridge.run_stream [OF bridge_start_inv assms(2,1)])

lemmas bridge_eval = bridge_start_def bridge_init_def bridge_handler_def bridge_do_reply_def
  bridge_do_read_def bridge_do_write_def relay_ops enabled_def side_open_def received_into_def Let_def

lemmas bind_eval = bind_do_bind_def bridge_init_def bind_handler_def bind_do_reply_def
  bind_do_read_def bind_do_write_def relay_ops enabled_def side_open_def received_into_def Let_def

theorem bridge_streams_witness:
  "\<exists>t. relay_run bridge_handler (bridge_start (bridge_init [0, 90] [] []))
         [Resolved, Connected, Replied False, Got FROM_CLIENT [1, 2], Got FROM_SERVER [7],
          Sent TO_SERVER 2 2, Failed (Write TO_CLIENT 1)] = Some t
     \<and> prefix (to_client t) (from_server t) \<and> from_client t = [1, 2] \<and> to_server t = from_client t"
proof -
  let ?cs = "[Resolved, Connected, Replied False, Got FROM_CLIENT [1, 2], Got FROM_SERVER [7],
          Sent TO_SERVER 2 2, Failed (Write TO_CLIENT 1)]"
  obtain t where t: "relay_run bridge_handler (bridge_start (bridge_init [0, 90] [] [])) ?cs = Some t"
    and data: "from_client t = [1, 2]" "Read FROM_CLIENT \<in> set (pending t)"
    by (simp add: bridge_eval)
  have "\<forall>c \<in> set ?cs. full_send c" by (simp add: full_send_def)
  from bridge_streams [OF t this] t data show ?thesis by blast
qed

text \<open>
  The BIND relay gives the same guarantee under the same proviso.
\<close>

theorem bind_streams:
  assumes "relay_run bind_handler (bind_do_bind port (bridge_init reply up_mem down_mem)) cs = Some t"
    and "\<forall>c \<in> set cs. full_send c"
  shows "prefix (to_server t) (from_client t) \<and> prefix (to_client t) (from_server t)
    \<and> (Read FROM_CLIENT \<in> set (pending t) \<longrightarrow> to_server t = from_client t)
    \<and> (Read FROM_SERVER \<in> set (pending t) \<longrightarrow> to_client t = from_server t)
    \<and> (replies t = [] \<longrightarrow> no_data t)"
  by (rule bnd.run_stream [OF bind_start_inv assms(2,1)])

theorem bind_streams_witness:
  "\<exists>t. relay_run bind_handler (bind_do_bind 80 (bridge_init [0, 90, 0, 0] [] []))
         [Replied True, Accepted, Replied False, Got FROM_SERVER [7], Sent TO_CLIENT 1 1] = Some t
     \<and> to_client t = from_server t \<and> from_server t = [7]"
proof -
  let ?cs = "[Replied True, Accepted, Replied False, Got FROM_SERVER [7], Sent TO_CLIENT 1 1]"
  obtain t where t: "relay_run bind_handler (bind_do_bind 80 (bridge_init [0, 90, 0, 0] [] [])) ?cs = Some t"
    and data: "from_server t = [7]" "Read FROM_SERVER \<in> set (pending t)"
    by (simp add: bind_eval)
  have "\<forall>c \<in> set ?cs. full_send c" by (simp add: full_send_def)
  from bind_streams [OF t this] t data show ?thesis by blast
qed

text \<open>
  Short sends corrupt both relays. \<open>socks_bridge\<close> ignores the count of bytes sent, so the
  rest of the chunk is lost and the next chunk follows; \<open>socks_bind\<close> notices, but sends again
  from the start of the buffer, so the first bytes are repeated and the last ones lost.
\<close>

theorem short_send_corrupts:
  assumes "0 < k" "k < length bs" "length bs \<le> 1024" "bs' \<noteq> []" "length bs' \<le> 1024"
  shows "map_option to_server
      (relay_run bridge_handler (bridge_start (bridge_init reply up_mem down_mem))
         [Resolved, Connected, Replied False, Got FROM_CLIENT bs, Sent TO_SERVER (length bs) k,
          Got FROM_CLIENT bs', Sent TO_SERVER (length bs') (length bs')])
      = Some (take k bs @ bs')
    \<and> map_option to_server
      (relay_run bind_handler (bind_do_bind port (bridge_init reply up_mem down_mem))
         [Replied True, Accepted, Replied False, Got FROM_CLIENT bs, Sent TO_SERVER (length bs) k,
          Sent TO_SERVER (length bs - k) (length bs - k)])
      = Some (take k bs @ take (length bs - k) bs)"
proof -
  have "bs \<noteq> []" using assms by auto
  with assms show ?thesis by (simp add: bridge_eval bind_eval)
qed

theorem short_send_corrupts_witness:
  "map_option to_server
     (relay_run bind_handler (bind_do_bind 80 (bridge_init [0, 90, 0, 0] [] []))
        [Replied True, Accepted, Replied False, Got FROM_CLIENT [1, 2], Sent TO_SERVER 2 1,
         Sent TO_SERVER 1 1]) = Some [1, 1]"
  using short_send_corrupts [of 1 "[1, 2]" "[3]" "[0, 90, 0, 0]" "[]" "[]" 80]
  by (simp del: relay_run.simps map_option_eq_Some add: numeral_2_eq_2)

text \<open>
  BIND tells the client the port it listens on: both replies are the session's reply with
  the bound port, high byte first, in bytes 2 and 3, and the two bytes give the port back.
\<close>

theorem bind_announces_port:
  assumes "length reply = 8"
  shows "\<exists>hi lo. map_option replies
      (relay_run bind_handler (bind_do_bind port (bridge_init reply up_mem down_mem))
         [Replied True, Accepted, Replied False])
      = Some [reply[2 := hi, 3 := lo], reply[2 := hi, 3 := lo]]
    \<and> unat hi * 256 + unat lo = unat port"
proof -
  have "unat port < 65536" by (rule order_less_le_trans [OF unsigned_less]) simp
  then have *: "unat (of_nat (unat port div 256) :: byte) * 256
      + unat (of_nat (unat port mod 256) :: byte) = unat port"
    by simp
  show ?thesis
    by (rule exI [of _ "of_nat (unat port div 256)"], rule exI [of _ "of_nat (unat port mod 256)"],
        rule conjI [OF _ *]) (simp add: bind_eval)
qed

theorem bind_announces_port_witness:
  "\<exists>hi lo. map_option replies
      (relay_run bind_handler (bind_do_bind 8080 (bridge_init [0, 90, 0, 0, 0, 0, 0, 0] [] []))
         [Replied True, Accepted, Replied False])
      = Some [[0, 90, hi, lo, 0, 0, 0, 0], [0, 90, hi, lo, 0, 0, 0, 0]]
    \<and> unat hi * 256 + unat lo = 8080"
  using bind_announces_port [of "[0, 90, 0, 0, 0, 0, 0, 0]" 8080 "[]" "[]"]
  by (simp del: relay_run.simps map_option_eq_Some)

end
