(* ===== verification/Console.thy ===== *)
theory Console
  imports Prelude
begin

text \<open>
  \<open>project3/console.cpp\<close>, the CGI program that drives up to five remote shells: the parser of
  the query string, the page it prints, the escaping of shell output into script lines, and the
  \<open>session\<close> that reads a shell's output and answers each prompt with the next line of its test
  case. \<open>project4/console.cpp\<close> has the same \<open>parser\<close>, \<open>print_html\<close>, \<open>escape\<close> and output
  functions; what it does differently is in the theory \<open>Console_Socks\<close>.
\<close>

section \<open>The query string\<close>

text \<open>
  One \<open>key=value\<close> piece. Without \<open>=\<close>, \<open>posi\<close> is \<open>-1\<close>: \<open>substr(0, -1)\<close> and \<open>substr(0)\<close> are both
  the whole piece.
\<close>

definition split_pair :: "string \<Rightarrow> string \<times> string" where
  "split_pair sub =
     (case find_sub ''='' sub of
        Some posi \<Rightarrow> (take posi sub, drop (posi + 1) sub)
      | None \<Rightarrow> (sub, sub))"

function parser_loop :: "string \<Rightarrow> (string \<rightharpoonup> string) \<Rightarrow> (string \<rightharpoonup> string)" where
  "parser_loop s queries =
     (case find_sub ''&'' s of
        Some pos \<Rightarrow>
          (let (k, v) = split_pair (take pos s)
           in parser_loop (drop (pos + 1) s) (queries(k \<mapsto> v)))
      | None \<Rightarrow> (let (k, v) = split_pair s in queries(k \<mapsto> v)))"
  by pat_completeness auto
termination
  by (relation "measure (\<lambda>(s, q). length s)") (auto dest!: find_sub_Some)

declare parser_loop.simps [simp del]

definition parser :: "string \<Rightarrow> (string \<rightharpoonup> string)" where
  "parser s = parser_loop s Map.empty"

text \<open>\<open>info_map[key]\<close>; the entry that \<open>operator[]\<close> adds for a missing key is not observable.\<close>

definition at :: "(string \<rightharpoonup> string) \<Rightarrow> string \<Rightarrow> string" where
  "at m k = (case m k of None \<Rightarrow> [] | Some v \<Rightarrow> v)"

section \<open>Starting the sessions\<close>

record server_info =
  info_id :: string
  info_host :: string
  info_port :: string
  info_file :: string

text \<open>\<open>"s" + to_string(i)\<close> and its like.\<close>

definition key_of :: "char \<Rightarrow> nat \<Rightarrow> string" where
  "key_of c i = c # nat_str i"

fun start_sessions :: "(string \<rightharpoonup> string) \<Rightarrow> nat list \<Rightarrow> server_info list" where
  "start_sessions m [] = []"
| "start_sessions m (i # idxs) =
     (if at m (key_of CHR ''h'' i) \<noteq> [] \<and> at m (key_of CHR ''p'' i) \<noteq> []
         \<and> at m (key_of CHR ''f'' i) \<noteq> []
      then \<lparr>info_id = key_of CHR ''s'' i, info_host = at m (key_of CHR ''h'' i),
            info_port = at m (key_of CHR ''p'' i), info_file = at m (key_of CHR ''f'' i)\<rparr>
           # start_sessions m idxs
      else start_sessions m idxs)"

text \<open>\<open>string(getenv("QUERY_STRING"))\<close> of an unset variable is a null pointer.\<close>

definition console_main :: "string option \<Rightarrow> server_info list res" where
  "console_main query =
     (case query of
        None \<Rightarrow> Inl Null_Pointer
      | Some q \<Rightarrow> Inr (start_sessions (parser q) [0..<5]))"

section \<open>Script output\<close>

definition quote :: char where "quote = CHR 0x27"

text \<open>\<open>int(content[i])\<close> of a \<open>char\<close>, which is signed.\<close>

definition signed_code :: "char \<Rightarrow> int" where
  "signed_code c = (if code_of c < 128 then int (code_of c) else int (code_of c) - 256)"

fun escape :: "string \<Rightarrow> string" where
  "escape [] = []"
| "escape (c # cs) = ''&#'' @ int_str (signed_code c) @ '';'' @ escape cs"

definition output_shell :: "string \<Rightarrow> string \<Rightarrow> string" where
  "output_shell sess content =
     ''<script>document.getElementById('' @ [quote] @ sess @ [quote] @ '').innerHTML += '' @ [quote]
       @ escape content @ [quote] @ '';</script>'' @ [newline]"

definition output_command :: "string \<Rightarrow> string \<Rightarrow> string" where
  "output_command sess content =
     ''<script>document.getElementById('' @ [quote] @ sess @ [quote] @ '').innerHTML += '' @ [quote]
       @ ''<b>'' @ escape content @ ''</b>'' @ [quote] @ '';</script>'' @ [newline]"

section \<open>The page\<close>

text \<open>
  \<open>print_html\<close>: the static page around one header cell per session, which holds the host and
  the port of the query as they came. \<open>dq\<close> stands for the double quotes of the HTML text.
\<close>

definition dq :: "string \<Rightarrow> string" where
  "dq s = CHR 0x22 # s @ [CHR 0x22]"

definition header_cell :: "(string \<rightharpoonup> string) \<Rightarrow> nat \<Rightarrow> string" where
  "header_cell m i = ''<th scope='' @ dq ''col'' @ ''>'' @ at m (key_of CHR ''h'' i) @ '':''
     @ at m (key_of CHR ''p'' i) @ ''</th>''"

definition body_cell :: "nat \<Rightarrow> string" where
  "body_cell i = ''<td><pre id='' @ dq (key_of CHR ''s'' i) @ '' class='' @ dq ''mb-0'' @ ''></pre></td>''"

definition page_head :: "string list" where
  "page_head =
     [''<!DOCTYPE html>'', ''<html lang='' @ dq ''en'' @ ''>'', ''<head>'',
      ''<meta charset='' @ dq ''UTF-8'' @ '' />'', ''<title>NP Project 3 Console</title>'',
      ''<link'', ''rel='' @ dq ''stylesheet'',
      ''href='' @ dq ''https://cdn.jsdelivr.net/npm/bootstrap@4.5.3/dist/css/bootstrap.min.css'',
      ''integrity='' @ dq ''sha384-TX8t27EcRE3e/ihU7zmQxVncDAy5uIKz4rEkgIXeMed4M0jlfIDPvg6uqKI2xXr2'',
      ''crossorigin='' @ dq ''anonymous'', ''/>'', ''<link'',
      ''href='' @ dq ''https://fonts.googleapis.com/css?family=Source+Code+Pro'',
      ''rel='' @ dq ''stylesheet'', ''/>'', ''<link'', ''rel='' @ dq ''icon'',
      ''type='' @ dq ''image/png'',
      ''href='' @ dq ''https://cdn0.iconfinder.com/data/icons/small-n-flat/24/678068-terminal-512.png'',
      ''/>'', ''<style>'', ''* {'',
      ''font-family: '' @ [quote] @ ''Source Code Pro'' @ [quote] @ '', monospace;'',
      ''font-size: 1rem !important;'', ''}'', ''body {'', ''background-color: #212529;'', ''}'',
      ''pre {'', ''color: #cccccc;'', ''}'', ''b {'', ''color: #01b468;'', ''}'', ''</style>'',
      ''</head>'', ''<body>'', ''<table class='' @ dq ''table table-dark table-bordered'' @ ''>'',
      ''<thead>'', ''<tr>'']"

definition print_html :: "(string \<rightharpoonup> string) \<Rightarrow> string" where
  "print_html m =
     ''Content-type: text/html'' @ [CHR 0x0D, newline, CHR 0x0D, newline] @
     unlines (page_head @ map (header_cell m) [0..<5] @ [''</tr>'', ''</thead>'', ''<tbody>'', ''<tr>'']
       @ map body_cell [0..<5]
       @ [''</tr>'', ''</tbody>'', ''</table>'', ''</body>'', ''</html>''])"

section \<open>A session\<close>

text \<open>
  \<open>html\<close> is what went to \<open>cout\<close>, \<open>sent\<close> the writes to the shell, \<open>reading\<close> whether a read is
  under way.
\<close>

record session =
  sessionId :: string
  cmd_str :: "string list"
  html :: string
  sent :: "string list"
  reading :: bool

text \<open>\<open>start()\<close>: the lines of the test case; a file that does not open has none.\<close>

definition session_start :: "server_info \<Rightarrow> (string \<Rightarrow> string option) \<Rightarrow> session" where
  "session_start info files =
     \<lparr>sessionId = info_id info,
      cmd_str = (case files (''test_case/'' @ info_file info) of None \<Rightarrow> [] | Some text \<Rightarrow> getlines text),
      html = [], sent = [], reading = True\<rparr>"

definition do_write :: "session \<Rightarrow> session" where
  "do_write s =
     (let output_str = (case cmd_str s of [] \<Rightarrow> [] | c # _ \<Rightarrow> c) @ [newline]
      in s\<lparr>cmd_str := tl (cmd_str s), html := html s @ output_command (sessionId s) output_str,
           sent := sent s @ [output_str]\<rparr>)"

text \<open>The completion of a read: data, end of file, or another error.\<close>

datatype read_result = Data string | Eof string | Read_Error string

definition on_read :: "read_result \<Rightarrow> session \<Rightarrow> session" where
  "on_read r s0 =
     (let s = s0\<lparr>reading := False\<rparr> in
      case r of
        Data str \<Rightarrow>
          (let s1 = s\<lparr>html := html s @ output_shell (sessionId s) str\<rparr>;
               s2 = (if find_sub ''%'' str \<noteq> None then do_write s1 else s1)
           in s2\<lparr>reading := True\<rparr>)
      | Eof str \<Rightarrow> s\<lparr>html := html s @ output_shell (sessionId s) str\<rparr>
      | Read_Error msg \<Rightarrow> s\<lparr>html := html s @ ''Error: '' @ msg @ [newline]\<rparr>)"

fun session_run :: "session \<Rightarrow> read_result list \<Rightarrow> session" where
  "session_run s [] = s"
| "session_run s (r # rs) = (if reading s then session_run (on_read r s) rs else s)"

section \<open>Lemmas\<close>

text \<open>Query strings: pieces joined by \<open>&\<close>.\<close>

fun show_query :: "(string \<times> string) list \<Rightarrow> string" where
  "show_query [] = []"
| "show_query [(k, v)] = k @ ''='' @ v"
| "show_query ((k, v) # kv # kvs) = k @ ''='' @ v @ ''&'' @ show_query (kv # kvs)"

definition pair_ok :: "string \<times> string \<Rightarrow> bool" where
  "pair_ok kv \<longleftrightarrow> CHR ''='' \<notin> set (fst kv) \<and> CHR ''&'' \<notin> set (fst kv) \<and> CHR ''&'' \<notin> set (snd kv)"

lemma split_pair_eq: "CHR ''='' \<notin> set k \<Longrightarrow> split_pair (k @ CHR ''='' # v) = (k, v)"
  by (simp add: split_pair_def)

lemma parser_loop_last:
  "CHR ''&'' \<notin> set s \<Longrightarrow> parser_loop s q = q(fst (split_pair s) \<mapsto> snd (split_pair s))"
  by (simp add: parser_loop.simps split: prod.splits)

lemma parser_loop_piece:
  "CHR ''&'' \<notin> set s \<Longrightarrow>
   parser_loop (s @ CHR ''&'' # r) q = parser_loop r (q(fst (split_pair s) \<mapsto> snd (split_pair s)))"
  by (subst parser_loop.simps) (simp split: prod.splits)

lemma parser_loop_query:
  "kvs \<noteq> [] \<Longrightarrow> \<forall>kv \<in> set kvs. pair_ok kv \<Longrightarrow> parser_loop (show_query kvs) q = q ++ map_of (rev kvs)"
proof (induction kvs arbitrary: q rule: show_query.induct)
  case 1
  then show ?case by simp
next
  case (2 k v)
  then show ?case
    using parser_loop_last [of "k @ CHR ''='' # v" q] by (simp add: pair_ok_def split_pair_eq map_add_def fun_eq_iff)
next
  case (3 k v kv kvs)
  then have "parser_loop (show_query ((k, v) # kv # kvs)) q
      = parser_loop (show_query (kv # kvs)) (q(k \<mapsto> v))"
    using parser_loop_piece [of "k @ CHR ''='' # v" "show_query (kv # kvs)" q]
    by (simp add: pair_ok_def split_pair_eq)
  with 3 show ?case by (simp add: map_add_assoc)
qed

text \<open>Escaped text.\<close>

definition entity_char :: "char \<Rightarrow> bool" where
  "entity_char c \<longleftrightarrow> is_digit c \<or> c \<in> set ''&#-;''"

lemma int_str_chars: "c \<in> set (int_str z) \<Longrightarrow> is_digit c \<or> c = CHR ''-''"
  by (auto simp: int_str_def split: if_splits dest: nat_str_digits)

lemma escape_chars: "c \<in> set (escape s) \<Longrightarrow> entity_char c"
  by (induction s) (auto simp: entity_char_def dest: int_str_chars)

text \<open>
  What a browser makes of such text: decimal character references, as HTML defines them (no
  sign), limited to one byte; anything else is refused.
\<close>

function html_decode :: "string \<Rightarrow> string option" where
  "html_decode s =
     (case s of
        [] \<Rightarrow> Some []
      | c1 # c2 # r \<Rightarrow>
          (let ds = takeWhile is_digit r in
           if c1 = CHR ''&'' \<and> c2 = CHR ''#'' \<and> ds \<noteq> [] \<and> dec_val 0 ds < 256
           then (case dropWhile is_digit r of
                   c3 # r' \<Rightarrow> if c3 = CHR '';'' then map_option ((#) (char_of (dec_val 0 ds))) (html_decode r')
                              else None
                 | [] \<Rightarrow> None)
           else None)
      | _ \<Rightarrow> None)"
  by pat_completeness auto
termination
  by (relation "measure length") (auto dest!: dropWhile_tail_length)

declare html_decode.simps [simp del]

lemma semicolon_no_digit [simp]: "\<not> is_digit (CHR '';'')" "\<not> is_digit (CHR ''-'')"
  by (simp_all add: is_digit_def code_of_def)

lemma html_decode_ref:
  "n < 256 \<Longrightarrow> html_decode (''&#'' @ nat_str n @ '';'' @ r) = map_option ((#) (char_of n)) (html_decode r)"
proof -
  assume n: "n < 256"
  have "takeWhile is_digit (nat_str n @ CHR '';'' # r) = nat_str n"
    "dropWhile is_digit (nat_str n @ CHR '';'' # r) = CHR '';'' # r"
    using nat_str_digits [of _ n] by (simp_all add: takeWhile_append dropWhile_append)
  with n show ?thesis by (subst html_decode.simps) simp
qed

lemma html_decode_minus: "html_decode (''&#'' @ CHR ''-'' # r) = None"
  by (subst html_decode.simps) simp

lemma html_decode_escape:
  "html_decode (escape s) = (if \<forall>c \<in> set s. code_of c < 128 then Some s else None)"
proof (induction s)
  case Nil
  then show ?case by (simp add: html_decode.simps)
next
  case (Cons c cs)
  show ?case
  proof (cases "code_of c < 128")
    case True
    then have "escape (c # cs) = ''&#'' @ nat_str (code_of c) @ '';'' @ escape cs"
      by (simp add: signed_code_def int_str_def)
    moreover have "char_of (code_of c) = c" by (simp add: code_of_def)
    ultimately show ?thesis
      using Cons True html_decode_ref [of "code_of c" "escape cs"] by simp
  next
    case False
    then have "escape (c # cs) = ''&#'' @ CHR ''-'' # nat_str (nat (- signed_code c)) @ '';'' @ escape cs"
      by (simp add: signed_code_def int_str_def)
    with False html_decode_minus show ?thesis by simp
  qed
qed

text \<open>Sessions.\<close>

lemma on_read_data:
  "on_read (Data str) s =
     (if CHR ''%'' \<in> set str
      then (do_write (s\<lparr>reading := False, html := html s @ output_shell (sessionId s) str\<rparr>))\<lparr>reading := True\<rparr>
      else s\<lparr>reading := True, html := html s @ output_shell (sessionId s) str\<rparr>)"
  by (cases rule: find_sub_char_cases [of str "CHR ''%''"]) (auto simp: on_read_def Let_def)

definition prompts :: "string list \<Rightarrow> nat" where
  "prompts chunks = length (filter (\<lambda>str. CHR ''%'' \<in> set str) chunks)"

fun next_lines :: "nat \<Rightarrow> string list \<Rightarrow> string list" where
  "next_lines 0 ls = []"
| "next_lines (Suc k) ls = (case ls of [] \<Rightarrow> [] | l # _ \<Rightarrow> l) # next_lines k (tl ls)"

lemma next_lines_eq: "next_lines k ls = take k (ls @ replicate k [])"
proof (induction k arbitrary: ls)
  case 0
  then show ?case by simp
next
  case (Suc k)
  show ?case
  proof (cases ls)
    case Nil
    then show ?thesis by (simp add: Suc)
  next
    case (Cons l r)
    then show ?thesis by (simp add: Suc min_def del: replicate_Suc)
  qed
qed

lemma session_run_sent:
  "reading s \<Longrightarrow> sent (session_run s (map Data chunks)) =
     sent s @ map (\<lambda>l. l @ [newline]) (next_lines (prompts chunks) (cmd_str s))"
  by (induction chunks arbitrary: s) (simp_all add: prompts_def on_read_data do_write_def Let_def)

section \<open>Properties\<close>

text \<open>
  C38. The query parser reads back every query of the panel's form: after \<open>k1=v1&k2=v2...\<close> with
  keys free of \<open>=\<close> and \<open>&\<close> and values free of \<open>&\<close>, a key has the value of its last pair and no
  other key is bound.
\<close>

theorem parser_roundtrip:
  assumes "kvs \<noteq> []" "\<forall>kv \<in> set kvs. pair_ok kv"
  shows "parser (show_query kvs) = map_of (rev kvs)"
  using parser_loop_query [OF assms, of Map.empty] by (simp add: parser_def)

theorem parser_roundtrip_witness:
  "parser ''h0=np1&p0=7001&f0=a=b'' ''f0'' = Some ''a=b''"
  using parser_roundtrip [of "[(''h0'', ''np1''), (''p0'', ''7001''), (''f0'', ''a=b'')]"]
  by (simp add: pair_ok_def)

text \<open>
  The console starts one session for each of the indices 0 to 4 whose host, port and file
  are all given and not empty, in order, under distinct ids, and no other.
\<close>

theorem console_main_sessions:
  "\<exists>infos. console_main (Some q) = Inr infos \<and>
     map info_id infos = map (key_of CHR ''s'')
       (filter (\<lambda>i. \<forall>c \<in> set ''hpf''. at (parser q) (key_of c i) \<noteq> []) [0..<5])
     \<and> distinct (map info_id infos)
     \<and> (\<forall>info \<in> set infos. \<exists>i < 5. info_id info = key_of CHR ''s'' i
          \<and> info_host info = at (parser q) (key_of CHR ''h'' i)
          \<and> info_port info = at (parser q) (key_of CHR ''p'' i)
          \<and> info_file info = at (parser q) (key_of CHR ''f'' i))"
proof -
  let ?m = "parser q"
  have ids: "map info_id (start_sessions ?m is) = map (key_of CHR ''s'')
      (filter (\<lambda>i. \<forall>c \<in> set ''hpf''. at ?m (key_of c i) \<noteq> []) is)" for "is"
    by (induction "is") auto
  moreover have "distinct (map info_id (start_sessions ?m [0..<5]))"
    unfolding ids by (simp add: distinct_map inj_on_def key_of_def del: upt_rec_numeral)
  moreover have "info \<in> set (start_sessions ?m is) \<Longrightarrow> \<exists>i \<in> set is. info_id info = key_of CHR ''s'' i
          \<and> info_host info = at ?m (key_of CHR ''h'' i) \<and> info_port info = at ?m (key_of CHR ''p'' i)
          \<and> info_file info = at ?m (key_of CHR ''f'' i)" for info "is"
    by (induction "is") (auto split: if_splits)
  ultimately show ?thesis
    by (intro exI [of _ "start_sessions ?m [0..<5]"]) (fastforce simp: console_main_def)
qed

theorem console_main_sessions_witness:
  "\<exists>infos. console_main (Some ''h1=np1&p1=7001&f1=t'') = Inr infos \<and> map info_id infos = [''s1'']"
proof -
  let ?q = "''h1=np1&p1=7001&f1=t''"
  have upt: "[0..<5] = [0, 1, 2, 3, 4::nat]" by code_simp
  have num: "nat_str 0 = ''0''" "nat_str 1 = ''1''" "nat_str (Suc 0) = ''1''" "nat_str 2 = ''2''"
    "nat_str 3 = ''3''" "nat_str 4 = ''4''"
    by code_simp+
  have "parser ?q = map_of (rev [(''h1'', ''np1''), (''p1'', ''7001''), (''f1'', ''t'')])"
    using parser_loop_query [of "[(''h1'', ''np1''), (''p1'', ''7001''), (''f1'', ''t'')]" Map.empty]
    by (simp add: parser_def pair_ok_def)
  then have ids: "map (key_of CHR ''s'') (filter (\<lambda>i. \<forall>c \<in> set ''hpf''. at (parser ?q) (key_of c i) \<noteq> []) [0..<5])
      = [''s1'']"
    by (simp only: upt) (simp add: key_of_def at_def num)
  show ?thesis using console_main_sessions [of ?q] unfolding ids by (elim exE conjE) (intro exI conjI)
qed



text \<open>
  A session answers prompts with its test case, line by line: after any number of chunks it
  has sent, for each chunk with a percent sign, the next line with a newline, and bare newlines
  once the lines are used up.
\<close>

theorem session_sends_lines:
  assumes "files (''test_case/'' @ info_file info) = Some (unlines ls)"
    and "\<forall>l \<in> set ls. \<forall>c \<in> set l. \<not> is_nl c" and "prompts chunks = k"
  shows "sent (session_run (session_start info files) (map Data chunks)) =
           map (\<lambda>l. l @ [newline]) (take k (ls @ replicate k []))"
  using assms session_run_sent [of "session_start info files" chunks]
  by (simp add: session_start_def getlines_unlines next_lines_eq)

theorem session_sends_lines_witness:
  "sent (session_run (session_start \<lparr>info_id = ''s0'', info_host = ''h'', info_port = ''1'', info_file = ''t''\<rparr>
      (\<lambda>_. Some (unlines [''ls'']))) (map Data [''% '', ''bin'', ''% ''])) = [''ls'' @ [newline], [newline]]"
  by (subst session_sends_lines [OF _ _ refl, where ls = "[''ls'']"])
     (simp_all add: prompts_def is_nl_def newline_def eval_nat_numeral)

text \<open>
  The page repeats the host of the query verbatim: the header cells are not escaped, so
  markup in the \<open>h0\<close> parameter becomes markup of the page.
\<close>

theorem page_embeds_host:
  assumes "CHR ''&'' \<notin> set h"
  shows "sublist (''>'' @ h @ '':'') (print_html (parser (''h0='' @ h)))"
proof -
  have "at (parser (''h0='' @ h)) (key_of CHR ''h'' 0) = h"
    using parser_loop_last [of "''h0='' @ h" Map.empty] split_pair_eq [of "''h0''" h] assms
    by (simp add: parser_def at_def key_of_def nat_str.simps digit_char_literals)
  then have "header_cell (parser (''h0='' @ h)) 0 = (''<th scope='' @ dq ''col'') @ (''>'' @ h @ '':'')
      @ (at (parser (''h0='' @ h)) (key_of CHR ''p'' 0) @ ''</th>'')"
    by (simp add: header_cell_def)
  then have cell: "sublist (''>'' @ h @ '':'') (header_cell (parser (''h0='' @ h)) 0)"
    by (simp only: sublist_appendI)
  have line: "sublist l (unlines (ls @ l # ls'))" for l ls ls'
    by (simp add: unlines_def sublist_appendI)
  have "sublist (header_cell m 0) (print_html m)" for m
  proof -
    have "[0..<5] = 0 # [1..<(5::nat)]" by (simp add: upt_rec)
    then obtain ls' where page: "print_html m = ''Content-type: text/html'' @
        [CHR 0x0D, newline, CHR 0x0D, newline] @ unlines (page_head @ header_cell m 0 # ls')"
      unfolding print_html_def by (simp only: list.map append_Cons)
    have "sublist (header_cell m 0) (unlines (page_head @ header_cell m 0 # ls'))" by (rule line)
    then show ?thesis unfolding page by (intro sublist_order.order.trans [OF _ sublist_append_leftI])
  qed
  with cell show ?thesis by (rule sublist_order.order.trans)
qed

theorem page_embeds_host_witness:
  "sublist ''><script>:'' (print_html (parser ''h0=<script>''))"
  using page_embeds_host [of "''<script>''"] by simp

end
