(* ===== verification/Console_Socks.thy ===== *)
theory Console_Socks
  imports Console
begin

text \<open>
  What \<open>project4/console.cpp\<close> does differently from project 3: class \<open>npshell\<close> connects to a
  SOCKS server, sends it a CONNECT request for the shell's endpoint, waits for the reply, and only
  then opens the test case. Reads go into the member array \<open>data_\<close> (1024 characters), which is
  then taken as a C string, whatever the length of the read. The resolver is the library's: the
  textual address and the port of the endpoint are parameters.
\<close>

section \<open>State\<close>

record npshell = session +
  data_arr :: "char list"
  socket_open :: bool
  source :: string
  requests :: "byte list list"

text \<open>The constructor; \<open>mem\<close> is what the uninitialised array holds.\<close>

definition npshell_init :: "server_info \<Rightarrow> char list \<Rightarrow> npshell" where
  "npshell_init info mem =
     \<lparr>sessionId = info_id info, cmd_str = [], html = [], sent = [], reading = False,
      data_arr = mem, socket_open = True, source = info_file info, requests = []\<rparr>"

section \<open>Cutting an address\<close>

definition console_slicer :: "string \<Rightarrow> string \<Rightarrow> (string \<times> string) res" where
  "console_slicer s del =
     (case find_sub del s of
        Some pos \<Rightarrow> Inr (take pos s, drop (pos + length del) s)
      | None \<Rightarrow> bind_res (substr_from s (length del - 1)) (\<lambda>_. Inr (s, [])))"

interpretation console_slicer: field_slicer console_slicer
  by unfold_locales (simp add: console_slicer_def)

text \<open>The loop of \<open>do_request\<close> over the components of the address.\<close>

fun request_octets :: "nat \<Rightarrow> string \<Rightarrow> byte list res" where
  "request_octets 0 ip = Inr []"
| "request_octets (Suc n) ip =
     bind_res (console_slicer ip ''.'') (\<lambda>(part, rest).
     bind_res (stoi part) (\<lambda>v.
     bind_res (request_octets n rest) (\<lambda>bs. Inr (word_of_int v # bs))))"

definition socks_request :: "string \<Rightarrow> 16 word \<Rightarrow> byte list res" where
  "socks_request ip prt =
     bind_res (request_octets 4 ip) (\<lambda>octets.
       Inr ([4, 1, of_nat (unat prt div 256), of_nat (unat prt mod 256)] @ octets))"

section \<open>Handlers\<close>

text \<open>\<open>do_request\<close>; the endpoint is the first one \<open>resolver_.resolve(query_)\<close> gives, or it throws.\<close>

definition do_request :: "(string \<times> 16 word) option \<Rightarrow> npshell \<Rightarrow> npshell res" where
  "do_request endpoint s =
     (case endpoint of
        None \<Rightarrow> Inl System_Error
      | Some (ip, prt) \<Rightarrow>
          bind_res (socks_request ip prt) (\<lambda>req. Inr (s\<lparr>requests := requests s @ [req]\<rparr>)))"

text \<open>\<open>do_connect\<close>'s handler: the request, then the read of the eight reply bytes.\<close>

definition on_connect :: "(string \<times> 16 word) option \<Rightarrow> npshell \<Rightarrow> npshell res" where
  "on_connect endpoint s =
     bind_res (do_request endpoint s) (\<lambda>s'. Inr (s'\<lparr>reading := True\<rparr>))"

definition on_connect_error :: "string \<Rightarrow> npshell \<Rightarrow> npshell" where
  "on_connect_error msg s = s\<lparr>html := html s @ ''Error: '' @ msg @ [newline]\<rparr>"

text \<open>
  \<open>do_open_test_case\<close>: the reply lands in \<open>data_\<close>; code 90 opens the test case and starts the
  dialogue, anything else (or an error, \<open>None\<close>) closes the socket.
\<close>

definition on_reply :: "char list option \<Rightarrow> (string \<Rightarrow> string option) \<Rightarrow> npshell \<Rightarrow> npshell" where
  "on_reply reply files s0 =
     (let s = s0\<lparr>reading := False\<rparr> in
      case reply of
        None \<Rightarrow> s\<lparr>socket_open := False\<rparr>
      | Some bytes \<Rightarrow>
          (let s1 = s\<lparr>data_arr := received_into (data_arr s) bytes\<rparr> in
           if code_of (data_arr s1 ! 1) = 90
           then s1\<lparr>cmd_str := cmd_str s1 @
                     (case files (''test_case/'' @ source s1) of None \<Rightarrow> [] | Some text \<Rightarrow> getlines text),
                   reading := True\<rparr>
           else s1\<lparr>socket_open := False\<rparr>))"

text \<open>\<open>string _str(data_)\<close>: up to the first NUL; without one the copy leaves the array.\<close>

definition c_string :: "char list \<Rightarrow> string res" where
  "c_string arr = (if nul \<in> set arr then Inr (takeWhile (\<lambda>c. c \<noteq> nul) arr) else Inl Out_Of_Bounds)"

definition console_do_write :: "npshell \<Rightarrow> npshell" where
  "console_do_write s =
     (let output_str = (case cmd_str s of [] \<Rightarrow> [] | c # _ \<Rightarrow> c) @ [newline]
      in s\<lparr>cmd_str := tl (cmd_str s), html := html s @ output_command (sessionId s) output_str,
           sent := sent s @ [output_str]\<rparr>)"

definition console_on_read :: "read_result \<Rightarrow> npshell \<Rightarrow> npshell res" where
  "console_on_read r s0 =
     (let s = s0\<lparr>reading := False\<rparr> in
      case r of
        Data bytes \<Rightarrow>
          (let s1 = s\<lparr>data_arr := received_into (data_arr s) bytes\<rparr>
           in bind_res (c_string (data_arr s1)) (\<lambda>str.
                let s2 = s1\<lparr>html := html s1 @ output_shell (sessionId s1) str\<rparr>;
                    s3 = (if find_sub ''%'' str \<noteq> None then console_do_write s2 else s2)
                in Inr (s3\<lparr>reading := True\<rparr>)))
      | Eof bytes \<Rightarrow>
          (let s1 = s\<lparr>data_arr := received_into (data_arr s) bytes\<rparr>
           in bind_res (c_string (data_arr s1)) (\<lambda>str.
                Inr (s1\<lparr>html := html s1 @ output_shell (sessionId s1) str\<rparr>)))
      | Read_Error msg \<Rightarrow> Inr (s\<lparr>html := html s @ ''Error: '' @ msg @ [newline]\<rparr>))"

section \<open>Lemmas\<close>

lemma request_octets_step:
  "CHR ''.'' \<notin> set p \<Longrightarrow> stoi p = Inr v \<Longrightarrow>
   request_octets (Suc n) (p @ CHR ''.'' # r) =
     bind_res (request_octets n r) (\<lambda>bs. Inr (word_of_int v # bs))"
  by (simp add: console_slicer.slice_field)

lemma request_octets_last:
  "CHR ''.'' \<notin> set p \<Longrightarrow> stoi p = Inr v \<Longrightarrow> request_octets (Suc 0) p = Inr [word_of_int v]"
  by (simp add: console_slicer_def substr_from_def)

lemma nat_str_no_dot [simp]: "CHR ''.'' \<notin> set (nat_str n)"
  using nat_str_digits [of "CHR ''.''" n] by (auto simp: is_digit_def code_of_def)

lemma octets_of_bytes:
  "request_octets 4 (nat_str (unat a) @ ''.'' @ nat_str (unat b) @ ''.'' @ nat_str (unat c) @ ''.''
     @ nat_str (unat d)) = Inr [a, b, c, d]"
proof -
  have n: "stoi (nat_str (unat x)) = Inr (int (unat x))" for x :: byte
    by (rule stoi_nat_str [OF order_less_trans [OF unat_byte_less]]) simp
  have "(4::nat) = Suc (Suc (Suc (Suc 0)))" by simp
  then show ?thesis
    by (simp only: append_Cons append_Nil request_octets_step [OF nat_str_no_dot n]
        request_octets_last [OF nat_str_no_dot n] bind_res_simps) simp
qed

lemma c_string_prefix:
  "nul \<notin> set t \<Longrightarrow> c_string (t @ nul # rest) = Inr t"
  by (simp add: c_string_def takeWhile_append takeWhile_eq_all_conv)

section \<open>Properties\<close>

text \<open>
  For an IPv4 endpoint the console sends the eight bytes of a SOCKS4 CONNECT request with
  the port high byte first and the four octets in order; nothing follows them.
\<close>

theorem socks_request_bytes:
  "socks_request (nat_str (unat a) @ ''.'' @ nat_str (unat b) @ ''.'' @ nat_str (unat c) @ ''.''
     @ nat_str (unat d)) prt
   = Inr [4, 1, of_nat (unat prt div 256), of_nat (unat prt mod 256), a, b, c, d]"
  unfolding socks_request_def octets_of_bytes by simp

text \<open>
  The dialogue is opened by a granted request only: after a reply of at least two bytes the
  console reads on, with the lines of its test case, exactly when the second byte is 90;
  otherwise, and when the read fails, it closes the socket and will send nothing.
\<close>

theorem reply_opens_dialogue:
  assumes "length bytes \<ge> 2" "code_of (bytes ! 1) = code" "socket_open s" "cmd_str s = []"
    and "files (''test_case/'' @ source s) = Some text"
  shows "reading (on_reply (Some bytes) files s) = (code = 90)
    \<and> socket_open (on_reply (Some bytes) files s) = (code = 90)
    \<and> cmd_str (on_reply (Some bytes) files s) = (if code = 90 then getlines text else [])
    \<and> \<not> reading (on_reply None files s) \<and> \<not> socket_open (on_reply None files s)"
proof -
  have "received_into (data_arr s) bytes ! 1 = bytes ! 1"
    using assms(1) by (simp add: received_into_def nth_append)
  with assms show ?thesis by (simp add: on_reply_def Let_def)
qed

theorem reply_opens_dialogue_witness:
  "\<not> reading (on_reply (Some [CHR 0x04, CHR 0x5B, nul, nul, nul, nul, nul, nul]) (\<lambda>_. Some ''ls'')
     (npshell_init \<lparr>info_id = ''s0'', info_host = ''h'', info_port = ''1'', info_file = ''t''\<rparr> []))"
  by (subst reply_opens_dialogue [THEN conjunct1, OF _ refl])
     (simp_all add: npshell_init_def code_of_def)

text \<open>
  A read shows more than was received: the array is taken as a C string, so what an earlier,
  longer read left behind it (\<open>stale\<close>, up to the first NUL) is printed again, and a percent sign
  in it counts as a prompt and releases the next line of the test case. Only when nothing is
  left there does the session behave like that of project 3.
\<close>

theorem read_shows_stale_tail:
  assumes "nul \<notin> set bytes" "nul \<notin> set stale"
    and "drop (length bytes) (data_arr s) = stale @ nul # rest"
  shows "\<exists>s'. console_on_read (Data bytes) s = Inr s' \<and> reading s' \<and>
     prefix (html s @ output_shell (sessionId s) (bytes @ stale)) (html s') \<and>
     sent s' = sent s @ (if CHR ''%'' \<in> set (bytes @ stale)
                         then [(case cmd_str s of [] \<Rightarrow> [] | c # _ \<Rightarrow> c) @ [newline]] else [])"
proof -
  have arr: "received_into (data_arr s) bytes = (bytes @ stale) @ nul # rest"
    using assms(3) by (simp add: received_into_def)
  have str: "c_string (received_into (data_arr s) bytes) = Inr (bytes @ stale)"
    unfolding arr using assms(1,2) by (intro c_string_prefix) simp
  show ?thesis
    by (cases rule: find_sub_char_cases [of "bytes @ stale" "CHR ''%''"])
       (use str in \<open>auto simp: console_on_read_def console_do_write_def Let_def\<close>)
qed

theorem read_shows_stale_tail_witness:
  "\<exists>s'. console_on_read (Data ''b'')
      ((npshell_init \<lparr>info_id = ''s0'', info_host = ''h'', info_port = ''1'', info_file = ''t''\<rparr>
         (''a% '' @ [nul]))\<lparr>cmd_str := [''ls'']\<rparr>) = Inr s' \<and> sent s' = [''ls'' @ [newline]]"
  using read_shows_stale_tail [of "''b''" "''% ''" "(npshell_init \<lparr>info_id = ''s0'', info_host = ''h'',
      info_port = ''1'', info_file = ''t''\<rparr> (''a% '' @ [nul]))\<lparr>cmd_str := [''ls'']\<rparr>" "[]"]
  by (fastforce simp: npshell_init_def nul_def)

end
