(* ===== verification/Console_Pages.thy ===== *)
theory Console_Pages
  imports Console_Socks
begin

text \<open>
  The two console programs as a whole: the connections of class \<open>npshell\<close>, \<open>main\<close> with its up to
  five shells, and the event loop that runs their completion handlers in any order while all of them
  write to the same page. What does not depend on the program is proved once for any sessions that
  keep to their own cell.
\<close>

section \<open>Sessions side by side\<close>

text \<open>
  A run of one session over its events, and of several with each event for one of them. A handler
  that faults ends the program. The output is kept by session.
\<close>

fun alone :: "('e \<Rightarrow> 's \<Rightarrow> ('s \<times> string) res) \<Rightarrow> 'e list \<Rightarrow> 's \<Rightarrow> ('s \<times> string list) res" where
  "alone step [] s = Inr (s, [])"
| "alone step (e # es) s =
     bind_res (step e s) (\<lambda>(s', out). bind_res (alone step es s') (\<lambda>(t, outs). Inr (t, out # outs)))"

fun side_by_side ::
    "('e \<Rightarrow> 's \<Rightarrow> ('s \<times> string) res) \<Rightarrow> (nat \<times> 'e) list \<Rightarrow> 's list \<Rightarrow> ('s list \<times> (nat \<times> string) list) res" where
  "side_by_side step [] cells = Inr (cells, [])"
| "side_by_side step ((i, e) # es) cells =
     (if i < length cells
      then bind_res (step e (cells ! i)) (\<lambda>(s', out).
             bind_res (side_by_side step es (cells[i := s'])) (\<lambda>(cells', outs). Inr (cells', (i, out) # outs)))
      else side_by_side step es cells)"

definition own :: "nat \<Rightarrow> (nat \<times> 'a) list \<Rightarrow> 'a list" where
  "own i xs = map snd (filter (\<lambda>x. fst x = i) xs)"

lemma own_simps [simp]: "own i [] = []" "own i (x # xs) = (if fst x = i then [snd x] else []) @ own i xs"
  "own i (xs @ ys) = own i xs @ own i ys"
  by (simp_all add: own_def)

text \<open>A line of script for the element \<open>name\<close>, or one of the two error messages.\<close>

definition chunk_for :: "string \<Rightarrow> string \<Rightarrow> bool" where
  "chunk_for name c \<longleftrightarrow> (\<exists>t. c = output_shell name t \<or> c = output_command name t
     \<or> c = ''Error: '' @ t @ [newline] \<or> c = ''async_resolve error: '' @ t @ [newline])"

definition addressed :: "string \<Rightarrow> string \<Rightarrow> bool" where
  "addressed name out \<longleftrightarrow> (\<exists>cs. out = concat cs \<and> (\<forall>c \<in> set cs. chunk_for name c))"

lemma addressed_nil [simp]: "addressed name []"
  by (auto simp: addressed_def intro: exI [of _ "[]"])

lemma addressed_append: "addressed name a \<Longrightarrow> chunk_for name c \<Longrightarrow> addressed name (a @ c)"
  unfolding addressed_def by (elim exE conjE) (rule exI [of _ "_ @ [c]"], auto)

lemma addressed_chunk: "chunk_for name c \<Longrightarrow> addressed name c"
  using addressed_append [of name "[]" c] by simp

lemma chunk_for_outputs:
  "chunk_for name (output_shell name t)" "chunk_for name (output_command name t)"
  "chunk_for name (''Error: '' @ t @ [newline])" "chunk_for name (''async_resolve error: '' @ t @ [newline])"
  unfolding chunk_for_def by blast+

lemmas chunk_for_simps [simp] = chunk_for_outputs chunk_for_outputs(3,4) [simplified]

text \<open>The contract: a session keeps its cell and writes to no other.\<close>

locale session_family =
  fixes step :: "'e \<Rightarrow> 's \<Rightarrow> ('s \<times> string) res"
    and cell :: "'s \<Rightarrow> string"
  assumes same_cell: "step e s = Inr (s', out) \<Longrightarrow> cell s' = cell s"
    and own_cell: "step e s = Inr (s', out) \<Longrightarrow> addressed (cell s) out"
begin

lemma each_alone:
  "side_by_side step es cells = Inr (cells', outs) \<Longrightarrow> i < length cells \<Longrightarrow>
   alone step (own i es) (cells ! i) = Inr (cells' ! i, own i outs)"
proof (induction es arbitrary: cells outs)
  case (Cons x es)
  obtain j e where x: "x = (j, e)" by (cases x)
  show ?case
  proof (cases "j < length cells")
    case True
    with Cons.prems(1) x obtain s' out outs' where step: "step e (cells ! j) = Inr (s', out)"
      "side_by_side step es (cells[j := s']) = Inr (cells', outs')" "outs = (j, out) # outs'"
      by (auto simp: bind_res_Inr_iff)
    have "alone step (own i es) (cells[j := s'] ! i) = Inr (cells' ! i, own i outs')"
      using Cons.IH [OF step(2)] Cons.prems(2) by simp
    then show ?thesis using step x True by (cases "i = j") simp_all
  next
    case False
    then show ?thesis using Cons x by auto
  qed
qed simp

lemma runs_cells:
  "side_by_side step es cells = Inr (cells', outs) \<Longrightarrow>
   map cell cells' = map cell cells \<and> (\<forall>(i, out) \<in> set outs. i < length cells \<and> addressed (cell (cells ! i)) out)"
proof (induction es arbitrary: cells outs)
  case (Cons x es)
  obtain j e where x: "x = (j, e)" by (cases x)
  show ?case
  proof (cases "j < length cells")
    case True
    with Cons.prems x obtain s' out outs' where step: "step e (cells ! j) = Inr (s', out)"
      "side_by_side step es (cells[j := s']) = Inr (cells', outs')" "outs = (j, out) # outs'"
      by (auto simp: bind_res_Inr_iff)
    have same: "map cell (cells[j := s']) = map cell cells"
      using same_cell [OF step(1)] True by (simp add: map_update list_update_same_conv)
    have names: "cell (cells[j := s'] ! i) = cell (cells ! i)" if "i < length cells" for i
      using same that by (metis length_list_update nth_map)
    show ?thesis
      using Cons.IH [OF step(2)] same names own_cell [OF step(1)] True step(3) by fastforce
  next
    case False
    then show ?thesis using Cons x by auto
  qed
qed simp

lemma fault_ends_all:
  assumes "side_by_side step es cells = Inr (cells', outs)" "i < length cells" "step e (cells' ! i) = Inl f"
  shows "side_by_side step (es @ (i, e) # later) cells = Inl f"
  using assms
proof (induction es arbitrary: cells outs)
  case (Cons x es)
  obtain j d where x: "x = (j, d)" by (cases x)
  show ?case
  proof (cases "j < length cells")
    case True
    with Cons.prems(1) x obtain s' out outs' where step: "step d (cells ! j) = Inr (s', out)"
      "side_by_side step es (cells[j := s']) = Inr (cells', outs')"
      by (auto simp: bind_res_Inr_iff)
    then show ?thesis using Cons.IH [OF step(2)] Cons.prems(2,3) x True by simp
  next
    case False
    then show ?thesis using Cons x by simp
  qed
qed simp

lemma runs_on:
  assumes "\<And>e s. \<exists>s' out. step e s = Inr (s', out)"
  shows "\<exists>cells' outs. side_by_side step es cells = Inr (cells', outs)"
proof (induction es arbitrary: cells)
  case (Cons x es)
  obtain j e where x: "x = (j, e)" by (cases x)
  obtain s' out where step: "step e (cells ! j) = Inr (s', out)" using assms by blast
  obtain cells' outs where "side_by_side step es (if j < length cells then cells[j := s'] else cells) = Inr (cells', outs)"
    using Cons by blast
  then show ?case using x step by auto
qed simp

end

section \<open>The shells of project 3\<close>

text \<open>
  A shell whose host is being resolved, one that is being connected, one that talks, and one that
  has ended before. The events are the completions of the library.
\<close>

datatype shell =
    Resolving server_info
  | Connecting server_info
  | Talking session
  | Gone string

datatype shell_event =
    Found
  | Unknown string
  | Up
  | Down string
  | Said read_result

definition new_html :: "'a session_scheme \<Rightarrow> 'b session_scheme \<Rightarrow> string" where
  "new_html s s' = drop (length (html s)) (html s')"

fun shell_step :: "(string \<Rightarrow> string option) \<Rightarrow> shell_event \<Rightarrow> shell \<Rightarrow> (shell \<times> string) res" where
  "shell_step files Found (Resolving info) = Inr (Connecting info, [])"
| "shell_step files (Unknown msg) (Resolving info) =
     Inr (Gone (info_id info), ''async_resolve error: '' @ msg @ [newline])"
| "shell_step files Up (Connecting info) = Inr (Talking (session_start info files), [])"
| "shell_step files (Down msg) (Connecting info) = Inr (Gone (info_id info), ''Error: '' @ msg @ [newline])"
| "shell_step files (Said r) (Talking s) =
     (if reading s then Inr (Talking (on_read r s), new_html s (on_read r s)) else Inr (Talking s, []))"
| "shell_step files e s = Inr (s, [])"

fun shell_cell :: "shell \<Rightarrow> string" where
  "shell_cell (Resolving info) = info_id info"
| "shell_cell (Connecting info) = info_id info"
| "shell_cell (Talking s) = sessionId s"
| "shell_cell (Gone name) = name"

text \<open>\<open>main\<close> with \<open>ioservice_.run()\<close>: the page, then what the shells print as their events come.\<close>

definition console_page ::
    "(string \<Rightarrow> string option) \<Rightarrow> string option \<Rightarrow> (nat \<times> shell_event) list \<Rightarrow> string res" where
  "console_page files query events =
     bind_res (console_main query) (\<lambda>infos.
     bind_res (side_by_side (shell_step files) events (map Resolving infos)) (\<lambda>(cells, outs).
       Inr (print_html (parser (the query)) @ concat (map snd outs))))"

lemma on_read_html:
  "sessionId (on_read r s) = sessionId s" "addressed (sessionId s) (new_html s (on_read r s))"
proof -
  show "sessionId (on_read r s) = sessionId s"
    by (auto simp: on_read_def do_write_def Let_def split: read_result.split)
  show "addressed (sessionId s) (new_html s (on_read r s))"
  proof (cases r)
    case (Data str)
    then show ?thesis
      using addressed_append [OF addressed_chunk [OF chunk_for_outputs(1)] chunk_for_outputs(2)]
      by (auto simp: on_read_def do_write_def Let_def new_html_def addressed_chunk simp del: append_assoc
          simp flip: append_assoc)
  qed (simp_all add: on_read_def Let_def new_html_def addressed_chunk)
qed

interpretation shells: session_family "shell_step files" shell_cell
  for files :: "string \<Rightarrow> string option"
proof unfold_locales
  fix e s s' out
  assume step: "shell_step files e s = Inr (s', out)"
  then show "shell_cell s' = shell_cell s"
    by (cases "(files, e, s)" rule: shell_step.cases)
      (auto simp: session_start_def on_read_html(1) split: if_splits)
  from step show "addressed (shell_cell s) out"
    by (cases "(files, e, s)" rule: shell_step.cases)
      (auto simp: on_read_html(2) addressed_chunk split: if_splits)
qed

lemma shell_step_total: "\<exists>s' out. shell_step files e s = Inr (s', out)"
  by (cases "(files, e, s)" rule: shell_step.cases) auto

section \<open>The shells of project 4\<close>

text \<open>
  Here a shell first resolves and connects to the proxy at the address in the query's fields \<open>sh\<close> and \<open>sp\<close>;
  its own host is resolved by \<open>do_request\<close>, in the handler of the connection, and waits for the answer there
  (\<open>None\<close> when there is no such host). A failed resolution of the proxy prints nothing.
\<close>

datatype proxied =
    At_Resolve "string \<times> string" npshell
  | At_Connect npshell
  | At_Reply npshell
  | At_Dialogue npshell
  | At_End npshell

datatype proxied_event =
    Proxy_Found
  | Proxy_Unknown
  | Proxy_Up "(string \<times> 16 word) option"
  | Proxy_Down string
  | Proxy_Replied "char list option"
  | Proxy_Said read_result

fun proxied_step :: "(string \<Rightarrow> string option) \<Rightarrow> proxied_event \<Rightarrow> proxied \<Rightarrow> (proxied \<times> string) res" where
  "proxied_step files Proxy_Found (At_Resolve proxy s) = Inr (At_Connect s, [])"
| "proxied_step files Proxy_Unknown (At_Resolve proxy s) = Inr (At_End s, [])"
| "proxied_step files (Proxy_Up endpoint) (At_Connect s) =
     bind_res (on_connect endpoint s) (\<lambda>s'. Inr (At_Reply s', []))"
| "proxied_step files (Proxy_Down msg) (At_Connect s) =
     Inr (At_End (on_connect_error msg s), new_html s (on_connect_error msg s))"
| "proxied_step files (Proxy_Replied bytes) (At_Reply s) =
     (let s' = on_reply bytes files s in Inr (if reading s' then At_Dialogue s' else At_End s', []))"
| "proxied_step files (Proxy_Said r) (At_Dialogue s) =
     (if reading s then bind_res (console_on_read r s) (\<lambda>s'. Inr (At_Dialogue s', new_html s s'))
      else Inr (At_Dialogue s, []))"
| "proxied_step files e s = Inr (s, [])"

fun proxied_cell :: "proxied \<Rightarrow> string" where
  "proxied_cell (At_Resolve proxy s) = sessionId s"
| "proxied_cell (At_Connect s) = sessionId s"
| "proxied_cell (At_Reply s) = sessionId s"
| "proxied_cell (At_Dialogue s) = sessionId s"
| "proxied_cell (At_End s) = sessionId s"

text \<open>
  \<open>main\<close>: the loop over the five indices, with the address of the proxy, and the run. \<open>mem\<close> is what the
  member array of a new \<open>npshell\<close> holds.
\<close>

definition proxied_start :: "(string \<Rightarrow> char list) \<Rightarrow> (string \<rightharpoonup> string) \<Rightarrow> proxied list" where
  "proxied_start mem m =
     map (\<lambda>info. At_Resolve (at m ''sh'', at m ''sp'') (npshell_init info (mem (info_id info))))
       (start_sessions m [0..<5])"

definition proxied_page ::
    "(string \<Rightarrow> string option) \<Rightarrow> (string \<Rightarrow> char list) \<Rightarrow> string option \<Rightarrow> (nat \<times> proxied_event) list \<Rightarrow> string res" where
  "proxied_page files mem query events =
     (case query of
        None \<Rightarrow> Inl Null_Pointer
      | Some q \<Rightarrow>
          bind_res (side_by_side (proxied_step files) events (proxied_start mem (parser q))) (\<lambda>(cells, outs).
            Inr (print_html (parser q) @ concat (map snd outs))))"

lemma console_on_read_html:
  assumes "console_on_read r s = Inr s'"
  shows "sessionId s' = sessionId s" "addressed (sessionId s) (new_html s s')"
proof -
  show "sessionId s' = sessionId s"
    using assms by (auto simp: console_on_read_def console_do_write_def Let_def bind_res_Inr_iff split: read_result.splits)
  show "addressed (sessionId s) (new_html s s')"
  proof (cases r)
    case (Data bytes)
    have two: "addressed name (output_shell name t @ output_command name u)" for name t u
      by (rule addressed_append [OF addressed_chunk]) simp_all
    show ?thesis
      using assms two
      by (auto simp: Data console_on_read_def console_do_write_def Let_def new_html_def bind_res_Inr_iff addressed_chunk)
  qed (use assms in \<open>auto simp: console_on_read_def Let_def new_html_def bind_res_Inr_iff addressed_chunk\<close>)
qed

lemma on_connect_id: "on_connect endpoint s = Inr s' \<Longrightarrow> sessionId s' = sessionId s"
  by (auto simp: on_connect_def do_request_def bind_res_Inr_iff split: option.splits)

lemma on_connect_error_html:
  "sessionId (on_connect_error msg s) = sessionId s" "addressed (sessionId s) (new_html s (on_connect_error msg s))"
  by (simp_all add: on_connect_error_def new_html_def addressed_chunk)

lemma on_reply_id: "sessionId (on_reply bytes files s) = sessionId s"
  by (auto simp: on_reply_def Let_def split: option.split)

interpretation proxied_shells: session_family "proxied_step files" proxied_cell
  for files :: "string \<Rightarrow> string option"
proof unfold_locales
  fix e s s' out
  assume step: "proxied_step files e s = Inr (s', out)"
  then show "proxied_cell s' = proxied_cell s"
    by (cases "(files, e, s)" rule: proxied_step.cases)
      (auto simp: bind_res_Inr_iff Let_def on_connect_id on_connect_error_html(1) on_reply_id console_on_read_html(1)
        split: if_splits)
  from step show "addressed (proxied_cell s) out"
    by (cases "(files, e, s)" rule: proxied_step.cases)
      (auto simp: bind_res_Inr_iff Let_def on_connect_error_html(2) console_on_read_html(2) split: if_splits)
qed

section \<open>Properties\<close>


text \<open>A query with one shell.\<close>

definition one_shell :: server_info where
  "one_shell = \<lparr>info_id = ''s1'', info_host = ''np1'', info_port = ''7001'', info_file = ''t''\<rparr>"

lemma one_shell_started: "start_sessions (parser ''h1=np1&p1=7001&f1=t'') [0..<5] = [one_shell]"
proof -
  have upt: "[0..<5] = [0, 1, 2, 3, 4::nat]" by code_simp
  have num: "nat_str 0 = ''0''" "nat_str 1 = ''1''" "nat_str (Suc 0) = ''1''" "nat_str 2 = ''2''"
    "nat_str 3 = ''3''" "nat_str 4 = ''4''"
    by code_simp+
  have "parser ''h1=np1&p1=7001&f1=t'' = map_of (rev [(''h1'', ''np1''), (''p1'', ''7001''), (''f1'', ''t'')])"
    using parser_loop_query [of "[(''h1'', ''np1''), (''p1'', ''7001''), (''f1'', ''t'')]" Map.empty]
    by (simp add: parser_def pair_ok_def)
  then show ?thesis by (simp only: upt) (simp add: key_of_def at_def num one_shell_def)
qed


text \<open>
  C27. In the console of project 4 one shell can end all: the name of a shell's own host is resolved inside
  the handler of the proxy's connection, and when there is no such host, an exception leaves the event
  loop, which no \<open>try\<close> is around. Until then every shell runs as it would alone.
\<close>

theorem unknown_host_ends_console:
  assumes "side_by_side (proxied_step files) es (proxied_start mem (parser q)) = Inr (cells, outs)"
    and "i < length (proxied_start mem (parser q))" "cells ! i = At_Connect s"
  shows "proxied_page files mem (Some q) (es @ (i, Proxy_Up None) # later) = Inl System_Error
    \<and> (\<forall>j < length (proxied_start mem (parser q)).
         alone (proxied_step files) (own j es) (proxied_start mem (parser q) ! j) = Inr (cells ! j, own j outs))"
proof -
  have "proxied_step files (Proxy_Up None) (cells ! i) = Inl System_Error"
    by (simp add: assms(3) on_connect_def do_request_def)
  from proxied_shells.fault_ends_all [OF assms(1,2) this]
  have "proxied_page files mem (Some q) (es @ (i, Proxy_Up None) # later) = Inl System_Error"
    by (simp add: proxied_page_def)
  then show ?thesis using proxied_shells.each_alone [OF assms(1)] by blast
qed

theorem unknown_host_ends_console_witness:
  "proxied_page (\<lambda>_. None) (\<lambda>_. []) (Some ''h1=np1&p1=7001&f1=t'') [(0, Proxy_Found), (0, Proxy_Up None)] = Inl System_Error"
proof -
  have start: "proxied_start (\<lambda>_. []) (parser ''h1=np1&p1=7001&f1=t'') =
      [At_Resolve (at (parser ''h1=np1&p1=7001&f1=t'') ''sh'', at (parser ''h1=np1&p1=7001&f1=t'') ''sp'') (npshell_init one_shell [])]"
    unfolding proxied_start_def one_shell_started by simp
  have run: "side_by_side (proxied_step (\<lambda>_. None)) [(0, Proxy_Found)] (proxied_start (\<lambda>_. []) (parser ''h1=np1&p1=7001&f1=t''))
      = Inr ([At_Connect (npshell_init one_shell [])], [(0, [])])"
    unfolding start by simp
  show ?thesis
    using unknown_host_ends_console [OF run, of 0 "npshell_init one_shell []" "[]"] unfolding start by simp
qed

lemma alone_talks:
  assumes "reading s"
  shows "\<exists>outs. alone (shell_step files) (map (\<lambda>c. Said (Data c)) chunks) (Talking s)
    = Inr (Talking (session_run s (map Data chunks)), outs)"
  using assms
proof (induction chunks arbitrary: s)
  case (Cons c cs)
  have "reading (on_read (Data c) s)" by (simp add: on_read_def Let_def)
  from Cons.IH [OF this] show ?case using Cons.prems by auto
qed simp



end
