(* ===== verification/Servers.thy ===== *)
theory Servers
  imports Np_Multi_Exec Np_Single
begin

text \<open>
  The loops that accept connections: \<open>main\<close> of \<open>project2/np_simple.cpp\<close> and \<open>np_multi_proc.cpp\<close>, the classes
  \<open>server\<close> of \<open>project3/http_server.cpp\<close> and \<open>project4/socks_server.cpp\<close>, and the templates \<open>server_template.c\<close> and
  \<open>client_template.c\<close>. A round deals with one answer of \<open>accept\<close> and forks a child for the connection.
  What they promise is one contract: the server's own descriptors are the same after every round,
  and each child has what its program needs. Calls that are repeated until they work
  (\<open>accept\<close> and \<open>fork\<close> in \<open>project2\<close>) are taken at the time they do.
\<close>

section \<open>State\<close>

text \<open>
  The server: its descriptors, the one that accepts, the port, what it prints on its terminal,
  and for each child its descriptors when it starts to serve. A connection is \<open>Sock 0\<close>, as in the theories of
  the programs.
\<close>

record listener =
  li_fds :: fd_table
  li_sock :: nat
  li_port :: "16 word"
  li_out :: string
  li_kids :: "fd_table list"

definition terminal :: fd_table where
  "terminal = [Some (Std 0), Some (Std 1), Some (Std 2)]"

definition listener_init :: listener where
  "listener_init = \<lparr>li_fds = terminal, li_sock = 0, li_port = 0, li_out = [], li_kids = []\<rparr>"

definition log_line :: "string \<Rightarrow> listener \<Rightarrow> listener" where
  "log_line msg l = l\<lparr>li_out := li_out l @ msg @ [newline]\<rparr>"

text \<open>A socket that accepts is \<open>Sock\<close> with its own number.\<close>

definition listen_on :: "int \<Rightarrow> listener \<Rightarrow> listener" where
  "listen_on port l =
     (let s = lowest_free (li_fds l) in
      l\<lparr>li_fds := fd_put (li_fds l) s (Sock s), li_sock := s, li_port := word_of_int port\<rparr>)"

section \<open>\<open>project2\<close>\<close>

text \<open>The answers of \<open>bind\<close> and \<open>listen\<close> are arguments; both have the same message.\<close>

definition create_socket :: "int \<Rightarrow> bool \<Rightarrow> bool \<Rightarrow> listener \<Rightarrow> listener progress" where
  "create_socket port binds listens l =
     (if \<not> binds then Exits (log_line ''Error: bind() failed'' (listen_on port l))
      else if \<not> listens then Exits (log_line ''Error: bind() failed'' (listen_on port l))
      else Goes_On (listen_on port l))"

text \<open>The start of \<open>main\<close> on its arguments, the name of the program first.\<close>

definition simple_main :: "string list \<Rightarrow> bool \<Rightarrow> bool \<Rightarrow> listener progress" where
  "simple_main argv binds listens =
     (if length argv \<noteq> 2 then Exits (log_line ''Usage: ./np_server [port]'' listener_init)
      else create_socket (atoi (argv ! 1)) binds listens listener_init)"

text \<open>\<open>np_single_proc.cpp\<close> starts alike; its loop is \<open>single_run\<close>.\<close>

definition single_main :: "string list \<Rightarrow> bool \<Rightarrow> bool \<Rightarrow> listener progress" where
  "single_main argv binds listens =
     (if length argv \<noteq> 2 then Exits (log_line ''Usage: ./np_server [port]'' listener_init)
      else create_socket (atoi (argv ! 1)) binds listens listener_init)"

text \<open>A round of the loop; \<open>opt\<close> is whether \<open>setsockopt\<close> works.\<close>

definition simple_round :: "bool \<Rightarrow> listener \<Rightarrow> listener progress" where
  "simple_round opt l =
     (let ssock = lowest_free (li_fds l); t = fd_put (li_fds l) ssock (Sock 0) in
      if \<not> opt then Exits (log_line ''Error: setsockopt() failed'' (l\<lparr>li_fds := t\<rparr>))
      else Goes_On (l\<lparr>li_fds := close_fd ssock t, li_kids := li_kids l @ [close_fd (li_sock l) t]\<rparr>))"

text \<open>The start of \<open>np_multi_proc.cpp\<close>, with \<open>init_shm\<close>, whose shared memory is \<open>room_init\<close> then.\<close>

definition multi_main :: "string list \<Rightarrow> bool \<Rightarrow> bool \<Rightarrow> bool \<Rightarrow> bool \<Rightarrow> listener progress" where
  "multi_main argv binds listens shmget shmat =
     (if length argv \<noteq> 2 then Exits (log_line ''Usage: ./np_server [port]'' listener_init)
      else case create_socket (atoi (argv ! 1)) binds listens listener_init of
        Exits l \<Rightarrow> Exits l
      | Goes_On l \<Rightarrow>
          if \<not> shmget then Exits (log_line ''server error: shmget failed'' l)
          else if \<not> shmat then Exits (log_line ''server error:shmat failed'' l)
          else Goes_On l)"

text \<open>
  In \<open>np_multi_proc.cpp\<close> a failed \<open>accept\<close> is logged and then treated as a connection with the number \<open>-1\<close>.
  The child has the connection as its three standard streams, and \<open>init_client\<close> and \<open>add_client\<close> enter it; \<open>ip\<close> and
  \<open>port\<close> are what \<open>fsin\<close> holds. Without a place the child ends.
\<close>

definition multi_round :: "bool \<Rightarrow> listener \<Rightarrow> listener progress" where
  "multi_round accepted l =
     (let s = lowest_free (li_fds l);
          ssock = (if accepted then int s else -1);
          t = (if accepted then fd_put (li_fds l) s (Sock 0) else li_fds l);
          kid = dup2_int ssock 2 (dup2_int ssock 1 (dup2_int ssock 0 (close_fd (li_sock l) t)));
          l1 = log_line (if accepted then ''server accept the client...'' else ''acceptfailed:'') l
      in Goes_On (l1\<lparr>li_fds := close_int ssock t, li_kids := li_kids l @ [kid]\<rparr>))"

definition multi_connection ::
    "fd_table \<Rightarrow> nat \<Rightarrow> string \<Rightarrow> nat \<Rightarrow> (nat \<Rightarrow> fd_table) \<Rightarrow> string list \<Rightarrow> room \<Rightarrow> multi option" where
  "multi_connection kid pid ip port tables files room =
     (case add_client pid ip port room of
        None \<Rightarrow> None
      | Some (c, room') \<Rightarrow> Some ((multi_start c pid tables files room')\<lparr>np_fds := kid\<rparr>))"

section \<open>The classes \<open>server\<close>\<close>

text \<open>
  The descriptors that the library opens for itself are left out.
  The completion of \<open>async_accept\<close>: an error, or a connection and whether the \<open>fork\<close> then works. Its
  failure, \<open>-1\<close>, takes the parent's branch. \<open>failed\<close> is the text of an exception of the acceptor's constructor.
\<close>

datatype accept_event =
    Accept_Error string
  | Accepted bool

definition http_main :: "string list \<Rightarrow> string option \<Rightarrow> listener progress" where
  "http_main argv failed =
     (if length argv \<noteq> 2 then Exits (log_line ''Usage: async_tcp_echo_server <port>'' listener_init)
      else case failed of
        Some msg \<Rightarrow> Exits (log_line (''Exception: '' @ msg) listener_init)
      | None \<Rightarrow> Goes_On (listen_on (atoi (argv ! 1)) listener_init))"

definition http_accept :: "accept_event \<Rightarrow> listener \<Rightarrow> listener progress" where
  "http_accept e l =
     (case e of
        Accept_Error msg \<Rightarrow> Goes_On (log_line (''Accept error: '' @ msg) l)
      | Accepted forks \<Rightarrow>
          (let s = lowest_free (li_fds l);
               t = fd_put (li_fds l) s (Sock 0);
               kid = dup2 s 2 (dup2 s 1 (dup2 s 0 (close_fd (li_sock l) t)))
           in Goes_On (l\<lparr>li_fds := close_fd s t, li_kids := li_kids l @ (if forks then [kid] else [])\<rparr>)))"

definition socks_main :: "string list \<Rightarrow> string option \<Rightarrow> listener progress" where
  "socks_main argv failed =
     (if length argv \<noteq> 2 then Exits (log_line ''Usage: async_SOCKS_server <port>'' listener_init)
      else case failed of
        Some msg \<Rightarrow> Exits (log_line (''Exception: '' @ msg) listener_init)
      | None \<Rightarrow> Goes_On (listen_on (atoi (argv ! 1)) listener_init))"

definition socks_accept :: "accept_event \<Rightarrow> listener \<Rightarrow> listener progress" where
  "socks_accept e l =
     (case e of
        Accept_Error msg \<Rightarrow> Goes_On (log_line (''Accept error: '' @ msg) l)
      | Accepted forks \<Rightarrow>
          (let s = lowest_free (li_fds l);
               t = fd_put (li_fds l) s (Sock 0);
               kid = close_fd (li_sock l) t
           in Goes_On (l\<lparr>li_fds := close_fd s t, li_kids := li_kids l @ (if forks then [kid] else [])\<rparr>)))"

section \<open>The templates\<close>

text \<open>
  The texts of the error number are arguments. In the \<open>switch\<close> on the result of \<open>fork\<close> the case of the child has no
  \<open>break\<close>: it goes on in that of the parent, and then in the loop. An \<open>accept\<close> on a descriptor that is not open
  fails.
\<close>

definition passivesock :: "string \<Rightarrow> string option \<Rightarrow> string option \<Rightarrow> string option \<Rightarrow> listener \<Rightarrow> listener progress" where
  "passivesock port no_socket no_bind no_listen l =
     (case no_socket of
        Some e \<Rightarrow> Exits (log_line (''can'' @ [CHR 0x27] @ ''t create socket: '' @ e) l)
      | None \<Rightarrow> (case no_bind of
          Some e \<Rightarrow> Exits (log_line (''can'' @ [CHR 0x27] @ ''t bind to port: '' @ e) (listen_on (atoi port) l))
        | None \<Rightarrow> (case no_listen of
            Some e \<Rightarrow> Exits (log_line (''can'' @ [CHR 0x27] @ ''t listen on port: '' @ e) (listen_on (atoi port) l))
          | None \<Rightarrow> Goes_On (listen_on (atoi port) l))))"

definition template_main ::
    "string list \<Rightarrow> string option \<Rightarrow> string option \<Rightarrow> string option \<Rightarrow> listener progress" where
  "template_main argv no_socket no_bind no_listen =
     (if length argv \<noteq> 2 then Exits (log_line ''usage: XXX [port]'' listener_init)
      else passivesock (argv ! 1) no_socket no_bind no_listen listener_init)"

datatype template_event =
    Interrupted
  | Not_Accepted string
  | Not_Forked string
  | Forked nat

definition template_parent :: "nat \<Rightarrow> nat \<Rightarrow> listener \<Rightarrow> listener" where
  "template_parent ssock pid l =
     log_line (''client PID:'' @ nat_str pid) (l\<lparr>li_fds := close_fd ssock (li_fds l)\<rparr>)"

definition template_child :: "nat \<Rightarrow> listener \<Rightarrow> listener" where
  "template_child ssock l = template_parent ssock 0 (l\<lparr>li_fds := close_fd (li_sock l) (li_fds l)\<rparr>)"

definition template_round :: "template_event \<Rightarrow> listener \<Rightarrow> listener progress \<times> listener option" where
  "template_round e l =
     (if fd_get (li_fds l) (li_sock l) = None then (Exits (log_line ''accept: Bad file descriptor'' l), None)
      else (let ssock = lowest_free (li_fds l); l1 = l\<lparr>li_fds := fd_put (li_fds l) ssock (Sock 0)\<rparr> in
        case e of
          Interrupted \<Rightarrow> (Goes_On l, None)
        | Not_Accepted msg \<Rightarrow> (Exits (log_line (''accept: '' @ msg) l), None)
        | Not_Forked msg \<Rightarrow> (Exits (log_line (''fork: '' @ msg) l1), None)
        | Forked pid \<Rightarrow>
            (let child = template_child ssock l1
             in (Goes_On ((template_parent ssock pid l1)\<lparr>li_kids := li_kids l @ [li_fds child]\<rparr>), Some child))))"

text \<open>
  \<open>client_template.c\<close>: \<open>main\<close> asks for one argument and takes two. \<open>None\<close> is the null pointer at the end of
  \<open>argv\<close>; the result is the text printed at the end, or the descriptor of a connection.
\<close>

definition argument :: "string list \<Rightarrow> nat \<Rightarrow> string option" where
  "argument argv k = (if k < length argv then Some (argv ! k) else None)"

definition connectsock :: "string option \<Rightarrow> string option \<Rightarrow> string option \<Rightarrow> string option \<Rightarrow> (string + nat) res" where
  "connectsock host port no_socket no_connect =
     (case (host, port) of
        (Some h, Some p) \<Rightarrow>
          (case no_socket of
             Some e \<Rightarrow> Inr (Inl (''can'' @ [CHR 0x27] @ ''t create socket: '' @ e @ [newline]))
           | None \<Rightarrow> (case no_connect of
               Some e \<Rightarrow> Inr (Inl (''Can'' @ [CHR 0x27] @ ''t connect: '' @ e @ [newline]))
             | None \<Rightarrow> Inr (Inr (lowest_free terminal))))
      | _ \<Rightarrow> Inl Null_Pointer)"

definition client_main :: "string list \<Rightarrow> string option \<Rightarrow> string option \<Rightarrow> (string + nat) res" where
  "client_main argv no_socket no_connect =
     (if length argv \<noteq> 2 then Inr (Inl (''usage: [IP] [port]'' @ [newline]))
      else connectsock (argument argv 1) (argument argv 2) no_socket no_connect)"

section \<open>The contract of a forking server\<close>

text \<open>Rounds until the server exits.\<close>

fun serve :: "('e \<Rightarrow> listener \<Rightarrow> listener progress) \<Rightarrow> 'e list \<Rightarrow> listener \<Rightarrow> listener progress" where
  "serve round [] l = Goes_On l"
| "serve round (e # es) l = (case round e l of Goes_On l' \<Rightarrow> serve round es l' | Exits l' \<Rightarrow> Exits l')"

text \<open>The number that the next descriptor gets.\<close>

definition next_fd :: "(nat \<Rightarrow> desc option) \<Rightarrow> nat \<Rightarrow> bool" where
  "next_fd g s \<longleftrightarrow> g s = None \<and> (\<forall>j < s. g j \<noteq> None)"

lemma next_fd_lowest: "next_fd (fd_get t) (lowest_free t)"
  by (simp add: next_fd_def fd_get_lowest fd_get_below_lowest)

lemma next_fd_unique: "next_fd g s \<Longrightarrow> next_fd g s' \<Longrightarrow> s = s'"
  by (metis next_fd_def linorder_neqE_nat)

text \<open>
  \<open>spawns\<close>: the events that bring a child. \<open>good\<close> relates such an event, the server's descriptors
  and its accepting one to the descriptors of the child.
\<close>

locale forking_server =
  fixes round :: "'e \<Rightarrow> listener \<Rightarrow> listener progress"
    and spawns :: "'e \<Rightarrow> bool"
    and good :: "'e \<Rightarrow> (nat \<Rightarrow> desc option) \<Rightarrow> nat \<Rightarrow> fd_table \<Rightarrow> bool"
  assumes same_fds: "round e l = Goes_On l' \<Longrightarrow> fd_get (li_fds l') = fd_get (li_fds l)"
    and same_sock: "round e l = Goes_On l' \<Longrightarrow> li_sock l' = li_sock l \<and> li_port l' = li_port l"
    and new_kid: "round e l = Goes_On l' \<Longrightarrow> fd_get (li_fds l) (li_sock l) \<noteq> None \<Longrightarrow>
      \<exists>kids. li_kids l' = li_kids l @ kids
        \<and> list_all2 (\<lambda>e. good e (fd_get (li_fds l)) (li_sock l)) (filter spawns [e]) kids"
begin

lemma serve_same:
  "serve round es l = Goes_On l' \<Longrightarrow>
   fd_get (li_fds l') = fd_get (li_fds l) \<and> li_sock l' = li_sock l \<and> li_port l' = li_port l"
proof (induction es arbitrary: l)
  case (Cons e es)
  then obtain l1 where l1: "round e l = Goes_On l1" "serve round es l1 = Goes_On l'"
    by (auto split: progress.splits)
  then show ?case using Cons.IH [OF l1(2)] same_fds [OF l1(1)] same_sock [OF l1(1)] by simp
qed simp

lemma serve_kids:
  "serve round es l = Goes_On l' \<Longrightarrow> fd_get (li_fds l) (li_sock l) \<noteq> None \<Longrightarrow>
   \<exists>kids. li_kids l' = li_kids l @ kids
     \<and> list_all2 (\<lambda>e. good e (fd_get (li_fds l)) (li_sock l)) (filter spawns es) kids"
proof (induction es arbitrary: l)
  case (Cons e es)
  then obtain l1 where l1: "round e l = Goes_On l1" "serve round es l1 = Goes_On l'"
    by (auto split: progress.splits)
  have same: "fd_get (li_fds l1) = fd_get (li_fds l)" "li_sock l1 = li_sock l"
    using same_fds [OF l1(1)] same_sock [OF l1(1)] by simp_all
  obtain kids1 where one: "li_kids l1 = li_kids l @ kids1"
    "list_all2 (\<lambda>e. good e (fd_get (li_fds l)) (li_sock l)) (filter spawns [e]) kids1"
    using new_kid [OF l1(1) Cons.prems(2)] by blast
  obtain kids2 where two: "li_kids l' = li_kids l1 @ kids2"
    "list_all2 (\<lambda>e. good e (fd_get (li_fds l)) (li_sock l)) (filter spawns es) kids2"
    using Cons.IH [OF l1(2)] Cons.prems(2) unfolding same by blast
  have "filter spawns (e # es) = filter spawns [e] @ filter spawns es" by simp
  then show ?case
    using one two list_all2_appendI [OF one(2) two(2)] by (intro exI [of _ "kids1 @ kids2"]) simp
qed simp

end

section \<open>The servers keep it\<close>

text \<open>A child with the connection instead of the accepting socket; and with it as its three streams.\<close>

definition handed :: "(nat \<Rightarrow> desc option) \<Rightarrow> nat \<Rightarrow> (nat \<Rightarrow> desc option) \<Rightarrow> bool" where
  "handed g sock h \<longleftrightarrow> (\<exists>s. next_fd g s \<and> h = g(s := Some (Sock 0), sock := None))"

definition connected :: "(nat \<Rightarrow> desc option) \<Rightarrow> nat \<Rightarrow> (nat \<Rightarrow> desc option) \<Rightarrow> bool" where
  "connected g sock h \<longleftrightarrow> (\<exists>h'. handed g sock h' \<and> h = h'(0 := Some (Sock 0), 1 := Some (Sock 0), 2 := Some (Sock 0)))"

lemma close_opened [simp]: "(fd_get t)(lowest_free t := None) = fd_get t"
  using fd_get_lowest [of t] by (simp add: fun_eq_iff)

lemma handed_kid [simp]: "handed (fd_get t) sock ((fd_get t)(lowest_free t \<mapsto> Sock 0, sock := None))"
  unfolding handed_def by (intro exI [of _ "lowest_free t"]) (simp add: next_fd_lowest)

lemma dup2_streams:
  assumes "fd_get t s = Some d"
  shows "fd_get (dup2 s 2 (dup2 s (Suc 0) (dup2 s 0 t))) = (fd_get t)(0 := Some d, 1 := Some d, 2 := Some d)"
proof -
  have open_: "fd_get (dup2 s k u) = (fd_get u)(k := Some d) \<and> fd_get (dup2 s k u) s = Some d"
    if "fd_get u s = Some d" for k u
    using that by (simp add: fd_get_dup2)
  have 0: "fd_get (dup2 s 0 t) s = Some d" "fd_get (dup2 s 0 t) = (fd_get t)(0 := Some d)" using open_ [OF assms] by blast+
  have 1: "fd_get (dup2 s (Suc 0) (dup2 s 0 t)) s = Some d" using open_ [OF 0(1)] by blast
  have "fd_get (dup2 s (Suc 0) (dup2 s 0 t)) = (fd_get (dup2 s 0 t))(Suc 0 := Some d)" using open_ [OF 0(1)] by blast
  moreover have "fd_get (dup2 s 2 (dup2 s (Suc 0) (dup2 s 0 t))) = (fd_get (dup2 s (Suc 0) (dup2 s 0 t)))(2 := Some d)"
    using open_ [OF 1] by blast
  ultimately show ?thesis using 0(2) by simp
qed

lemma connected_kid [simp]:
  assumes "fd_get t sock = Some x"
  shows "connected (fd_get t) sock (fd_get (dup2 (lowest_free t) 2 (dup2 (lowest_free t) (Suc 0) (dup2 (lowest_free t) 0
    (close_fd sock (fd_put t (lowest_free t) (Sock 0)))))))"
proof -
  let ?s = "lowest_free t" and ?k = "close_fd sock (fd_put t (lowest_free t) (Sock 0))"
  have "?s \<noteq> sock" using assms fd_get_lowest [of t] by auto
  then have "fd_get ?k ?s = Some (Sock 0)" by simp
  note streams = dup2_streams [OF this]
  have "handed (fd_get t) sock (fd_get ?k)" by simp
  then show ?thesis unfolding connected_def streams by blast
qed

interpretation simple_server: forking_server simple_round "\<lambda>opt. True" "\<lambda>opt g sock kid. handed g sock (fd_get kid)"
  by unfold_locales (auto simp: simple_round_def Let_def split: if_splits)

interpretation multi_server: forking_server multi_round "\<lambda>accepted. True"
    "\<lambda>accepted g sock kid. if accepted then connected g sock (fd_get kid) else fd_get kid = g(sock := None)"
  by unfold_locales (auto simp: multi_round_def Let_def log_line_def close_int_def dup2_int_def)

interpretation http_server: forking_server http_accept "\<lambda>e. e = Accepted True" "\<lambda>e g sock kid. connected g sock (fd_get kid)"
  by unfold_locales (auto simp: http_accept_def Let_def log_line_def split: accept_event.splits)

interpretation socks_server: forking_server socks_accept "\<lambda>e. e = Accepted True" "\<lambda>e g sock kid. handed g sock (fd_get kid)"
  by unfold_locales (auto simp: socks_accept_def Let_def log_line_def split: accept_event.splits)

interpretation template_server: forking_server "\<lambda>e l. fst (template_round e l)" "\<lambda>e. \<exists>pid. e = Forked pid"
    "\<lambda>e g sock kid. fd_get kid = g(sock := None)"
proof unfold_locales
  fix e l l'
  assume goes: "fst (template_round e l) = Goes_On l'"
  show "fd_get (li_fds l') = fd_get (li_fds l)" "li_sock l' = li_sock l \<and> li_port l' = li_port l"
    using goes by (auto simp: template_round_def template_parent_def log_line_def Let_def
        split: if_splits template_event.splits)
  have twist: "(fd_get t)(lowest_free t \<mapsto> d, k := None, lowest_free t := None) = (fd_get t)(k := None)" for t k d
    using fd_get_lowest [of t] by (auto simp: fun_eq_iff)
  then show "\<exists>kids. li_kids l' = li_kids l @ kids
      \<and> list_all2 (\<lambda>e kid. fd_get kid = (fd_get (li_fds l))(li_sock l := None)) (filter (\<lambda>e. \<exists>pid. e = Forked pid) [e]) kids"
    using goes
    by (auto simp: twist template_round_def template_child_def template_parent_def log_line_def Let_def
        split: if_splits template_event.splits)
qed

section \<open>Properties\<close>

lemma next_terminal: "next_fd (fd_get (terminal @ [Some d])) s \<Longrightarrow> s = 4"
proof (rule next_fd_unique)
  have low: "lowest_free (terminal @ [Some d]) = 4" by (simp add: terminal_def eval_nat_numeral)
  show "next_fd (fd_get (terminal @ [Some d])) 4" using next_fd_lowest [of "terminal @ [Some d]"] unfolding low .
qed

text \<open>A server that has started: it accepts on descriptor 3, at the port of its argument modulo \<open>2 ^ 16\<close>.\<close>

definition started :: "listener \<Rightarrow> int \<Rightarrow> bool" where
  "started l port \<longleftrightarrow> fd_get (li_fds l) = fd_get (terminal @ [Some (Sock 3)]) \<and> li_sock l = 3
     \<and> li_port l = word_of_int port \<and> li_kids l = []"

lemma listen_started: "started (listen_on port listener_init) port"
proof -
  have "lowest_free terminal = 3" by (simp add: terminal_def eval_nat_numeral)
  moreover have "fd_put terminal 3 (Sock 3) = terminal @ [Some (Sock 3)]"
    by (simp add: fd_put_def terminal_def eval_nat_numeral)
  ultimately show ?thesis by (simp add: started_def listen_on_def listener_init_def Let_def)
qed

lemma started_open: "started l port \<Longrightarrow> fd_get (li_fds l) (li_sock l) = Some (Sock 3)"
  by (simp add: started_def fd_get_def terminal_def eval_nat_numeral)

lemma main_started:
  "simple_main argv b c = Goes_On l \<Longrightarrow> started l (atoi (argv ! 1))"
  "multi_main argv b c d e = Goes_On l \<Longrightarrow> started l (atoi (argv ! 1))"
  "http_main argv failed = Goes_On l \<Longrightarrow> started l (atoi (argv ! 1))"
  "socks_main argv failed = Goes_On l \<Longrightarrow> started l (atoi (argv ! 1))"
  "template_main argv x y z = Goes_On l \<Longrightarrow> started l (atoi (argv ! 1))"
  using listen_started
  by (auto simp: simple_main_def multi_main_def http_main_def socks_main_def template_main_def create_socket_def
      passivesock_def split: if_splits option.splits)

text \<open>So does \<open>np_single_proc\<close>, in the state from which its loop is modelled.\<close>

lemma single_started:
  assumes "single_main argv binds listens = Goes_On l"
  shows "started l (atoi (argv ! 1)) \<and> li_fds l = np_fds single_init"
proof -
  have l: "l = listen_on (atoi (argv ! 1)) listener_init"
    using assms by (auto simp: single_main_def create_socket_def split: if_splits)
  show ?thesis unfolding l using listen_started
    by (simp add: listen_on_def listener_init_def single_init_def terminal_def fd_put_def eval_nat_numeral)
qed

lemma handed_started: "started l port \<Longrightarrow> handed (fd_get (li_fds l)) (li_sock l) h \<Longrightarrow> h = fd_get (terminal @ [None, Some (Sock 0)])"
  by (auto simp: started_def handed_def dest!: next_terminal)
    (auto simp: fun_eq_iff fd_get_def terminal_def nth_Cons split: nat.splits)

text \<open>
  C16. Every connection of \<open>np_simple\<close> starts with the same descriptors, those of \<open>simple_init 4\<close>, from which the
  shell is modelled, and the server has its own descriptors and nothing else after any number of
  connections; it listens on the port of its argument modulo \<open>2 ^ 16\<close>.
\<close>

theorem simple_connections_fresh:
  assumes "simple_main argv binds listens = Goes_On l0" "serve simple_round opts l0 = Goes_On l"
  shows "fd_get (li_fds l) = fd_get (terminal @ [Some (Sock 3)]) \<and> li_port l = word_of_int (atoi (argv ! 1))
    \<and> length (li_kids l) = length opts \<and> (\<forall>kid \<in> set (li_kids l). fd_get kid = fd_get (np_fds (simple_init 4)))"
proof -
  note start = main_started(1) [OF assms(1)]
  note same = simple_server.serve_same [OF assms(2)]
  have "fd_get (li_fds l0) (li_sock l0) \<noteq> None" using started_open [OF start] by simp
  from simple_server.serve_kids [OF assms(2) this] obtain kids where kids: "li_kids l = kids"
    "list_all2 (\<lambda>e kid. handed (fd_get (li_fds l0)) (li_sock l0) (fd_get kid)) opts kids"
    using start by (auto simp: started_def)
  have init: "fd_get (np_fds (simple_init 4)) = fd_get (terminal @ [None, Some (Sock 0)])"
    by (auto simp: simple_init_def fun_eq_iff fd_get_def terminal_def nth_Cons fd_put_def eval_nat_numeral split: nat.splits)
  have "fd_get kid = fd_get (np_fds (simple_init 4))" if kid: "kid \<in> set kids" for kid
  proof -
    obtain i where "i < length kids" "kid = kids ! i" using kid by (metis in_set_conv_nth)
    then show ?thesis using kids(2) handed_started [OF start] init by (simp add: list_all2_conv_all_nth)
  qed
  then show ?thesis using same start kids list_all2_lengthD [OF kids(2)] by (simp add: started_def)
qed

theorem simple_connections_fresh_witness:
  "\<exists>l0 l. simple_main [''np_simple'', ''7001''] True True = Goes_On l0 \<and> serve simple_round [True, True] l0 = Goes_On l
    \<and> length (li_kids l) = 2"
proof -
  obtain l0 where l0: "simple_main [''np_simple'', ''7001''] True True = Goes_On l0"
    by (simp add: simple_main_def create_socket_def)
  obtain l where "serve simple_round [True, True] l0 = Goes_On l" by (simp add: simple_round_def Let_def)
  then show ?thesis using l0 simple_connections_fresh [OF l0] by (intro exI [of _ l0] exI [of _ l]) fastforce
qed

lemma connected_started:
  assumes "started l port" "connected (fd_get (li_fds l)) (li_sock l) h"
  shows "h = fd_get [Some (Sock 0), Some (Sock 0), Some (Sock 0), None, Some (Sock 0)]"
proof -
  obtain h' where h': "handed (fd_get (li_fds l)) (li_sock l) h'" "h = h'(0 := Some (Sock 0), 1 := Some (Sock 0), 2 := Some (Sock 0))"
    using assms(2) by (auto simp: connected_def)
  show ?thesis unfolding h'(2) handed_started [OF assms(1) h'(1)]
    by (auto simp: fun_eq_iff fd_get_def terminal_def nth_Cons split: nat.splits)
qed

text \<open>
  C28. In \<open>np_multi_proc\<close> every answer of \<open>accept\<close> brings a child. That of a connection starts with the descriptors
  from which its process is modelled. That of a failed \<open>accept\<close> has the server's own terminal as its
  streams, and yet takes a place in the table of users.
\<close>

theorem failed_accept_takes_place:
  assumes "multi_main argv binds listens shmget shmat = Goes_On l0" "serve multi_round es l0 = Goes_On l"
  shows "length (li_kids l) = length es \<and> (\<forall>i < length es.
      (es ! i \<longrightarrow> fd_get (li_kids l ! i) = fd_get (np_fds (multi_start c pid tables files room)))
    \<and> (\<not> es ! i \<longrightarrow> fd_get (li_kids l ! i) = fd_get terminal
        \<and> (\<forall>pid ip port s. room_ok room \<and> 0 < pid \<and> (\<forall>j < 30. cl_pid (shm room ! j) \<noteq> pid)
             \<and> multi_connection (li_kids l ! i) pid ip port tables files room = Some s \<longrightarrow>
            pid_of (room_of s) (me s) = pid \<and> fd_get (np_fds s) 0 = Some (Std 0))))"
proof -
  note start = main_started(2) [OF assms(1)]
  have "fd_get (li_fds l0) (li_sock l0) \<noteq> None" using started_open [OF start] by simp
  from multi_server.serve_kids [OF assms(2) this] obtain kids where kids: "li_kids l = kids"
    "list_all2 (\<lambda>a kid. if a then connected (fd_get (li_fds l0)) (li_sock l0) (fd_get kid)
       else fd_get kid = (fd_get (li_fds l0))(li_sock l0 := None)) es kids"
    using start by (auto simp: started_def)
  have own: "(fd_get (li_fds l0))(li_sock l0 := None) = fd_get terminal"
    using start by (auto simp: started_def fun_eq_iff fd_get_def terminal_def nth_Cons split: nat.splits)
  have place: "pid_of (room_of s) (me s) = pid \<and> fd_get (np_fds s) 0 = Some (Std 0)"
    if p: "room_ok room" "0 < pid" "\<forall>j < 30. cl_pid (shm room ! j) \<noteq> pid"
      "multi_connection kid pid ip port tables files room = Some s" "fd_get kid = fd_get terminal" for kid pid ip port s
  proof -
    obtain c room' where a: "add_client pid ip port room = Some (c, room')"
      "s = (multi_start c pid tables files room')\<lparr>np_fds := kid\<rparr>"
      using p(4) by (auto simp: multi_connection_def split: option.splits)
    have "pid_of room' = (pid_of room)(c := pid)" by (rule add_client_ok(2) [OF p(1) a(1) p(2,3)])
    then show ?thesis using a(2) p(5) by (simp add: multi_start_def terminal_def fd_get_def)
  qed
  have each: "if es ! i then fd_get (kids ! i) = fd_get (np_fds (multi_start c pid tables files room))
      else fd_get (kids ! i) = fd_get terminal" if "i < length es" for i
    using kids(2) that connected_started [OF start] own by (auto simp: list_all2_conv_all_nth split: if_splits)
  show ?thesis using each place list_all2_lengthD [OF kids(2)] unfolding kids(1) by (auto split: if_splits)
qed

theorem failed_accept_takes_place_witness:
  "\<exists>l0 l. multi_main [''np_multi'', ''7001''] True True True True = Goes_On l0 \<and> serve multi_round [True, False] l0 = Goes_On l
    \<and> length (li_kids l) = 2 \<and> fd_get (li_kids l ! 1) = fd_get terminal"
proof -
  obtain l0 where l0: "multi_main [''np_multi'', ''7001''] True True True True = Goes_On l0"
    by (simp add: multi_main_def create_socket_def)
  obtain l where "serve multi_round [True, False] l0 = Goes_On l" by (simp add: multi_round_def Let_def)
  then have l: "serve multi_round [True, False] l0 = Goes_On l" .
  note f = failed_accept_takes_place [OF l0 l]
  have "length (li_kids l) = 2" using f by simp
  moreover have "fd_get (li_kids l ! 1) = fd_get terminal" using f [THEN conjunct2, THEN spec [of _ 1]] by simp
  ultimately show ?thesis using l0 l by blast
qed

text \<open>
  C18. The servers of projects 3 and 4 never stop accepting: whatever errors there are, the loop goes on with its
  own descriptors, and every connection for which \<open>fork\<close> works, and no other, has a child: in
  project 3 with the connection as its three streams, in project 4 with the connection and the server's
  terminal.
\<close>

theorem accept_loops_go_on:
  assumes "http_main argv failed = Goes_On h0" "socks_main argv' failed' = Goes_On s0"
  shows "(\<exists>l. serve http_accept es h0 = Goes_On l \<and> fd_get (li_fds l) = fd_get (li_fds h0)
      \<and> map fd_get (li_kids l) = map (\<lambda>e. fd_get [Some (Sock 0), Some (Sock 0), Some (Sock 0), None, Some (Sock 0)])
          (filter (\<lambda>e. e = Accepted True) es))
    \<and> (\<exists>l. serve socks_accept es s0 = Goes_On l \<and> fd_get (li_fds l) = fd_get (li_fds s0)
      \<and> map fd_get (li_kids l) = map (\<lambda>e. fd_get (terminal @ [None, Some (Sock 0)])) (filter (\<lambda>e. e = Accepted True) es))"
proof -
  note h = main_started(3) [OF assms(1)] and s = main_started(4) [OF assms(2)]
  have open_: "fd_get (li_fds h0) (li_sock h0) \<noteq> None" "fd_get (li_fds s0) (li_sock s0) \<noteq> None"
    using started_open [OF h] started_open [OF s] by simp_all
  have on: "\<exists>l. serve http_accept es t = Goes_On l" "\<exists>l. serve socks_accept es t = Goes_On l" for t
    by (induction es arbitrary: t) (simp_all add: http_accept_def socks_accept_def Let_def split: accept_event.split)
  have mapped: "map fd_get kids = map (\<lambda>e. g) xs" if "list_all2 (\<lambda>e kid. fd_get kid = g) xs kids"
    for g kids and xs :: "accept_event list"
    using that by (induction rule: list_all2_induct) simp_all
  obtain lh where lh: "serve http_accept es h0 = Goes_On lh" using on(1) by blast
  obtain hk where hk: "li_kids lh = hk" "list_all2 (\<lambda>e kid. connected (fd_get (li_fds h0)) (li_sock h0) (fd_get kid))
      (filter (\<lambda>e. e = Accepted True) es) hk"
    using http_server.serve_kids [OF lh open_(1)] h by (auto simp: started_def)
  obtain ls where ls: "serve socks_accept es s0 = Goes_On ls" using on(2) by blast
  obtain sk where sk: "li_kids ls = sk" "list_all2 (\<lambda>e kid. handed (fd_get (li_fds s0)) (li_sock s0) (fd_get kid))
      (filter (\<lambda>e. e = Accepted True) es) sk"
    using socks_server.serve_kids [OF ls open_(2)] s by (auto simp: started_def)
  have "map fd_get hk = map (\<lambda>e. fd_get [Some (Sock 0), Some (Sock 0), Some (Sock 0), None, Some (Sock 0)])
      (filter (\<lambda>e. e = Accepted True) es)"
    by (rule mapped [OF list_all2_mono [OF hk(2)]]) (rule connected_started [OF h])
  moreover have "map fd_get sk = map (\<lambda>e. fd_get (terminal @ [None, Some (Sock 0)])) (filter (\<lambda>e. e = Accepted True) es)"
    by (rule mapped [OF list_all2_mono [OF sk(2)]]) (rule handed_started [OF s])
  moreover have "fd_get (li_fds lh) = fd_get (li_fds h0)" "fd_get (li_fds ls) = fd_get (li_fds s0)"
    using http_server.serve_same [OF lh] socks_server.serve_same [OF ls] by simp_all
  ultimately show ?thesis
    using lh ls by (intro conjI exI [of _ lh] exI [of _ ls]) (simp_all only: hk(1) sk(1))
qed

theorem accept_loops_go_on_witness:
  "\<exists>h0 l. http_main [''http_server'', ''7001''] None = Goes_On h0
    \<and> serve http_accept [Accepted True, Accept_Error ''e'', Accepted False, Accepted True] h0 = Goes_On l
    \<and> length (li_kids l) = 2"
proof -
  obtain h0 where h0: "http_main [''http_server'', ''7001''] None = Goes_On h0" by (simp add: http_main_def)
  obtain s0 where s0: "socks_main [''socks_server'', ''7002''] None = Goes_On s0" by (simp add: socks_main_def)
  obtain l where l: "serve http_accept [Accepted True, Accept_Error ''e'', Accepted False, Accepted True] h0 = Goes_On l"
    "map fd_get (li_kids l) = map (\<lambda>e. fd_get [Some (Sock 0), Some (Sock 0), Some (Sock 0), None, Some (Sock 0)])
       (filter (\<lambda>e. e = Accepted True) [Accepted True, Accept_Error ''e'', Accepted False, Accepted True])"
    using accept_loops_go_on [OF h0 s0] by blast
  have "length (li_kids l) = 2" using arg_cong [OF l(2), of length] by simp
  then show ?thesis using h0 l(1) by blast
qed

text \<open>
  C39. No child of the server template ever serves: it falls through to the code of the parent, closes the
  connection and goes back to the loop, where it ends with a message, because it has closed the accepting
  socket before. The parent goes on as before.
\<close>

theorem template_child_never_serves:
  assumes "template_main argv no_socket no_bind no_listen = Goes_On l0"
    and "template_round (Forked pid) l0 = (p, Some child)"
  shows "(\<exists>l. p = Goes_On l \<and> fd_get (li_fds l) = fd_get (li_fds l0))
    \<and> fd_get (li_fds child) = fd_get terminal
    \<and> template_round e child = (Exits (log_line ''accept: Bad file descriptor'' child), None)"
proof -
  note start = main_started(5) [OF assms(1)]
  have twist: "(fd_get t)(lowest_free t \<mapsto> d, k := None, lowest_free t := None) = (fd_get t)(k := None)" for t k d
    using fd_get_lowest [of t] by (auto simp: fun_eq_iff)
  have child: "fd_get (li_fds child) = (fd_get (li_fds l0))(li_sock l0 := None)" "li_sock child = li_sock l0"
    using assms(2)
    by (auto simp: template_round_def template_child_def template_parent_def log_line_def Let_def twist split: if_splits)
  have own: "(fd_get (li_fds l0))(li_sock l0 := None) = fd_get terminal"
    using start by (auto simp: started_def fun_eq_iff fd_get_def terminal_def nth_Cons split: nat.splits)
  obtain l where l: "p = Goes_On l" using assms(2) by (auto simp: template_round_def Let_def split: if_splits)
  have "fd_get (li_fds l) = fd_get (li_fds l0)"
    using template_server.same_fds [of "Forked pid" l0 l] assms(2) l by simp
  moreover have "template_round e child = (Exits (log_line ''accept: Bad file descriptor'' child), None)"
    using child by (simp add: template_round_def)
  ultimately show ?thesis using l child(1) own by simp
qed

theorem template_child_never_serves_witness:
  "\<exists>l0 p child. template_main [''server'', ''7001''] None None None = Goes_On l0
    \<and> template_round (Forked 5) l0 = (p, Some child) \<and> fd_get (li_fds child) = fd_get terminal"
proof -
  obtain l0 where l0: "template_main [''server'', ''7001''] None None None = Goes_On l0"
    by (simp add: template_main_def passivesock_def)
  have "fd_get (li_fds l0) (li_sock l0) = Some (Sock 3)" by (rule started_open [OF main_started(5) [OF l0]])
  then obtain p child where "template_round (Forked 5) l0 = (p, Some child)" by (simp add: template_round_def Let_def)
  then show ?thesis using l0 template_child_never_serves [OF l0] by blast
qed

text \<open>
  The client template can only be called with one argument, and then reads a second one, which is the
  null pointer at the end of \<open>argv\<close>: it never connects.
\<close>

theorem client_template_never_connects:
  "client_main argv no_socket no_connect =
     (if length argv = 2 then Inl Null_Pointer else Inr (Inl (''usage: [IP] [port]'' @ [newline])))"
  by (simp add: client_main_def connectsock_def argument_def)

end
