(* ===== verification/Multi_Signals.thy ===== *)
theory Multi_Signals
  imports Servers
begin

text \<open>
  The signal handlers of \<open>project2/np_multi_proc.cpp\<close> as a whole: \<open>sig_handler\<close> of a user's process, whose
  first two branches are \<open>on_usr1\<close> and \<open>on_usr2\<close>, and \<open>shm_handler\<close> of the server.
\<close>

section \<open>Handlers\<close>

datatype signal =
    Sigchld
  | Sigint
  | Sigquit
  | Sigterm
  | Sigusr1
  | Sigusr2

definition ends :: "signal \<Rightarrow> bool" where
  "ends sig \<longleftrightarrow> sig = Sigint \<or> sig = Sigquit \<or> sig = Sigterm"

text \<open>
  The state of a process with whether it is attached to the shared memory. Without it \<open>clients\<close> points to memory that
  is not mapped any more.
\<close>

definition sig_handler :: "np_kernel \<Rightarrow> signal \<Rightarrow> bool \<times> multi \<Rightarrow> (bool \<times> multi) res" where
  "sig_handler w sig p =
     (let (attached, s) = p in
      if sig = Sigusr1 then
        (if attached then Inr (attached, on_room (on_usr1 (me s)) s) else Inl Dangling_Pointer)
      else if sig = Sigusr2 then
        (if attached then Inr (attached, on_usr2 w (me s) s) else Inl Dangling_Pointer)
      else if ends sig then
        (if attached then Inr (False, multi_rm_user s) else Inl Dangling_Pointer)
      else Inr (attached, s))"

text \<open>
  The server's handler, with the answers of \<open>shmget\<close> and \<open>shmctl\<close>; the second component is whether the shared memory
  is there. The children that \<open>waitpid\<close> collects have no part in the state.
\<close>

definition shm_handler :: "signal \<Rightarrow> bool \<Rightarrow> bool \<Rightarrow> listener \<times> bool \<Rightarrow> listener progress \<times> bool" where
  "shm_handler sig shmget shmctl p =
     (let (l, segment) = p in
      if sig = Sigchld then (Goes_On l, segment)
      else if ends sig then
        (if \<not> shmget then (Exits (log_line ''server error: shmget failed'' l), segment)
         else if \<not> shmctl then (Exits (log_line ''server error: shmctl IPC_RMID failed'' l), segment)
         else (Exits l, False))
      else (Goes_On l, segment))"

section \<open>Lemmas\<close>

lemma fd_get_closed_int: "fd_get t k = None \<Longrightarrow> fd_get (close_int c t) k = None"
  by (simp add: close_int_def)

lemma fold_close_none: "fd_get t k = None \<Longrightarrow> fd_get (fold (\<lambda>f. close_int (fifo_fd f)) fs t) k = None"
  by (induction fs arbitrary: t) (simp_all add: fd_get_closed_int)

lemma rm_user_streams: "k < 3 \<Longrightarrow> fd_get (np_fds (multi_rm_user s)) k = None"
  by (auto simp: multi_rm_user_def Let_def eval_nat_numeral less_Suc_eq intro!: fold_close_none)

lemma rm_user_fifos:
  assumes "f \<in> set (cl_fifo (client_at (me s) s))" "fifo_fd f \<noteq> 0"
  shows "fifo_name f \<notin> set (fifo_files (multi_rm_user s))"
  using assms by (auto simp: multi_rm_user_def Let_def)

lemma rm_user_room: "room_of (multi_rm_user s) = rm_user (me s) (room_of s)"
  by (simp add: multi_rm_user_def Let_def)

section \<open>Properties\<close>

text \<open>
  C17. A signal that should end a user's process does not: the process takes its user out of the table,
  announces it, closes the streams and removes the FIFOs that wait for the user, all as \<open>exit\<close> does, and
  then goes on without the shared memory, so that every further signal but \<open>SIGCHLD\<close> is an access to
  memory that is gone. The server ends with the same signal, and the shared memory
  with it.
\<close>

theorem terminated_process_stays:
  assumes "room_ok (room_of s)" "at_home s" "ends sig"
  shows "\<exists>s'. sig_handler w sig (True, s) = Inr (False, s') \<and> (own_pid s = cl_pid (client_at (me s) s) \<longrightarrow> multi_exit s = Exits s')
    \<and> room_step (room_of s) (room_of s') \<and> pid_of (room_of s') = (pid_of (room_of s))(me s := 0)
    \<and> (\<forall>k < 3. fd_get (np_fds s') k = None)
    \<and> (\<forall>f \<in> set (cl_fifo (client_at (me s) s)). fifo_fd f \<noteq> 0 \<longrightarrow> fifo_name f \<notin> set (fifo_files s'))
    \<and> (\<forall>sig'. sig' \<noteq> Sigchld \<longrightarrow> sig_handler w sig' (False, s') = Inl Dangling_Pointer)
    \<and> shm_handler sig True True (l, True) = (Exits l, False)"
proof -
  have me: "me s < 30" "0 < cl_id (shm (room_of s) ! me s)" using assms(2) by (simp_all add: at_home_def client_at_def)
  have step: "room_step (room_of s) (room_of (multi_rm_user s))"
    unfolding rm_user_room by (rule room_step.leaves [OF me])
  have pids: "pid_of (room_of (multi_rm_user s)) = (pid_of (room_of s))(me s := 0)"
    unfolding rm_user_room by (rule rm_user_ok(2) [OF assms(1) me(1)])
  have handled: "sig_handler w sig (True, s) = Inr (False, multi_rm_user s)"
    using assms(3) by (auto simp: sig_handler_def ends_def)
  have gone: "sig' \<noteq> Sigchld \<Longrightarrow> sig_handler w sig' (False, multi_rm_user s) = Inl Dangling_Pointer" for sig'
    by (cases sig') (simp_all add: sig_handler_def ends_def)
  have server: "shm_handler sig True True (l, True) = (Exits l, False)"
    using assms(3) by (auto simp: shm_handler_def ends_def)
  show ?thesis
    by (intro exI [of _ "multi_rm_user s"] conjI handled step pids server)
      (auto simp: multi_exit_def rm_user_streams gone dest: rm_user_fifos)
qed

theorem terminated_process_stays_witness:
  "\<exists>s s'. at_home s \<and> sig_handler zero_kernel Sigterm (True, s) = Inr (False, s')
    \<and> sig_handler zero_kernel Sigusr1 (False, s') = Inl Dangling_Pointer \<and> pid_of (room_of s') 0 = 0"
proof -
  obtain room where room: "room_step\<^sup>*\<^sup>* room_init room" "0 < cl_id (shm room ! 0)" using first_client by blast
  let ?s = "multi_start 0 7 (\<lambda>c. []) [] room"
  have home: "at_home ?s" using room room_reach_typed [OF room(1)] by (simp add: at_home_def client_at_def room_typed_def)
  have "room_ok (room_of ?s)" "ends Sigterm" using room_reach_ok [OF room(1)] by (simp_all add: ends_def)
  from terminated_process_stays [OF this(1) home this(2)] obtain s' where s':
    "sig_handler zero_kernel Sigterm (True, ?s) = Inr (False, s')"
    "pid_of (room_of s') = (pid_of (room_of ?s))(me ?s := 0)"
    "\<forall>sig'. sig' \<noteq> Sigchld \<longrightarrow> sig_handler zero_kernel sig' (False, s') = Inl Dangling_Pointer"
    by blast
  show ?thesis using home s' by (intro exI [of _ ?s] exI [of _ s']) simp
qed

end
