(* ===== verification/Multi_System.thy ===== *)
theory Multi_System
  imports Multi_Signals
begin

text \<open>
  \<open>project2/np_multi_proc.cpp\<close> as a whole: the processes of all users over one shared memory. The theories before
  follow one process; here connections, lines, prompts and signals of any processes come in any order, until
  a process faults.
\<close>

section \<open>The processes together\<close>

text \<open>
  Shared are the memory and the FIFOs in the file system. A process is at its user's place; one that has lost the
  shared memory is not there any more. What a process holds of the rest of the system is brought up to
  date before it acts.
\<close>

record multi_system =
  sys_room :: room
  sys_files :: "string list"
  sys_procs :: "nat \<Rightarrow> multi option"

definition system_init :: multi_system where
  "system_init = \<lparr>sys_room = room_init, sys_files = [], sys_procs = (\<lambda>c. None)\<rparr>"

definition tables_of :: "multi_system \<Rightarrow> nat \<Rightarrow> fd_table" where
  "tables_of y c = (case sys_procs y c of None \<Rightarrow> [] | Some p \<Rightarrow> np_fds p)"

definition in_system :: "multi_system \<Rightarrow> multi \<Rightarrow> multi" where
  "in_system y p = p\<lparr>room_of := sys_room y, fifo_files := sys_files y, others := tables_of y\<rparr>"

text \<open>
  What it leaves behind: the shared parts, and the descriptors of receivers that have opened a FIFO.
  \<open>p\<close> is the process itself, if it goes on.
\<close>

definition after_act :: "nat \<Rightarrow> multi option \<Rightarrow> multi \<Rightarrow> multi_system \<Rightarrow> multi_system" where
  "after_act c p s y =
     \<lparr>sys_room = room_of s, sys_files = fifo_files s,
      sys_procs = (\<lambda>d. if d = c then p else map_option (\<lambda>q. q\<lparr>np_fds := others s d\<rparr>) (sys_procs y d))\<rparr>"

text \<open>
  A connection has a number that no process in the table has. \<open>SIGUSR1\<close> comes from a message, and the
  prompt is written after a line.
\<close>

inductive system_step :: "np_kernel \<Rightarrow> multi_system \<Rightarrow> multi_system \<Rightarrow> bool" for w where
  connects: "multi_connection kid pid ip port (tables_of y) (sys_files y) (sys_room y) = Some s \<Longrightarrow> 0 < pid
    \<Longrightarrow> \<forall>i < 30. cl_pid (shm (sys_room y) ! i) \<noteq> pid \<Longrightarrow> system_step w y (after_act (me s) (Some s) s y)"
| executes: "sys_procs y c = Some p \<Longrightarrow> multi_do_exec w old line (in_system y p) = Inr (Goes_On s)
    \<Longrightarrow> system_step w y (after_act c (Some s) s y)"
| exits: "sys_procs y c = Some p \<Longrightarrow> multi_do_exec w old line (in_system y p) = Inr (Exits s)
    \<Longrightarrow> system_step w y (after_act c None s y)"
| asks: "sys_procs y c = Some p \<Longrightarrow> s = printed ''% '' (in_system y p) \<Longrightarrow> system_step w y (after_act c (Some s) s y)"
| handles: "sys_procs y c = Some p \<Longrightarrow> sig = Sigusr1 \<longrightarrow> own_pid p \<in> pending (sys_room y)
    \<Longrightarrow> sig_handler w sig (True, in_system y p) = Inr (True, s) \<Longrightarrow> system_step w y (after_act c (Some s) s y)"
| stops: "sys_procs y c = Some p \<Longrightarrow> sig_handler w sig (True, in_system y p) = Inr (False, s)
    \<Longrightarrow> system_step w y (after_act c None s y)"

section \<open>The table is that of the processes\<close>

definition pids :: "multi_system \<Rightarrow> nat \<Rightarrow> nat" where
  "pids y c = (case sys_procs y c of None \<Rightarrow> 0 | Some p \<Rightarrow> own_pid p)"

definition system_ok :: "multi_system \<Rightarrow> bool" where
  "system_ok y \<longleftrightarrow> room_step\<^sup>*\<^sup>* room_init (sys_room y) \<and> pid_of (sys_room y) = pids y
     \<and> (\<forall>c p. sys_procs y c = Some p \<longrightarrow> me p = c \<and> 0 < own_pid p)"

lemma in_system_fields [simp]:
  "room_of (in_system y p) = sys_room y" "me (in_system y p) = me p" "own_pid (in_system y p) = own_pid p"
  by (simp_all add: in_system_def)

lemma after_act_fields [simp]:
  "sys_room (after_act c p s y) = room_of s"
  "sys_procs (after_act c p s y) d = (if d = c then p else map_option (\<lambda>q. q\<lparr>np_fds := others s d\<rparr>) (sys_procs y d))"
  by (simp_all add: after_act_def)

lemma pids_after_act:
  "pids (after_act c p s y) = (pids y)(c := (case p of None \<Rightarrow> 0 | Some q \<Rightarrow> own_pid q))"
  by (auto simp: pids_def fun_eq_iff split: option.split)

lemma system_ok_act:
  assumes "system_ok y" "room_step\<^sup>*\<^sup>* (sys_room y) (room_of s)"
    and "pid_of (room_of s) = (pid_of (sys_room y))(c := (case p of None \<Rightarrow> 0 | Some q \<Rightarrow> own_pid q))"
    and "\<And>q. p = Some q \<Longrightarrow> me q = c \<and> 0 < own_pid q"
  shows "system_ok (after_act c p s y)"
proof -
  have "room_step\<^sup>*\<^sup>* room_init (room_of s)" using assms(1,2) by (auto simp: system_ok_def intro: rtranclp_trans)
  moreover have "pid_of (room_of s) = pids (after_act c p s y)"
    using assms(1,3) by (simp add: pids_after_act system_ok_def)
  ultimately show ?thesis using assms(1,4) by (auto simp: system_ok_def)
qed

lemma system_process:
  assumes "system_ok y" "sys_procs y c = Some p"
  shows "at_home (in_system y p)" "me p = c" "c < 30" "0 < own_pid p" "pid_of (sys_room y) c = own_pid p"
    "cl_pid (shm (sys_room y) ! c) = own_pid p" "room_ok (sys_room y)"
proof -
  show ok: "room_ok (sys_room y)" using assms(1) room_reach_ok by (simp add: system_ok_def)
  show p: "me p = c" "0 < own_pid p" "pid_of (sys_room y) c = own_pid p"
    using assms by (auto simp: system_ok_def pids_def)
  have len: "length (shm (sys_room y)) = 30" using ok by (simp add: room_ok_def)
  have place: "c < 30 \<and> 0 < cl_id (shm (sys_room y) ! c) \<and> cl_pid (shm (sys_room y) ! c) = own_pid p"
    using p(2,3) len by (auto simp: pid_of_def split: if_splits)
  then show "c < 30" "cl_pid (shm (sys_room y) ! c) = own_pid p" by simp_all
  show "at_home (in_system y p)" using place len p(1) by (simp add: at_home_def client_at_def)
qed

text \<open>A process that acts and goes on; and one that leaves.\<close>

lemma system_ok_acts:
  assumes "system_ok y" "sys_procs y c = Some p" "acts (in_system y p) s"
  shows "system_ok (after_act c (Some s) s y)"
proof (rule system_ok_act [OF assms(1)])
  note p = system_process [OF assms(1,2)]
  have s: "me s = c" "own_pid s = own_pid p" "same_users (sys_room y) (room_of s)" "room_step\<^sup>*\<^sup>* (sys_room y) (room_of s)"
    using assms(3) p(1,2) by (simp_all add: acts_def)
  show "room_step\<^sup>*\<^sup>* (sys_room y) (room_of s)" by (rule s(4))
  have "pid_of (room_of s) = pid_of (sys_room y)" using same_users_pid [OF s(3)] p(7) by (simp add: room_ok_def)
  then show "pid_of (room_of s) = (pid_of (sys_room y))(c := (case Some s of None \<Rightarrow> 0 | Some q \<Rightarrow> own_pid q))"
    using p(5) s(2) by (simp add: fun_eq_iff)
  show "me q = c \<and> 0 < own_pid q" if "Some s = Some q" for q using that s p(4) by simp
qed

lemma system_ok_leaves:
  assumes "system_ok y" "sys_procs y c = Some p" "acts (in_system y p) t" "room_of s = rm_user c (room_of t)"
  shows "system_ok (after_act c None s y)"
proof (rule system_ok_act [OF assms(1)])
  note p = system_process [OF assms(1,2)]
  have t: "same_users (sys_room y) (room_of t)" "room_step\<^sup>*\<^sup>* (sys_room y) (room_of t)" "me t = c"
    using assms(3) p(1,2) by (simp_all add: acts_def)
  have home: "at_home t" by (rule acts_home [OF assms(3) p(1)])
  have reach: "room_step\<^sup>*\<^sup>* room_init (room_of t)" using assms(1) t(2) by (auto simp: system_ok_def intro: rtranclp_trans)
  have "room_step (room_of t) (rm_user c (room_of t))"
    using home t(3) by (intro room_step.leaves) (auto simp: at_home_def client_at_def)
  then show "room_step\<^sup>*\<^sup>* (sys_room y) (room_of s)" using t(2) unfolding assms(4) by (rule rtranclp.rtrancl_into_rtrancl [rotated])
  have "pid_of (room_of t) = pid_of (sys_room y)" using same_users_pid [OF t(1)] p(7) by (simp add: room_ok_def)
  then show "pid_of (room_of s) = (pid_of (sys_room y))(c := (case None of None \<Rightarrow> 0 | Some q \<Rightarrow> own_pid q))"
    using rm_user_ok(2) [OF room_reach_ok [OF reach] p(3)] assms(4) by simp
qed simp

lemma handled_acts:
  assumes "system_ok y" "sys_procs y c = Some p" "sig = Sigusr1 \<longrightarrow> own_pid p \<in> pending (sys_room y)"
    and "sig_handler w sig (True, in_system y p) = Inr (True, s)"
  shows "acts (in_system y p) s"
proof -
  note p = system_process [OF assms(1,2)]
  have id: "0 < cl_id (shm (sys_room y) ! c)" using p(1,2) by (simp add: at_home_def client_at_def)
  show ?thesis
  proof (cases "sig = Sigusr1")
    case True
    then have s: "s = on_room (on_usr1 c) (in_system y p)" using assms(4) p(2) by (simp add: sig_handler_def)
    have "room_step (sys_room y) (on_usr1 c (sys_room y))"
      by (rule room_step.reads [OF p(3) id]) (use p(6) assms(3) True in simp)
    then show ?thesis unfolding s by (intro acts_step) (use on_usr1_ok(2) [OF p(7,3) id] in simp_all)
  next
    case False
    then show ?thesis
      using assms(4) p(2,3) acts_usr2 [of c "in_system y p" w] by (auto simp: sig_handler_def split: if_splits)
  qed
qed

lemma system_step_ok:
  assumes "system_step w y y'" "system_ok y"
  shows "system_ok y'"
  using assms
proof cases
  case (connects kid pid ip port s)
  have ok: "room_ok (sys_room y)" using assms(2) room_reach_ok by (simp add: system_ok_def)
  obtain c room where a: "add_client pid ip port (sys_room y) = Some (c, room)"
    "s = (multi_start c pid (tables_of y) (sys_files y) room)\<lparr>np_fds := kid\<rparr>"
    using connects(2) by (auto simp: multi_connection_def split: option.splits)
  have s: "me s = c" "own_pid s = pid" "room_of s = room" by (simp_all add: a(2))
  have "room_step\<^sup>*\<^sup>* (sys_room y) (room_of s)" using room_step.comes [OF a(1) connects(3,4)] s(3) by simp
  moreover have "pid_of (room_of s) = (pid_of (sys_room y))(me s := pid)"
    using add_client_ok(2) [OF ok a(1) connects(3,4)] s by simp
  ultimately show ?thesis unfolding connects(1) using connects(3) s by (intro system_ok_act [OF assms(2)]) simp_all
next
  case (executes c p old line s)
  have "acts (in_system y p) s" using multi_do_exec_acts [OF executes(3)] by simp
  then show ?thesis unfolding executes(1) by (rule system_ok_acts [OF assms(2) executes(2)])
next
  case (exits c p old line s)
  note p = system_process [OF assms(2) exits(2)]
  obtain t where t: "acts (in_system y p) t" "if cl_pid (client_at (me t) t) = own_pid t
      then room_of s = rm_user (me t) (room_of t) else room_of s = room_of t"
    using multi_do_exec_acts [OF exits(3)] by (auto simp: line_acts_def)
  have "me t = c" "own_pid t = own_pid p" "cl_pid (shm (room_of t) ! c) = own_pid p"
    using t(1) p by (auto simp: acts_def same_users_def room_ok_def)
  then have "room_of s = rm_user c (room_of t)" using t(2) by (simp add: client_at_def)
  then show ?thesis unfolding exits(1) by (rule system_ok_leaves [OF assms(2) exits(2) t(1)])
next
  case (asks c p s)
  show ?thesis unfolding asks(1) by (rule system_ok_acts [OF assms(2) asks(2)]) (simp add: asks(3) acts_printed)
next
  case (handles c p sig s)
  show ?thesis unfolding handles(1) by (rule system_ok_acts [OF assms(2) handles(2) handled_acts [OF assms(2) handles(2-4)]])
next
  case (stops c p sig s)
  note p = system_process [OF assms(2) stops(2)]
  have "s = multi_rm_user (in_system y p)" using stops(3) by (auto simp: sig_handler_def split: if_splits)
  then have "room_of s = rm_user c (room_of (in_system y p))" using p(2) by (simp add: rm_user_room)
  then show ?thesis unfolding stops(1) by (rule system_ok_leaves [OF assms(2) stops(2) acts_refl])
qed

lemma system_ok_init: "system_ok system_init"
proof -
  have "pid_of room_init = pids system_init"
    by (auto simp: fun_eq_iff pid_of_def pids_def system_init_def room_init_def blank_boxes)
  then show ?thesis by (simp add: system_ok_def) (simp add: system_init_def)
qed

lemma system_reach_ok: "(system_step w)\<^sup>*\<^sup>* system_init y \<Longrightarrow> system_ok y"
  by (induction rule: rtranclp_induct) (auto intro: system_ok_init system_step_ok)

section \<open>Properties\<close>



end
