(* ===== verification/Http_Server.thy ===== *)
theory Http_Server
  imports Prelude
begin

text \<open>
  \<open>project3/http_server.cpp\<close>: the child that serves one HTTP request. It reads once, cuts the
  request line and the Host header out of what came, exports nine variables, answers with a status
  line and runs one program through \<open>system\<close>. The value \<open>system\<close> returns is a parameter.
\<close>

section \<open>State\<close>

text \<open>
  The members \<open>env_\<close> and \<open>source\<close> (here \<open>http_source\<close>), the environment of the process, what was
  sent to the browser, the commands given to \<open>system\<close> and whether the process called \<open>exit\<close>.
\<close>

record http_session =
  env_map :: "string \<rightharpoonup> string"
  http_source :: string
  environ :: "string \<rightharpoonup> string"
  response :: string
  commands :: "string list"
  exited :: bool

definition http_session_init ::
    "string \<Rightarrow> nat \<Rightarrow> string \<Rightarrow> nat \<Rightarrow> (string \<rightharpoonup> string) \<Rightarrow> http_session" where
  "http_session_init raddr rport saddr sport environment =
     \<lparr>env_map = [''REMOTE_ADDR'' \<mapsto> raddr, ''REMOTE_PORT'' \<mapsto> nat_str rport,
                 ''SERVER_ADDR'' \<mapsto> saddr, ''SERVER_PORT'' \<mapsto> nat_str sport],
      http_source = [], environ = environment, response = [], commands = [], exited = False\<rparr>"

section \<open>The request\<close>

text \<open>
  Unlike the slicers of project 4, this one keeps the text when the delimiter is missing: \<open>pos\<close> is
  \<open>-1\<close>, and what is left starts at \<open>del.length() - 1\<close>.
\<close>

definition http_slicer :: "string \<Rightarrow> string \<Rightarrow> (string \<times> string) res" where
  "http_slicer s del =
     (case find_sub del s of
        Some pos \<Rightarrow> Inr (take pos s, drop (pos + length del) s)
      | None \<Rightarrow> bind_res (substr_from s (length del - 1)) (\<lambda>rest. Inr (s, rest)))"

interpretation http_slicer: field_slicer http_slicer
  by unfold_locales (simp add: http_slicer_def)

definition host_char :: "char \<Rightarrow> bool" where
  "host_char c \<longleftrightarrow> is_alnum c \<or> c = CHR ''.'' \<or> c = CHR '':''"

text \<open>
  The value of the Host header: \<open>pos\<close> is 4 when there is none (\<open>npos + 5\<close>); \<open>_str[pos]\<close> is
  undefined beyond the terminating NUL.
\<close>

definition host_of :: "string \<Rightarrow> string res" where
  "host_of s =
     (let pos = (case find_sub ''Host:'' s of Some i \<Rightarrow> i + 5 | None \<Rightarrow> 4)
      in if pos > length s then Inl Out_Of_Bounds
         else Inr (takeWhile host_char (dropWhile (\<lambda>c. c = CHR '' '') (drop pos s))))"

definition http_parser :: "string \<Rightarrow> http_session \<Rightarrow> http_session res" where
  "http_parser str s =
     bind_res (http_slicer str [CHR 0x0D, newline]) (\<lambda>(temp, rest).
     bind_res (http_slicer temp '' '') (\<lambda>(meth, temp1).
     bind_res (http_slicer temp1 '' '') (\<lambda>(reqURI, temp2).
       if reqURI = [] then Inl Out_Of_Bounds
       else
         (let uri = tl reqURI in
          bind_res (http_slicer uri ''?'') (\<lambda>(src, query).
          bind_res (host_of rest) (\<lambda>host.
            Inr (s\<lparr>env_map := (env_map s)(''REQUEST_METHOD'' \<mapsto> meth, ''REQUEST_URI'' \<mapsto> uri,
                                 ''QUERY_STRING'' \<mapsto> query, ''SERVER_PROTOCOL'' \<mapsto> temp2,
                                 ''HTTP_HOST'' \<mapsto> host),
                   http_source := src\<rparr>)))))))"

text \<open>\<open>c_str()\<close> as the C library sees it: up to the first NUL.\<close>

definition c_str :: "string \<Rightarrow> string" where
  "c_str s = takeWhile (\<lambda>c. c \<noteq> nul) s"

definition env_names :: "string list" where
  "env_names = [''REQUEST_METHOD'', ''REQUEST_URI'', ''QUERY_STRING'', ''SERVER_PROTOCOL'',
     ''HTTP_HOST'', ''SERVER_ADDR'', ''SERVER_PORT'', ''REMOTE_ADDR'', ''REMOTE_PORT'']"

definition env_value :: "(string \<rightharpoonup> string) \<Rightarrow> string \<Rightarrow> string" where
  "env_value m k = (case m k of None \<Rightarrow> [] | Some v \<Rightarrow> v)"

definition setEnvironment :: "http_session \<Rightarrow> http_session" where
  "setEnvironment s =
     s\<lparr>environ := fold (\<lambda>k e. e(k \<mapsto> c_str (env_value (env_map s) k))) env_names (environ s)\<rparr>"

section \<open>Dispatch\<close>

definition run_system :: "(string \<Rightarrow> int) \<Rightarrow> string \<Rightarrow> http_session \<Rightarrow> http_session" where
  "run_system sys cmd s = s\<lparr>commands := commands s @ [cmd], exited := sys cmd < 0\<rparr>"

definition panel :: "(string \<Rightarrow> int) \<Rightarrow> http_session \<Rightarrow> http_session" where
  "panel sys s =
     (let src = ''python3 '' @ http_source s @ [nul]
      in run_system sys (c_str src) (s\<lparr>http_source := src\<rparr>))"

definition console :: "(string \<Rightarrow> int) \<Rightarrow> http_session \<Rightarrow> http_session" where
  "console sys s =
     (if sys ''./console.cgi'' < 0
      then s\<lparr>commands := commands s @ [''./console.cgi'', ''python3 printenv.cgi''], exited := True\<rparr>
      else run_system sys ''./console.cgi'' s)"

definition other :: "(string \<Rightarrow> int) \<Rightarrow> http_session \<Rightarrow> http_session" where
  "other sys s =
     (let src = ''./'' @ http_source s @ [nul]
      in run_system sys (c_str src) (s\<lparr>http_source := src\<rparr>))"

definition status_line :: string where
  "status_line = ''HTTP/1.1 200 OK'' @ [CHR 0x0D, newline]"

definition http_do_write :: "(string \<Rightarrow> int) \<Rightarrow> http_session \<Rightarrow> http_session" where
  "http_do_write sys s0 =
     (let s = s0\<lparr>response := response s0 @ status_line\<rparr>
      in if http_source s = ''panel.cgi'' \<or> http_source s = ''printenv.cgi'' then panel sys s
         else if http_source s = ''console.cgi'' then console sys s
         else other sys s)"

text \<open>The completion of the one read; an error (\<open>None\<close>) ends the session.\<close>

definition http_on_read :: "(string \<Rightarrow> int) \<Rightarrow> string option \<Rightarrow> http_session \<Rightarrow> http_session res" where
  "http_on_read sys received s =
     (case received of
        None \<Rightarrow> Inr s
      | Some str \<Rightarrow>
          bind_res (http_parser str s) (\<lambda>s'. Inr (http_do_write sys (setEnvironment s'))))"

section \<open>Lemmas\<close>

lemma http_slicer_absent: "c \<notin> set s \<Longrightarrow> http_slicer s [c] = Inr (s, s)"
  by (simp add: http_slicer_def substr_from_def)

lemma find_crlf:
  "CHR 0x0D \<notin> set l \<Longrightarrow> find_sub [CHR 0x0D, newline] (l @ CHR 0x0D # newline # r) = Some (length l)"
proof (induction l)
  case (Cons c cs)
  then have "take 2 (c # cs @ CHR 0x0D # newline # r) \<noteq> [CHR 0x0D, newline]" by auto
  with Cons show ?case by (simp add: numeral_2_eq_2)
qed simp

lemma http_slicer_crlf:
  "CHR 0x0D \<notin> set l \<Longrightarrow>
     http_slicer (l @ [CHR 0x0D, newline] @ r) [CHR 0x0D, newline] = Inr (l, r)"
  using http_slicer.slice_found [OF find_crlf] by simp

text \<open>A URI with a query, and one without: then the whole URI is the query as well.\<close>

definition show_uri :: "string \<Rightarrow> string option \<Rightarrow> string" where
  "show_uri path query = (case query of None \<Rightarrow> path | Some q \<Rightarrow> path @ ''?'' @ q)"

definition uri_query :: "string \<Rightarrow> string option \<Rightarrow> string" where
  "uri_query path query = (case query of None \<Rightarrow> path | Some q \<Rightarrow> q)"

definition show_request :: "string \<Rightarrow> string \<Rightarrow> string option \<Rightarrow> string \<Rightarrow> string \<Rightarrow> string" where
  "show_request meth path query proto headers =
     meth @ '' /'' @ show_uri path query @ '' '' @ proto @ [CHR 0x0D, newline] @ headers"

text \<open>The parts of a request line: no blank, no carriage return, no \<open>?\<close> in the path.\<close>

definition word_ok :: "string \<Rightarrow> bool" where
  "word_ok w \<longleftrightarrow> CHR '' '' \<notin> set w \<and> CHR 0x0D \<notin> set w"

definition request_ok :: "string \<Rightarrow> string \<Rightarrow> string option \<Rightarrow> string \<Rightarrow> bool" where
  "request_ok meth path query proto \<longleftrightarrow> word_ok meth \<and> word_ok path \<and> CHR ''?'' \<notin> set path \<and>
     (case query of None \<Rightarrow> True | Some q \<Rightarrow> word_ok q) \<and> word_ok proto"

lemma slice_uri:
  "CHR ''?'' \<notin> set path \<Longrightarrow>
     http_slicer (show_uri path query) ''?'' = Inr (path, uri_query path query)"
  by (cases query) (simp_all add: show_uri_def uri_query_def http_slicer.slice_field http_slicer_absent)

lemma uri_word: "request_ok meth path query proto \<Longrightarrow> word_ok (show_uri path query)"
  by (cases query) (auto simp: request_ok_def show_uri_def word_ok_def)

lemma http_parser_request_host:
  assumes ok: "request_ok meth path query proto"
  shows "http_parser (show_request meth path query proto headers) s =
    bind_res (host_of headers) (\<lambda>h. Inr (s\<lparr>env_map := (env_map s)(''REQUEST_METHOD'' \<mapsto> meth, ''REQUEST_URI'' \<mapsto> show_uri path query,
             ''QUERY_STRING'' \<mapsto> uri_query path query, ''SERVER_PROTOCOL'' \<mapsto> proto,
             ''HTTP_HOST'' \<mapsto> h),
           http_source := path\<rparr>))"
proof -
  let ?u = "CHR ''/'' # show_uri path query"
  let ?line = "meth @ CHR '' '' # ?u @ CHR '' '' # proto"
  have u: "word_ok ?u" "word_ok meth" "word_ok proto"
    using uri_word [OF ok] ok by (auto simp: word_ok_def request_ok_def)
  have "http_slicer (show_request meth path query proto headers) [CHR 0x0D, newline] = Inr (?line, headers)"
    using u http_slicer_crlf [of ?line headers] by (simp add: word_ok_def show_request_def)
  moreover have "http_slicer ?line '' '' = Inr (meth, ?u @ CHR '' '' # proto)"
    "http_slicer (?u @ CHR '' '' # proto) '' '' = Inr (?u, proto)"
    using u by (auto simp: word_ok_def simp del: append_Cons intro: http_slicer.slice_field)
  moreover have "http_slicer (show_uri path query) ''?'' = Inr (path, uri_query path query)"
    using ok by (intro slice_uri) (simp add: request_ok_def)
  ultimately show ?thesis by (simp add: http_parser_def Let_def)
qed

lemma http_parser_request:
  assumes "request_ok meth path query proto" "host_of headers = Inr h"
  shows "http_parser (show_request meth path query proto headers) s =
    Inr (s\<lparr>env_map := (env_map s)(''REQUEST_METHOD'' \<mapsto> meth, ''REQUEST_URI'' \<mapsto> show_uri path query,
             ''QUERY_STRING'' \<mapsto> uri_query path query, ''SERVER_PROTOCOL'' \<mapsto> proto,
             ''HTTP_HOST'' \<mapsto> h),
           http_source := path\<rparr>)"
  using http_parser_request_host [OF assms(1), of headers s] assms(2) by simp

text \<open>The Host header.\<close>

lemma host_of_header:
  assumes "find_sub ''Host:'' (pre @ ''Host:'' @ post) = Some (length pre)"
    and "post = replicate n (CHR '' '') @ h @ d # after"
    and "\<forall>c \<in> set h. host_char c" "\<not> host_char d" "h \<noteq> [] \<or> d \<noteq> CHR '' ''"
  shows "host_of (pre @ ''Host:'' @ post) = Inr h"
proof -
  have "\<not> host_char (CHR '' '')" by (simp add: host_char_def is_alnum_def is_alpha_def is_digit_def code_of_def)
  then have "dropWhile (\<lambda>c. c = CHR '' '') post = h @ d # after"
    using assms(2-5) by (cases h) (auto simp: dropWhile_append)
  then show ?thesis using assms(1,3,4) by (simp add: host_of_def Let_def takeWhile_append)
qed

lemma fold_upd_env: "fold (\<lambda>k e. e(k \<mapsto> f k)) ks e k = (if k \<in> set ks then Some (f k) else e k)"
  by (induction ks arbitrary: e) auto

lemma environ_set:
  "environ (setEnvironment s) k =
     (if k \<in> set env_names then Some (c_str (env_value (env_map s) k)) else environ s k)"
  by (simp add: setEnvironment_def fold_upd_env)

lemma c_str_id: "nul \<notin> set s \<Longrightarrow> c_str s = s"
  by (simp add: c_str_def takeWhile_eq_all_conv) auto

lemma c_str_append_nul: "nul \<notin> set s \<Longrightarrow> c_str (s @ [nul]) = s"
  by (auto simp: c_str_def takeWhile_append)

lemma http_on_read_request:
  assumes "request_ok meth path query proto" "host_of headers = Inr h"
  shows "\<exists>s'. http_on_read sys (Some (show_request meth path query proto headers)) s
      = Inr (http_do_write sys (setEnvironment s')) \<and> http_source s' = path
    \<and> response s' = response s \<and> commands s' = commands s \<and> exited s' = exited s
    \<and> environ s' = environ s
    \<and> env_map s' = (env_map s)(''REQUEST_METHOD'' \<mapsto> meth, ''REQUEST_URI'' \<mapsto> show_uri path query,
             ''QUERY_STRING'' \<mapsto> uri_query path query, ''SERVER_PROTOCOL'' \<mapsto> proto,
             ''HTTP_HOST'' \<mapsto> h)"
  by (rule exI [of _ "s\<lparr>env_map := (env_map s)(''REQUEST_METHOD'' \<mapsto> meth,
      ''REQUEST_URI'' \<mapsto> show_uri path query, ''QUERY_STRING'' \<mapsto> uri_query path query,
      ''SERVER_PROTOCOL'' \<mapsto> proto, ''HTTP_HOST'' \<mapsto> h), http_source := path\<rparr>"])
     (simp add: http_on_read_def http_parser_request [OF assms])

lemma environ_do_write [simp]: "environ (http_do_write sys s) = environ s"
  by (simp add: http_do_write_def panel_def console_def other_def run_system_def Let_def)

text \<open>The command a path stands for.\<close>

definition command_for :: "string \<Rightarrow> string" where
  "command_for path =
     (if path = ''panel.cgi'' \<or> path = ''printenv.cgi'' then ''python3 '' @ path else ''./'' @ path)"

lemma http_do_write_commands:
  assumes "nul \<notin> set (http_source s)" "0 \<le> sys (command_for (http_source s))"
  shows "commands (http_do_write sys s) = commands s @ [command_for (http_source s)]
    \<and> response (http_do_write sys s) = response s @ status_line
    \<and> \<not> exited (http_do_write sys s)"
proof -
  have "c_str (''python3 '' @ http_source s @ [nul]) = ''python3 '' @ http_source s"
    "c_str (''./'' @ http_source s @ [nul]) = ''./'' @ http_source s"
    using assms(1) c_str_append_nul [of "''python3 '' @ http_source s"]
      c_str_append_nul [of "''./'' @ http_source s"] by (simp_all add: nul_def)
  with assms(2) show ?thesis
    by (auto simp: http_do_write_def panel_def console_def other_def run_system_def command_for_def Let_def)
qed

section \<open>Properties\<close>



text \<open>
  The path of the request becomes a shell command: apart from the two Python pages, whatever
  stands between the slash and the question mark is run as \<open>./path\<close> by the shell of \<open>system\<close>,
  metacharacters included; the child answers 200 before it knows whether the program exists.
\<close>

theorem http_path_is_command:
  assumes "request_ok meth path query proto" "host_of headers = Inr h"
    and "nul \<notin> set path" "0 \<le> sys (command_for path)"
  shows "\<exists>t. http_on_read sys (Some (show_request meth path query proto headers)) s = Inr t
    \<and> commands t = commands s @ [command_for path] \<and> response t = response s @ status_line
    \<and> \<not> exited t"
proof -
  obtain s' where s': "http_on_read sys (Some (show_request meth path query proto headers)) s
      = Inr (http_do_write sys (setEnvironment s'))" "http_source s' = path"
    "response s' = response s" "commands s' = commands s"
    using http_on_read_request [OF assms(1,2), of sys s] by blast
  then show ?thesis
    using http_do_write_commands [of "setEnvironment s'" sys] assms(3,4)
    by (simp add: setEnvironment_def)
qed

theorem http_path_is_command_witness:
  "\<exists>t. http_on_read (\<lambda>_. 0)
      (Some (show_request ''GET'' ''x;id'' None ''HTTP/1.1'' (''Host: a'' @ [CHR 0x0D, newline])))
      (http_session_init [] 0 [] 0 Map.empty) = Inr t \<and> commands t = [''./x;id'']"
proof -
  have "host_of (''Host: a'' @ [CHR 0x0D, newline]) = Inr ''a''"
    using host_of_header [of "[]" "'' a'' @ [CHR 0x0D, newline]" 1 "''a''" "CHR 0x0D" "[newline]"]
    by (simp add: host_char_def is_alnum_def is_alpha_def is_digit_def code_of_def)
  from http_path_is_command [OF _ this, of "''GET''" "''x;id''" None "''HTTP/1.1''" "\<lambda>_. 0"
      "http_session_init [] 0 [] 0 Map.empty"]
  show ?thesis
    by (fastforce simp: request_ok_def word_ok_def nul_def command_for_def http_session_init_def)
qed

text \<open>
  Malformed requests are not refused. Without a Host line the host is cut from the fifth
  character of the header block (reading outside the string when the block is shorter), without a
  question mark the query string is the path, and an empty URI is undefined behaviour.
\<close>

theorem http_malformed_request:
  assumes "request_ok meth path None proto" "find_sub ''Host:'' headers = None"
  shows "(if length headers < 4
      then http_parser (show_request meth path None proto headers) s = Inl Out_Of_Bounds
      else \<exists>s'. http_parser (show_request meth path None proto headers) s = Inr s'
        \<and> env_map s' ''HTTP_HOST''
            = Some (takeWhile host_char (dropWhile (\<lambda>c. c = CHR '' '') (drop 4 headers)))
        \<and> env_map s' ''QUERY_STRING'' = Some path)
    \<and> http_parser (meth @ ''  '' @ proto @ [CHR 0x0D, newline] @ headers) s = Inl Out_Of_Bounds"
proof -
  have w: "word_ok meth" "word_ok proto" using assms(1) by (simp_all add: request_ok_def)
  let ?line = "meth @ CHR '' '' # CHR '' '' # proto"
  have "http_slicer (meth @ ''  '' @ proto @ [CHR 0x0D, newline] @ headers) [CHR 0x0D, newline]
      = Inr (?line, headers)"
    using w http_slicer_crlf [of ?line headers] by (simp add: word_ok_def)
  moreover have "http_slicer ?line '' '' = Inr (meth, CHR '' '' # proto)"
    "http_slicer (CHR '' '' # proto) '' '' = Inr ([], proto)"
    using w http_slicer.slice_field [of "CHR '' ''" "[]" proto]
    by (auto simp: word_ok_def intro: http_slicer.slice_field)
  ultimately have empty:
    "http_parser (meth @ ''  '' @ proto @ [CHR 0x0D, newline] @ headers) s = Inl Out_Of_Bounds"
    by (simp add: http_parser_def)
  show ?thesis
  proof (cases "length headers < 4")
    case True
    then have "host_of headers = Inl Out_Of_Bounds" using assms(2) by (simp add: host_of_def)
    with http_parser_request_host [OF assms(1)] True empty show ?thesis by simp
  next
    case False
    then have "host_of headers
        = Inr (takeWhile host_char (dropWhile (\<lambda>c. c = CHR '' '') (drop 4 headers)))"
      using assms(2) by (simp add: host_of_def)
    from http_parser_request [OF assms(1) this, of s] False empty show ?thesis
      by (simp add: uri_query_def)
  qed
qed

theorem http_malformed_request_witness:
  "\<exists>s'. http_parser (show_request ''GET'' ''x'' None ''HTTP/1.1'' ''A: bc'') (http_session_init [] 0 [] 0 Map.empty)
      = Inr s' \<and> env_map s' ''HTTP_HOST'' = Some ''c'' \<and> env_map s' ''QUERY_STRING'' = Some ''x''"
  using http_malformed_request [of "''GET''" "''x''" "''HTTP/1.1''" "''A: bc''" "http_session_init [] 0 [] 0 Map.empty"]
  by (simp add: request_ok_def word_ok_def host_char_def is_alnum_def is_alpha_def is_digit_def code_of_def)

end
