(* ===== verification/Spec2Isabelle.thy ===== *)
theory Spec2Isabelle
  imports Filters Npshell_Lines Np_Simple Np_Single_Pipes Np_Multi_Exec Socks_Session Socks_Relay Console Console_Socks
    Console_Pages Multi_System Http_Server
begin

text \<open>
  A model of the network-programming projects of this repository: a shell, remote shells with a
  chat, an HTTP server with a CGI console, and a SOCKS4 proxy.

  The parts of the program and how they meet. \<open>project1/npshell.cpp\<close> is a shell with ordinary
  (\<open>|\<close>) and numbered (\<open>|n\<close>) pipes; the programs it runs are the filters of \<open>project1/bin\<close>.
  \<open>project2\<close> serves such a shell over TCP: \<open>np_simple.cpp\<close> with a process per connection,
  \<open>np_single_proc.cpp\<close> with one process and a table of users who can talk to each other and pipe to each
  other, \<open>np_multi_proc.cpp\<close> with a process per user and the table in shared memory.
  \<open>project3/http_server.cpp\<close> answers a request by running a program with the request in its environment; for \<open>/console.cgi\<close> this is \<open>project3/console.cpp\<close>, which drives up
  to five remote shells and prints what they say as a page. \<open>project4/console.cpp\<close> does the same
  through the proxy \<open>project4/socks_server.cpp\<close>.

  Theories and sources:

  \<^item> \<open>Prelude\<close>: results (\<open>'a res\<close>: a value or one of the faults a C++ run can end in), decimal
    printing and reading, \<open>find\<close>, \<open>substr\<close>, \<open>strtok\<close>, lines; and the interfaces
    \<open>char_filter\<close> (a filter that only drops characters), \<open>field_slicer\<close> (cutting fields off a
    line), \<open>counted_schedule\<close> and \<open>pipe_schedule\<close> (pipes planned for later commands; the second is an
    instance of the first), \<open>slot_table\<close> (places of users) and \<open>mailbox\<close> (messages that wait). Each is
    interpreted next to the definitions that provide it, and so are those that single theories state:
    \<open>relay_class\<close>, \<open>session_family\<close> and \<open>forking_server\<close>.
  \<^item> \<open>Descriptors\<close>: what a descriptor refers to, with \<open>open\<close>, \<open>dup2\<close> and \<open>close\<close>, for all shells.
  \<^item> \<open>Filters\<close>: \<open>project1/bin/removetag.cpp\<close>, \<open>removetag0.cpp\<close>, \<open>number.cpp\<close>. A filter is its
    loop over the characters, as a step on the variables of \<open>main\<close>.
  \<^item> \<open>Npshell\<close>, \<open>Npshell_Lines\<close>: \<open>project1/npshell.cpp\<close>. The state is the globals
    (\<open>pipeStack\<close>, \<open>pipeClose\<close>, \<open>_buf\<close>) with the descriptor table, the environment and what is printed;
    the operations are those of the file under their names, up to \<open>executeCMD\<close>, and the two loops of
    \<open>main\<close> are \<open>line_loop\<close> and \<open>run_lines\<close>. The specification is the schedule \<open>nat \<Rightarrow> nat option\<close>:
    which pipe the k-th next command reads. \<open>step_ok\<close> says what a command does to it and
    \<open>executeCMD_refines\<close> that the code does that; pipelines and sequences of lines follow.
  \<^item> \<open>Np_Pipes\<close>: what the three shells of \<open>project2\<close> do alike: cutting a line, the table of numbered
    pipes with its countdown (\<open>plan_number\<close>, \<open>count_down\<close>, \<open>store_slot\<close>), the parent's half of \<open>parser\<close>
    (\<open>start_command\<close>) and the loop over the stages of a line (\<open>stages\<close>), with the program's own
    \<open>parser\<close> as an argument. The record \<open>np\<close> is extended by each program's own state.
  \<^item> \<open>Np_Simple\<close>: the rest of \<open>project2/np_simple.cpp\<close>: the child's half of \<open>parser\<close>, the environment,
    \<open>do_exec\<close> and \<open>handle_new_connection\<close>.
  \<^item> \<open>Np_Chat\<close>: the user table and the built-in commands of \<open>project2/np_single_proc.cpp\<close>. The global
    \<open>clients_map\<close> is the record \<open>chat\<close>; \<open>login\<close> and \<open>logout\<close> are the two pieces of \<open>main\<close> that
    change it and \<open>handle_input\<close> is the rest. \<open>chat_step\<close> is the server's transition relation.
  \<^item> \<open>Np_Single\<close>, \<open>Np_Single_Pipes\<close>: the rest of \<open>np_single_proc.cpp\<close>: \<open>do_exec\<close> with the pipes between
    users, \<open>parser\<close>, and the events of \<open>main\<close> (\<open>single_step\<close>). Its chat goes through steps of
    \<open>chat_step\<close>; the second theory follows the pipes between users.
  \<^item> \<open>Np_Multi\<close>, \<open>Np_Multi_Exec\<close>: \<open>project2/np_multi_proc.cpp\<close>. The first has the shared memory
    (\<open>clients\<close> is the field \<open>shm\<close> of \<open>room\<close>), the messages in it, the signal that shows them and the built-in
    commands; \<open>room_step\<close> is what the processes can do in any order. The second has \<open>do_exec\<close>,
    \<open>parser\<close>, the FIFOs between users with their signal, and \<open>handle_new_connection\<close> of one process, and
    proves that its lines go through steps of \<open>room_step\<close>.
  \<^item> \<open>Http_Server\<close>: the class \<open>session\<close> of \<open>project3/http_server.cpp\<close>.
  \<^item> \<open>Console\<close>: \<open>project3/console.cpp\<close>: the query parser, the page, the escaping and the dialogue of
    \<open>session\<close>.
  \<^item> \<open>Console_Socks\<close>: what \<open>project4/console.cpp\<close> does differently: the request to the proxy, its
    reply, and reads into a member array.
  \<^item> \<open>Console_Pages\<close>: both consoles as a whole: the connections of class \<open>npshell\<close> (\<open>shell_step\<close>,
    \<open>proxied_step\<close>) and \<open>main\<close> with its event loop, which runs the completions of up to five shells in any
    order (\<open>side_by_side\<close>). The interface \<open>session_family\<close> (a session keeps to its own cell of the page)
    gives that each runs as it would alone.
  \<^item> \<open>Servers\<close>: \<open>main\<close> and the accept loops of all servers and templates, over the descriptors of the server and
    of each child. The interface \<open>forking_server\<close> (a round leaves the server's descriptors as they were and
    gives the child what its program needs) has one instance for each loop.
  \<^item> \<open>Multi_Signals\<close>: the signal handlers of \<open>np_multi_proc.cpp\<close>.
  \<^item> \<open>Multi_System\<close>: that program as a whole: \<open>system_step\<close> is what its processes do in any order, each over the
    shared memory as the others left it, and \<open>system_ok\<close> says that the table of users is that of the
    processes.
  \<^item> \<open>Socks_Session\<close>: the class \<open>session\<close> of \<open>project4/socks_server.cpp\<close>: request, firewall, reply.
  \<^item> \<open>Socks_Relay\<close>: the classes \<open>socks_bridge\<close> and \<open>socks_bind\<close>. A state holds the operations under
    way; a run is any sequence of their completions, so every order of events is covered. The
    interface \<open>relay_class\<close> collects what both sets of handlers do; the streams are proved once in
    it.
  \<^item> this theory: properties across components. The bytes the console sends are those the proxy
    parses, its reply is what the console waits for, and the form the server hands on starts the
    sessions it describes.

  What the lemmas show. Invariants: \<open>wf\<close> and \<open>sched_ok\<close> of the shell (no pipe planned twice,
  writing ends closed once their writer runs), \<open>relay_inv\<close> of the relays (what was sent is what was
  read, but for the one buffer under way), \<open>chat_ok\<close> of the chat (no descriptor in two places, no
  name twice), \<open>room_ok\<close> and \<open>room_typed\<close> of the shared memory (what was sent is what was shown and what
  waits; nothing is larger than its place), each preserved by every operation. Refinement: the
  shell implements its schedule, the numbered pipes of \<open>project2\<close> implement the same schedule, and both chat
  servers implement their chat whatever the programs do. Composition: the sessions of a console and the connections of a
  server do not disturb each other. Functional behaviour: every branch of the
  commands, of the request parsers and of the replies, faults included. Round trips: SOCKS4A
  requests, query strings, numbered lines, port bytes. Several properties describe what the code
  does where it does not do what it means to; they are stated as such.

  Bounds and loops. Integers that are bounded in the code and can reach the bound are words
  (octets and ports of SOCKS) or are tested against the size of the array they index or fill:
  an access outside is \<open>Out_Of_Bounds\<close>, a longer copy \<open>Buffer_Overflow\<close>, a null pointer
  \<open>Null_Pointer\<close>. No definition uses fuel. The loop over a line of the shell is a
  \<open>partial_function\<close> whose result is \<open>None\<close> when it does not return, and \<open>line_terminates\<close> proves
  that it returns, because each round leaves a shorter rest of the line; the other loops are
  structural or have a \<open>termination\<close> proof.
  The loops of the C++ code that do run forever (a \<open>pipe\<close> that always fails, a negative pipe
  number) are the fault \<open>Unbounded_Loop\<close>.

  Parameters. What is not in the repository is an argument: the kernel's answers (whether
  \<open>fork\<close> fails, how many descriptors there are, which files open), the name resolver, the value
  of \<open>system\<close>, the lines of \<open>socks.conf\<close>, the test cases.

  In \<open>project2\<close> these are the fields of \<open>np_kernel\<close>, among them what \<open>malloc\<close> finds in the eight bytes
  of which \<open>parser\<close> sets only two. \<open>before\<close> of \<open>multi_serve\<close> is what a write in front of an array does.

  Abstractions. A child process is the program, its arguments and its descriptors at \<open>execvp\<close>; what
  programs do is not modelled, so that what flows through a pipe is told by which ends are open
  where. A line of \<open>np_multi_proc.cpp\<close> runs without other processes in between, but for the receiver
  of a FIFO that opens its end.

  Not modelled: standard I/O buffering and the time at which a signal comes, apart from the messages of
  \<open>np_multi_proc.cpp\<close>; the descriptors that the I/O library opens for itself; the parser, page and output functions of
  \<open>project4/console.cpp\<close> and the copies of \<open>create_socket\<close>, whose text is that of the ones that are
  modelled; \<open>noop.cpp\<close>, which does nothing; the Python CGI programs, which are in another language, and
  the test data.
\<close>

section \<open>The console, the proxy and its relay\<close>

text \<open>
  The SOCKS server on the bytes of the console: a fresh session whose buffer is zero behind the
  request.
\<close>

lemma proxy_reads_console_request:
  assumes "socks_request ip prt = Inr req" "ip = dotted a b c d"
    and "drop 8 old = 0 # 0 # rest" "resolve ip (nat_str (unat prt)) = Some dst"
  shows "SOCKS4_parser resolve (received_into old req) si =
     Inr (si\<lparr>CD := ''1'', DSTPORT := nat_str (unat prt), USERID := [], DOMAIN_NAME := [], DSTIP := dst\<rparr>)"
proof -
  have prt: "unat prt < 65536" by (rule order_less_le_trans [OF unsigned_less]) simp
  have req: "req = [4, 1, of_nat (unat prt div 256), of_nat (unat prt mod 256), a, b, c, d]"
    using assms(1) unfolding socks_request_def assms(2) dotted_def byte_str_def octets_of_bytes by simp
  have "length req = 8" by (simp add: req)
  with assms(3) have "received_into old req = req @ 0 # 0 # rest" by (simp add: received_into_def)
  then have "received_into old req = socks4_request 1 (unat prt) a b c d [] (Some []) @ rest"
    by (simp add: req socks4_request_def)
  with SOCKS4_parser_request [OF prt, of "[]" "[]" resolve 1 a b c d rest si] assms(2,4)
  show ?thesis by (simp add: byte_str_def nat_str.simps digit_char_literals)
qed

lemma do_work_connect:
  assumes "CD si = ''1''" "DSTPORT si = nat_str (unat (prt :: 16 word))"
  shows "\<exists>out hi lo. do_work conf si = Inr (out,
     if firewall conf si = Inr True then Start_Bridge (DSTIP si) (DSTPORT si) [0, 90, hi, lo, 0, 0, 0, 0]
     else Send_Reject [4, 91, hi, lo, 0, 0, 0, 0])"
proof -
  have "unat prt < 65536" by (rule order_less_le_trans [OF unsigned_less]) simp
  then have "stoi (DSTPORT si) = Inr (int (unat prt))" using assms(2) by (simp add: stoi_nat_str)
  moreover obtain ok where "firewall conf si = Inr ok" using firewall_total by blast
  ultimately show ?thesis
    using assms(1) by (cases ok) (simp_all add: do_work_def first_char_def Let_def)
qed

lemma reply_code: "1 < length r \<Longrightarrow> on_reply (Some (map char_of_byte r)) files s =
   (let s1 = s\<lparr>reading := False, data_arr := received_into (data_arr s) (map char_of_byte r)\<rparr>
    in if unat (r ! 1) = 90
       then s1\<lparr>cmd_str := cmd_str s @
              (case files (''test_case/'' @ source s) of None \<Rightarrow> [] | Some text \<Rightarrow> getlines text),
            reading := True\<rparr>
       else s1\<lparr>socket_open := False\<rparr>)"
  by (simp add: on_reply_def received_into_def nth_append char_of_byte_def Let_def)

text \<open>
  C25. A console reaches its shell through the proxy exactly when the firewall allows it: the eight
  bytes it sends (in a buffer that is zero behind them) are read as a CONNECT to its own address
  and port; if the firewall accepts, the reply that the bridge sends first makes the console open
  its test case, otherwise the reject reply makes it close the socket.
\<close>

theorem console_through_proxy:
  assumes "socks_request (dotted a b c d) prt = Inr req"
    and "drop 8 old = 0 # 0 # rest" "resolve (dotted a b c d) (nat_str (unat prt)) = Some dst"
  shows "\<exists>si' out act. SOCKS4_parser resolve (received_into old req) si = Inr si'
    \<and> CD si' = ''1'' \<and> DSTIP si' = dst \<and> do_work conf si' = Inr (out, act)
    \<and> (if firewall conf si' = Inr True
       then \<exists>reply t. act = Start_Bridge dst (nat_str (unat prt)) reply
         \<and> relay_run bridge_handler (bridge_start (bridge_init reply um dm))
              [Resolved, Connected, Replied False] = Some t
         \<and> replies t = [reply] \<and> reading (on_reply (Some (map char_of_byte reply)) files shell)
       else \<exists>reply. act = Send_Reject reply
         \<and> \<not> reading (on_reply (Some (map char_of_byte reply)) files shell)
         \<and> \<not> socket_open (on_reply (Some (map char_of_byte reply)) files shell))"
proof -
  let ?si = "si\<lparr>CD := ''1'', DSTPORT := nat_str (unat prt), USERID := [], DOMAIN_NAME := [], DSTIP := dst\<rparr>"
  have parsed: "SOCKS4_parser resolve (received_into old req) si = Inr ?si"
    using proxy_reads_console_request assms by blast
  obtain out hi lo where work: "do_work conf ?si = Inr (out,
     if firewall conf ?si = Inr True then Start_Bridge dst (nat_str (unat prt)) [0, 90, hi, lo, 0, 0, 0, 0]
     else Send_Reject [4, 91, hi, lo, 0, 0, 0, 0])"
    using do_work_connect [of ?si prt conf] by auto
  have run: "\<exists>t. relay_run bridge_handler (bridge_start (bridge_init reply um dm))
              [Resolved, Connected, Replied False] = Some t \<and> replies t = [reply]" for reply
    by (simp add: bridge_eval)
  show ?thesis
  proof (cases "firewall conf ?si = Inr True")
    case True
    with work have "do_work conf ?si = Inr (out, Start_Bridge dst (nat_str (unat prt)) [0, 90, hi, lo, 0, 0, 0, 0])"
      by simp
    moreover obtain t where "relay_run bridge_handler (bridge_start (bridge_init [0, 90, hi, lo, 0, 0, 0, 0] um dm))
        [Resolved, Connected, Replied False] = Some t" "replies t = [[0, 90, hi, lo, 0, 0, 0, 0]]"
      using run by blast
    moreover have "reading (on_reply (Some (map char_of_byte [0, 90, hi, lo, 0, 0, 0, 0])) files shell)"
      by (subst reply_code) (simp_all add: Let_def)
    ultimately show ?thesis
      using parsed True by (intro exI [of _ ?si] exI [of _ out] exI conjI) (auto simp del: relay_run.simps)
  next
    case False
    with work have "do_work conf ?si = Inr (out, Send_Reject [4, 91, hi, lo, 0, 0, 0, 0])" by simp
    moreover have "\<not> reading (on_reply (Some (map char_of_byte [4, 91, hi, lo, 0, 0, 0, 0])) files shell)"
      "\<not> socket_open (on_reply (Some (map char_of_byte [4, 91, hi, lo, 0, 0, 0, 0])) files shell)"
      by (subst reply_code; simp add: Let_def)+
    ultimately show ?thesis using parsed False by (intro exI [of _ ?si] exI [of _ out] exI conjI) auto
  qed
qed

theorem console_through_proxy_witness:
  "\<exists>si' out act. SOCKS4_parser (\<lambda>host port. Some host)
      (received_into (replicate 8 7 @ [0, 0, 5]) [4, 1, 27, 89, 140, 113, 1, 2]) (session_init ''9.9.9.9'' 1) = Inr si'
    \<and> do_work None si' = Inr (out, act) \<and> (\<exists>reply. act = Send_Reject reply)"
proof -
  have req: "socks_request (dotted 140 113 1 2) 7001 = Inr [4, 1, 27, 89, 140, 113, 1, 2]"
    unfolding socks_request_def dotted_def byte_str_def octets_of_bytes by simp
  have old: "drop 8 (replicate 8 7 @ [0, 0, 5] :: byte list) = 0 # 0 # [5]" by simp
  have "firewall None si = Inr False" for si by (simp add: firewall_def)
  then show ?thesis
    using console_through_proxy [OF req old, of "\<lambda>host port. Some host" "dotted 140 113 1 2"
      "session_init ''9.9.9.9'' 1" None] by (simp del: replicate.simps) blast
qed

section \<open>The web server and its console program\<close>



end
